(* ===== verification/Prelude.thy ===== *)
theory Prelude
  imports
    Main
    "HOL-Library.Char_ord"
    "HOL-Library.List_Lexorder"
    "HOL-Library.Product_Lexorder"
begin

text \<open>
  Shared vocabulary of the development: time, the falsy-or-default idiom of Python, and
  database tables as lists of rows with the two SQL shapes the program uses on them
  (a lookup by key and an UPDATE ... WHERE), together with the lemmas the component
  theories share. The collection \<open>row_simps\<close> holds the rewrite rules on tables.
\<close>

named_theorems row_simps

section \<open>Time\<close>

text \<open>An instant is its number of microseconds since the epoch, the resolution of both
  Python's datetime and PostgreSQL's timestamptz.\<close>

type_synonym time = int

definition seconds :: "int \<Rightarrow> time" where
  "seconds n = n * 1000000"

lemma seconds_mono [simp]: "seconds m \<le> seconds n \<longleftrightarrow> m \<le> n"
  by (simp add: seconds_def)

lemma seconds_strict_mono [simp]: "seconds m < seconds n \<longleftrightarrow> m < n"
  by (simp add: seconds_def)

lemma seconds_pos_iff [simp]: "0 < seconds n \<longleftrightarrow> 0 < n"
  by (simp add: seconds_def)

lemma seconds_nonneg_iff [simp]: "0 \<le> seconds n \<longleftrightarrow> 0 \<le> n"
  by (simp add: seconds_def)

lemma seconds_zero [simp]: "seconds 0 = 0"
  by (simp add: seconds_def)

section \<open>Falsy-or-default\<close>

text \<open>Python's \<open>x or d\<close> for an optional int: both None and 0 are falsy.\<close>

fun int_or :: "int option \<Rightarrow> int \<Rightarrow> int" where
  "int_or None d = d"
| "int_or (Some v) d = (if v = 0 then d else v)"

text \<open>\<open>x or d\<close> for an optional string: both None and the empty string are falsy.\<close>

fun str_or :: "string option \<Rightarrow> string \<Rightarrow> string" where
  "str_or None d = d"
| "str_or (Some v) d = (if v = [] then d else v)"

text \<open>\<open>a or b\<close> where both sides are optional strings.\<close>

fun opt_or :: "string option \<Rightarrow> string option \<Rightarrow> string option" where
  "opt_or None b = b"
| "opt_or (Some v) b = (if v = [] then b else Some v)"

lemma int_or_pos: "0 < d \<Longrightarrow> (\<And>v. x = Some v \<Longrightarrow> 0 \<le> v) \<Longrightarrow> 0 < int_or x d"
  by (cases x) (auto simp: le_less)

section \<open>Tables\<close>

text \<open>A table is the list of its rows in storage order. \<open>find_row\<close> is a lookup by
  (unique) key, \<open>update_rows\<close> is UPDATE ... SET ... WHERE.\<close>

definition find_row :: "('r \<Rightarrow> 'k) \<Rightarrow> 'k \<Rightarrow> 'r list \<Rightarrow> 'r option" where
  "find_row key k xs = find (\<lambda>r. key r = k) xs"

definition update_rows :: "('r \<Rightarrow> bool) \<Rightarrow> ('r \<Rightarrow> 'r) \<Rightarrow> 'r list \<Rightarrow> 'r list" where
  "update_rows p f xs = map (\<lambda>r. if p r then f r else r) xs"

abbreviation unique_on :: "('r \<Rightarrow> 'k) \<Rightarrow> 'r list \<Rightarrow> bool" where
  "unique_on key xs \<equiv> distinct (map key xs)"

lemma find_row_Nil [row_simps, simp]: "find_row key k [] = None"
  by (simp add: find_row_def)

lemma find_row_Cons [row_simps, simp]:
  "find_row key k (r # xs) = (if key r = k then Some r else find_row key k xs)"
  by (simp add: find_row_def)

lemma find_row_SomeD:
  "find_row key k xs = Some r \<Longrightarrow> r \<in> set xs \<and> key r = k"
  by (auto simp: find_row_def find_Some_iff)

lemma find_row_None_iff [row_simps]: "find_row key k xs = None \<longleftrightarrow> k \<notin> key ` set xs"
  by (auto simp: find_row_def find_None_iff)

lemma find_row_unique:
  "unique_on key xs \<Longrightarrow> r \<in> set xs \<Longrightarrow> key r = k \<Longrightarrow> find_row key k xs = Some r"
  by (induction xs) (auto simp: rev_image_eqI)

lemma find_row_Some_iff:
  "unique_on key xs \<Longrightarrow> find_row key k xs = Some r \<longleftrightarrow> r \<in> set xs \<and> key r = k"
  using find_row_SomeD find_row_unique by metis

lemma find_row_append:
  "find_row key k (xs @ ys) = (case find_row key k xs of None \<Rightarrow> find_row key k ys | Some r \<Rightarrow> Some r)"
  by (induction xs) auto

lemma unique_onD:
  "unique_on key xs \<Longrightarrow> a \<in> set xs \<Longrightarrow> b \<in> set xs \<Longrightarrow> key a = key b \<Longrightarrow> a = b"
  by (metis find_row_unique option.inject)

lemma set_update_rows [row_simps]:
  "set (update_rows p f xs) = f ` {r \<in> set xs. p r} \<union> {r \<in> set xs. \<not> p r}"
  by (auto simp: update_rows_def)

lemma kept_by_update: "x \<in> set xs \<Longrightarrow> \<not> p x \<Longrightarrow> x \<in> set (update_rows p f xs)"
  by (auto simp: set_update_rows)

lemma length_update_rows [row_simps, simp]: "length (update_rows p f xs) = length xs"
  by (simp add: update_rows_def)

lemma update_rows_Nil [row_simps, simp]: "update_rows p f [] = []"
  by (simp add: update_rows_def)

lemma update_rows_Cons [row_simps, simp]:
  "update_rows p f (r # xs) = (if p r then f r else r) # update_rows p f xs"
  by (simp add: update_rows_def)

lemma update_rows_id: "(\<And>r. r \<in> set xs \<Longrightarrow> p r \<Longrightarrow> f r = r) \<Longrightarrow> update_rows p f xs = xs"
  by (induction xs) auto

lemma map_update_rows:
  "(\<And>r. r \<in> set xs \<Longrightarrow> p r \<Longrightarrow> g (f r) = g r) \<Longrightarrow> map g (update_rows p f xs) = map g xs"
  by (induction xs) auto

lemma find_row_update_rows:
  "(\<And>r. r \<in> set xs \<Longrightarrow> p r \<Longrightarrow> key (f r) = key r) \<Longrightarrow>
   find_row key k (update_rows p f xs)
     = map_option (\<lambda>r. if p r then f r else r) (find_row key k xs)"
  by (induction xs) auto

lemma update_rows_memE:
  assumes "r \<in> set (update_rows p f xs)"
  obtains r0 where "r0 \<in> set xs" "r = (if p r0 then f r0 else r0)"
  using assms by (auto simp: update_rows_def)

lemma unique_on_append1:
  "unique_on key xs \<Longrightarrow> key r \<notin> key ` set xs \<Longrightarrow> unique_on key (xs @ [r])"
  by simp

text \<open>An UPDATE that keeps a column and adds no row to a partial index keeps the column
  unique on that index.\<close>

lemma filter_update_subset:
  "(\<And>r. r \<in> set xs \<Longrightarrow> p r \<Longrightarrow> g (f r) = g r \<and> (a (f r) \<longrightarrow> a r)) \<Longrightarrow>
   g ` set (filter a (update_rows p f xs)) \<subseteq> g ` set (filter a xs)"
proof
  fix y
  assume keep: "\<And>r. r \<in> set xs \<Longrightarrow> p r \<Longrightarrow> g (f r) = g r \<and> (a (f r) \<longrightarrow> a r)"
  assume "y \<in> g ` set (filter a (update_rows p f xs))"
  then obtain r where "y = g r" "a r" "r \<in> set (update_rows p f xs)" by auto
  then obtain r0 where "r0 \<in> set xs" "y = g (if p r0 then f r0 else r0)"
    "a (if p r0 then f r0 else r0)"
    by (auto elim: update_rows_memE)
  with keep [of r0] show "y \<in> g ` set (filter a xs)"
    by (cases "p r0") auto
qed

lemma distinct_filter_update:
  "distinct (map g (filter a xs)) \<Longrightarrow>
   (\<And>r. r \<in> set xs \<Longrightarrow> p r \<Longrightarrow> g (f r) = g r \<and> (a (f r) \<longrightarrow> a r)) \<Longrightarrow>
   distinct (map g (filter a (update_rows p f xs)))"
proof (induction xs)
  case Nil
  then show ?case by simp
next
  case (Cons r xs)
  have IH: "distinct (map g (filter a (update_rows p f xs)))"
    using Cons by (simp split: if_splits)
  have sub: "g ` set (filter a (update_rows p f xs)) \<subseteq> g ` set (filter a xs)"
    using Cons.prems(2) by (intro filter_update_subset) simp
  let ?r = "if p r then f r else r"
  have keep: "g ?r = g r" "a ?r \<longrightarrow> a r"
    using Cons.prems(2) [of r] by auto
  show ?case
  proof (cases "a ?r")
    case True
    with keep(2) Cons.prems(1) have "g r \<notin> g ` set (filter a xs)" by auto
    with sub keep(1) have "g ?r \<notin> g ` set (filter a (update_rows p f xs))" by auto
    with IH True show ?thesis by simp
  next
    case False
    with IH show ?thesis by simp
  qed
qed

section \<open>INSERT ... ON CONFLICT\<close>

text \<open>A multi-row INSERT: for each new row in turn, a row with the same key is merged with it
  (the identity for DO NOTHING), otherwise a row is appended. Each new row draws a number
  from the sequence, whether it is inserted or not.\<close>

fun upsert_rows :: "('r \<Rightarrow> 'k) \<Rightarrow> ('n \<Rightarrow> 'k) \<Rightarrow> (int \<Rightarrow> 'n \<Rightarrow> 'r) \<Rightarrow> ('n \<Rightarrow> 'r \<Rightarrow> 'r) \<Rightarrow> int \<Rightarrow>
    'n list \<Rightarrow> 'r list \<Rightarrow> 'r list" where
  "upsert_rows key nkey mk merge s [] xs = xs"
| "upsert_rows key nkey mk merge s (n # ns) xs =
     upsert_rows key nkey mk merge (s + 1) ns
       (if nkey n \<in> key ` set xs then update_rows (\<lambda>r. key r = nkey n) (merge n) xs
        else xs @ [mk s n])"

text \<open>The laws of a merge: new rows carry their key, a merge keeps it.\<close>

definition upsert_laws :: "('r \<Rightarrow> 'k) \<Rightarrow> ('n \<Rightarrow> 'k) \<Rightarrow> (int \<Rightarrow> 'n \<Rightarrow> 'r) \<Rightarrow> ('n \<Rightarrow> 'r \<Rightarrow> 'r) \<Rightarrow> bool" where
  "upsert_laws key nkey mk merge \<longleftrightarrow>
     (\<forall>j n. key (mk j n) = nkey n) \<and> (\<forall>n r. key r = nkey n \<longrightarrow> key (merge n r) = nkey n)"

lemma upsert_keys:
  "upsert_laws key nkey mk merge \<Longrightarrow>
   key ` set (upsert_rows key nkey mk merge s ns xs) = key ` set xs \<union> nkey ` set ns"
proof (induction ns arbitrary: s xs)
  case (Cons n ns)
  have "key ` set (update_rows (\<lambda>r. key r = nkey n) (merge n) xs) = key ` set xs"
  proof -
    have "map key (update_rows (\<lambda>r. key r = nkey n) (merge n) xs) = map key xs"
      using Cons.prems by (intro map_update_rows) (auto simp: upsert_laws_def)
    then show ?thesis by (metis set_map)
  qed
  with Cons show ?case by (auto simp: upsert_laws_def)
qed simp

lemma upsert_unique_key:
  "upsert_laws key nkey mk merge \<Longrightarrow> unique_on key xs \<Longrightarrow>
   unique_on key (upsert_rows key nkey mk merge s ns xs)"
proof (induction ns arbitrary: s xs)
  case (Cons n ns)
  have "map key (update_rows (\<lambda>r. key r = nkey n) (merge n) xs) = map key xs"
    using Cons.prems(1) by (intro map_update_rows) (auto simp: upsert_laws_def)
  with Cons show ?case by (auto simp: upsert_laws_def)
qed simp

lemma upsert_unique_id:
  assumes "\<And>j n. idf (mk j n) = j" "\<And>n r. idf (merge n r) = idf r"
    and "unique_on idf xs" "\<forall>r \<in> set xs. idf r < s"
  shows "unique_on idf (upsert_rows key nkey mk merge s ns xs) \<and>
    (\<forall>r \<in> set (upsert_rows key nkey mk merge s ns xs). idf r < s + int (length ns))"
  using assms(3,4)
proof (induction ns arbitrary: s xs)
  case (Cons n ns)
  let ?ys = "if nkey n \<in> key ` set xs then update_rows (\<lambda>r. key r = nkey n) (merge n) xs else xs @ [mk s n]"
  have "map idf (update_rows (\<lambda>r. key r = nkey n) (merge n) xs) = map idf xs"
    using assms(2) by (intro map_update_rows) simp
  moreover have "\<forall>r \<in> set (update_rows (\<lambda>r. key r = nkey n) (merge n) xs). idf r < s + 1"
    using Cons.prems(2) by (auto simp: set_update_rows assms(2) add_strict_increasing2 less_imp_le)
  moreover have "s \<notin> idf ` set xs" using Cons.prems(2) by auto
  ultimately have "unique_on idf ?ys" "\<forall>r \<in> set ?ys. idf r < s + 1"
    using Cons.prems by (auto simp: assms(1) intro: less_trans)
  from Cons.IH [OF this] show ?case by (simp add: algebra_simps)
qed simp

text \<open>Where each row of the result comes from.\<close>

lemma upsert_cases:
  assumes "upsert_laws key nkey mk merge" "distinct (map nkey ns)"
    and "r \<in> set (upsert_rows key nkey mk merge s ns xs)"
  shows "(r \<in> set xs \<and> key r \<notin> nkey ` set ns) \<or>
    (\<exists>n \<in> set ns. key r = nkey n \<and>
       ((\<exists>r0 \<in> set xs. key r0 = nkey n \<and> r = merge n r0) \<or>
        (nkey n \<notin> key ` set xs \<and> (\<exists>j \<ge> s. j < s + int (length ns) \<and> r = mk j n))))"
  using assms(2,3)
proof (induction ns arbitrary: s xs)
  case (Cons n ns)
  let ?ys = "if nkey n \<in> key ` set xs then update_rows (\<lambda>r. key r = nkey n) (merge n) xs else xs @ [mk s n]"
  have keys: "key ` set ?ys = insert (nkey n) (key ` set xs)"
    using upsert_keys [OF assms(1), of s "[n]" xs] by auto
  have laws: "key (mk j n) = nkey n" "key r0 = nkey n \<Longrightarrow> key (merge n r0) = nkey n" for j r0
    using assms(1) by (auto simp: upsert_laws_def)
  have old: "r0 \<in> set xs" if "r0 \<in> set ?ys" "key r0 \<noteq> nkey n" for r0
    using that laws by (auto simp: set_update_rows split: if_splits)
  have new: "(\<exists>r0 \<in> set xs. key r0 = nkey n \<and> r = merge n r0) \<or> nkey n \<notin> key ` set xs \<and> r = mk s n"
    if "r \<in> set ?ys" "key r = nkey n"
  proof (cases "nkey n \<in> key ` set xs")
    case True
    with that show ?thesis by (auto simp: set_update_rows laws)
  next
    case False
    then have "r \<notin> set xs" using that(2) by (metis imageI)
    with that False show ?thesis by simp
  qed
  have nn: "nkey n \<notin> nkey ` set ns" using Cons.prems(1) by simp
  from Cons.prems Cons.IH [of "s + 1" ?ys]
  consider "r \<in> set ?ys \<and> key r \<notin> nkey ` set ns"
    | m where "m \<in> set ns" "key r = nkey m" "(\<exists>r0 \<in> set ?ys. key r0 = nkey m \<and> r = merge m r0) \<or>
        (nkey m \<notin> key ` set ?ys \<and> (\<exists>j \<ge> s + 1. j < s + 1 + int (length ns) \<and> r = mk j m))"
    by auto
  then show ?case
  proof cases
    case 1
    show ?thesis
    proof (cases "key r = nkey n")
      case True
      with new 1 have "(\<exists>r0 \<in> set xs. key r0 = nkey n \<and> r = merge n r0) \<or> nkey n \<notin> key ` set xs \<and> r = mk s n"
        by simp
      then have "(\<exists>r0 \<in> set xs. key r0 = nkey n \<and> r = merge n r0) \<or>
          nkey n \<notin> key ` set xs \<and> (\<exists>j \<ge> s. j < s + int (length (n # ns)) \<and> r = mk j n)"
        by force
      with True show ?thesis by (intro disjI2 bexI [of _ n]) simp_all
    next
      case False
      with 1 old [of r] show ?thesis by simp
    qed
  next
    case (2 m)
    have "nkey m \<noteq> nkey n" using nn 2(1) by (metis imageI)
    from 2(3) have "(\<exists>r0 \<in> set xs. key r0 = nkey m \<and> r = merge m r0) \<or>
        (nkey m \<notin> key ` set xs \<and> (\<exists>j \<ge> s. j < s + int (length (n # ns)) \<and> r = mk j m))"
    proof
      assume "\<exists>r0 \<in> set ?ys. key r0 = nkey m \<and> r = merge m r0"
      then obtain r0 where "r0 \<in> set ?ys" "key r0 = nkey m" "r = merge m r0" by blast
      with old [of r0] \<open>nkey m \<noteq> nkey n\<close> show ?thesis by auto
    next
      assume a: "nkey m \<notin> key ` set ?ys \<and> (\<exists>j \<ge> s + 1. j < s + 1 + int (length ns) \<and> r = mk j m)"
      then obtain j where "s + 1 \<le> j" "j < s + 1 + int (length ns)" "r = mk j m" by blast
      with a keys show ?thesis by (intro disjI2 conjI exI [of _ j]) simp_all
    qed
    with 2(1,2) show ?thesis by (intro disjI2 bexI [of _ m]) simp_all
  qed
qed simp

text \<open>Rows no new row matches are kept.\<close>

lemma upsert_keep:
  assumes "r \<in> set xs" "key r \<notin> nkey ` set ns"
  shows "r \<in> set (upsert_rows key nkey mk merge s ns xs)"
  using assms
proof (induction ns arbitrary: s xs)
  case (Cons n ns)
  then have "r \<in> set (if nkey n \<in> key ` set xs then update_rows (\<lambda>r. key r = nkey n) (merge n) xs else xs @ [mk s n])"
    by (auto simp: set_update_rows)
  with Cons show ?case by simp
qed simp

text \<open>Whatever a merge keeps of a row is still there afterwards: no row is lost.\<close>

lemma upsert_mono:
  assumes "\<And>n r. key r = nkey n \<Longrightarrow> g (merge n r) = g r"
  shows "g ` set xs \<subseteq> g ` set (upsert_rows key nkey mk merge s ns xs)"
proof (induction ns arbitrary: s xs)
  case (Cons n ns)
  let ?ys = "if nkey n \<in> key ` set xs then update_rows (\<lambda>r. key r = nkey n) (merge n) xs else xs @ [mk s n]"
  have "map g (update_rows (\<lambda>r. key r = nkey n) (merge n) xs) = map g xs"
    using assms by (intro map_update_rows)
  then have "g ` set (update_rows (\<lambda>r. key r = nkey n) (merge n) xs) = g ` set xs"
    by (metis set_map)
  then have "g ` set xs \<subseteq> g ` set ?ys" by auto
  also have "\<dots> \<subseteq> g ` set (upsert_rows key nkey mk merge (s + 1) ns ?ys)" by (rule Cons.IH)
  finally show ?case by simp
qed simp

section \<open>First maximum by a key\<close>

text \<open>Python's \<open>max(xs, key=f)\<close> on a non-empty list: the first element of maximal key.\<close>

fun max_by :: "('a \<Rightarrow> int) \<Rightarrow> 'a \<Rightarrow> 'a list \<Rightarrow> 'a" where
  "max_by f m [] = m"
| "max_by f m (x # xs) = max_by f (if f m < f x then x else m) xs"

lemma max_by_in: "max_by f m xs \<in> set (m # xs)"
  by (induction xs arbitrary: m) (auto split: if_splits)

lemma max_by_ge: "y \<in> set (m # xs) \<Longrightarrow> f y \<le> f (max_by f m xs)"
proof (induction xs arbitrary: m y)
  case Nil
  then show ?case by simp
next
  case (Cons x xs)
  let ?m = "if f m < f x then x else m"
  have "f m \<le> f (max_by f ?m xs)" "f x \<le> f (max_by f ?m xs)"
    using Cons.IH [of ?m ?m] by (auto split: if_splits)
  moreover have "y \<in> set xs \<Longrightarrow> f y \<le> f (max_by f ?m xs)"
    using Cons.IH [of y ?m] by simp
  ultimately show ?case using Cons.prems by auto
qed

section \<open>Lists of sums\<close>

text \<open>A minimum of a non-empty stable sort: \<open>ORDER BY k LIMIT 1\<close>.\<close>

lemma sort_key_Nil_iff [simp]: "sort_key f xs = [] \<longleftrightarrow> xs = []"
  by (metis length_0_conv length_sort)

lemma sort_key_hd_min:
  fixes f :: "'a \<Rightarrow> 'k::linorder"
  assumes "sort_key f xs = y # ys"
  shows "y \<in> set xs" and "\<And>x. x \<in> set xs \<Longrightarrow> f y \<le> f x"
proof -
  have set: "set xs = set (y # ys)"
    by (metis assms set_sort)
  then show "y \<in> set xs" by simp
  have "sorted (map f (y # ys))"
    by (metis assms sorted_sort_key)
  then show "\<And>x. x \<in> set xs \<Longrightarrow> f y \<le> f x"
    using set by auto
qed

end
