(* ===== verification/Pystring.thy ===== *)
theory Pystring
  imports Prelude
begin

text \<open>
  The operations of Python's \<open>str\<close> the program uses. A string is a list of
  characters, each standing for one code point; code points beyond 255 have no
  character of their own in this model (see \<open>chr_of\<close>), so case conversion and the
  whitespace predicate are those of the first 256 code points.
\<close>

definition code :: "char \<Rightarrow> int" where
  "code c = of_char c"

definition chr_of :: "int \<Rightarrow> char" where
  "chr_of n = (if 0 \<le> n \<and> n < 256 then char_of n else CHR ''?'')"

section \<open>Whitespace, case, search\<close>

text \<open>\<open>str.isspace\<close> on the first 256 code points.\<close>

definition is_space :: "char \<Rightarrow> bool" where
  "is_space c = (let n = code c in
     (9 \<le> n \<and> n \<le> 13) \<or> (28 \<le> n \<and> n \<le> 32) \<or> n = 133 \<or> n = 160)"

definition strip :: "string \<Rightarrow> string" where
  "strip s = rev (dropWhile is_space (rev (dropWhile is_space s)))"

definition upper_char :: "char \<Rightarrow> string" where
  "upper_char c = (let n = code c in
     if (97 \<le> n \<and> n \<le> 122) \<or> (224 \<le> n \<and> n \<le> 254 \<and> n \<noteq> 247) then [chr_of (n - 32)]
     else if n = 223 then ''SS''
     else [c])"

definition upper :: "string \<Rightarrow> string" where
  "upper s = concat (map upper_char s)"

definition lower_char :: "char \<Rightarrow> char" where
  "lower_char c = (let n = code c in
     if (65 \<le> n \<and> n \<le> 90) \<or> (192 \<le> n \<and> n \<le> 222 \<and> n \<noteq> 215) then chr_of (n + 32) else c)"

definition lower :: "string \<Rightarrow> string" where
  "lower s = map lower_char s"

fun starts_with :: "string \<Rightarrow> string \<Rightarrow> bool" where
  "starts_with [] s = True"
| "starts_with (p # ps) [] = False"
| "starts_with (p # ps) (c # cs) = (p = c \<and> starts_with ps cs)"

text \<open>\<open>needle in haystack\<close>.\<close>

fun contains :: "string \<Rightarrow> string \<Rightarrow> bool" where
  "contains p [] = (p = [])"
| "contains p (c # cs) = (starts_with p (c # cs) \<or> contains p cs)"

text \<open>\<open>s.partition(c)\<close> for a one-character separator, without the separator itself.\<close>

fun partition_at :: "char \<Rightarrow> string \<Rightarrow> string \<times> string" where
  "partition_at c [] = ([], [])"
| "partition_at c (x # xs) =
     (if x = c then ([], xs) else (case partition_at c xs of (h, r) \<Rightarrow> (x # h, r)))"

text \<open>\<open>sep.join(ss)\<close>.\<close>

fun join :: "string \<Rightarrow> string list \<Rightarrow> string" where
  "join sep [] = []"
| "join sep [s] = s"
| "join sep (s # ss) = s @ sep @ join sep ss"

section \<open>Decimal integers\<close>

definition is_digit :: "char \<Rightarrow> bool" where
  "is_digit c = (48 \<le> code c \<and> code c \<le> 57)"

definition digit_of :: "char \<Rightarrow> int" where
  "digit_of c = code c - 48"

fun digits_value :: "int \<Rightarrow> string \<Rightarrow> int" where
  "digits_value acc [] = acc"
| "digits_value acc (c # cs) = digits_value (10 * acc + digit_of c) cs"

function digits_of :: "int \<Rightarrow> string" where
  "digits_of n = (if n < 10 then [chr_of (48 + n)] else digits_of (n div 10) @ [chr_of (48 + n mod 10)])"
  by pat_completeness auto
termination
  by (relation "measure nat") auto

declare digits_of.simps [simp del]

text \<open>\<open>str(n)\<close>, also what an f-string writes for an int.\<close>

definition str_of_int :: "int \<Rightarrow> string" where
  "str_of_int n = (if n < 0 then CHR ''-'' # digits_of (- n) else digits_of n)"

text \<open>The digits \<open>int(s)\<close> reads: digits with single underscores between them.\<close>

fun int_digits :: "string \<Rightarrow> string option" where
  "int_digits [] = None"
| "int_digits [c] = (if is_digit c then Some [c] else None)"
| "int_digits (c # d # cs) =
     (if \<not> is_digit c then None
      else if d = CHR ''_'' then map_option ((#) c) (int_digits cs)
      else map_option ((#) c) (int_digits (d # cs)))"

text \<open>\<open>int(s)\<close>; None is the ValueError, which more than 4300 digits are too
  (\<open>sys.get_int_max_str_digits()\<close>).\<close>

definition INT_MAX_STR_DIGITS :: nat where
  "INT_MAX_STR_DIGITS = 4300"

definition read_digits :: "string \<Rightarrow> int option" where
  "read_digits s =
     (case int_digits s of
        None \<Rightarrow> None
      | Some ds \<Rightarrow> if length ds \<le> INT_MAX_STR_DIGITS then Some (digits_value 0 ds) else None)"

definition parse_int :: "string \<Rightarrow> int option" where
  "parse_int raw =
     (case strip raw of
        [] \<Rightarrow> None
      | c # cs \<Rightarrow>
          if c = CHR ''-'' then map_option uminus (read_digits cs)
          else if c = CHR ''+'' then read_digits cs
          else read_digits (c # cs))"

section \<open>Lemmas\<close>

lemma code_bounds [simp]: "0 \<le> code c" "code c < 256"
proof -
  have eq: "code c = int (of_char c)"
    by (simp add: code_def of_nat_of_char)
  show "0 \<le> code c" by (simp add: eq)
  have "int (of_char c) < int 256"
    by (subst of_nat_less_iff) (rule nat_of_char_less_256)
  then show "code c < 256" by (simp add: eq)
qed

lemma chr_of_code [simp]: "chr_of (code c) = c"
proof -
  have "code c = int (of_char c)" by (simp add: code_def of_nat_of_char)
  then show ?thesis by (simp add: chr_of_def)
qed

lemma code_chr_of [simp]: "0 \<le> n \<Longrightarrow> n < 256 \<Longrightarrow> code (chr_of n) = n"
  by (simp add: code_def chr_of_def)

lemma contains_append: "contains p (a @ p @ b)"
proof (induction a)
  case Nil
  have "starts_with p (p @ b)" by (induction p) auto
  then show ?case by (cases "p @ b") auto
next
  case (Cons x a)
  then show ?case by simp
qed

lemma starts_with_iff: "starts_with p s \<longleftrightarrow> (\<exists>b. s = p @ b)"
  by (induction p s rule: starts_with.induct) auto

lemma contains_iff: "contains p s \<longleftrightarrow> (\<exists>a b. s = a @ p @ b)"
proof
  show "contains p s \<Longrightarrow> \<exists>a b. s = a @ p @ b"
  proof (induction s)
    case Nil
    then show ?case by simp
  next
    case (Cons c cs)
    show ?case
    proof (cases "starts_with p (c # cs)")
      case True
      then show ?thesis by (metis append_Nil starts_with_iff)
    next
      case False
      with Cons obtain a b where "cs = a @ p @ b" by auto
      then show ?thesis by (metis append_Cons)
    qed
  qed
qed (auto simp: contains_append)

lemma partition_at_spec:
  "partition_at c s = (h, r) \<Longrightarrow>
     c \<notin> set h \<and> (if c \<in> set s then s = h @ c # r else h = s \<and> r = [])"
  by (induction s arbitrary: h r) (auto split: if_splits prod.splits)

lemma digits_value_snoc: "digits_value a (xs @ [c]) = 10 * digits_value a xs + digit_of c"
  by (induction xs arbitrary: a) auto

lemma digits_of_value: "0 \<le> n \<Longrightarrow> digits_value 0 (digits_of n) = n"
proof (induction n rule: digits_of.induct)
  case (1 n)
  then show ?case
    by (cases "n < 10")
       (simp_all add: digits_of.simps [of n] digits_value_snoc digit_of_def)
qed

lemma digits_of_digits: "0 \<le> n \<Longrightarrow> list_all is_digit (digits_of n)"
proof (induction n rule: digits_of.induct)
  case (1 n)
  then show ?case
    by (cases "n < 10") (simp_all add: digits_of.simps [of n] is_digit_def)
qed

lemma digits_of_nonempty [simp]: "digits_of n \<noteq> []"
  by (subst digits_of.simps) simp

lemma digit_not_space: "is_digit c \<Longrightarrow> \<not> is_space c"
  by (auto simp: is_digit_def is_space_def Let_def)

lemma digit_not_punct:
  "is_digit c \<Longrightarrow> c \<noteq> CHR ''-''" "is_digit c \<Longrightarrow> c \<noteq> CHR ''+''" "is_digit c \<Longrightarrow> c \<noteq> CHR ''_''"
  by (auto simp: is_digit_def code_def)

lemma int_digits_digits: "list_all is_digit ds \<Longrightarrow> ds \<noteq> [] \<Longrightarrow> int_digits ds = Some ds"
  by (induction ds rule: int_digits.induct) (auto simp: digit_not_punct)

lemma strip_no_space: "s \<noteq> [] \<Longrightarrow> \<not> is_space (hd s) \<Longrightarrow> \<not> is_space (last s) \<Longrightarrow> strip s = s"
proof -
  assume "s \<noteq> []" "\<not> is_space (hd s)" "\<not> is_space (last s)"
  then have "dropWhile is_space s = s" "dropWhile is_space (rev s) = rev s"
    by (auto simp: dropWhile_eq_self_iff hd_rev)
  then show ?thesis by (simp add: strip_def)
qed

lemma str_of_int_no_space:
  "str_of_int n \<noteq> [] \<and> \<not> is_space (hd (str_of_int n)) \<and> \<not> is_space (last (str_of_int n))"
proof -
  define m where "m = (if n < 0 then - n else n)"
  have ds: "list_all is_digit (digits_of m)" "digits_of m \<noteq> []"
    using digits_of_digits [of m] by (auto simp: m_def)
  then have "is_digit (last (digits_of m))" "is_digit (hd (digits_of m))"
    by (auto simp: list.pred_set)
  then have "\<not> is_space (last (digits_of m))" "\<not> is_space (hd (digits_of m))"
    by (simp_all add: digit_not_space)
  moreover have "\<not> is_space (CHR ''-'')" by (simp add: is_space_def code_def)
  ultimately show ?thesis
    using ds by (auto simp: str_of_int_def m_def split: if_splits)
qed

lemma str_of_int_nonempty [simp]: "str_of_int n \<noteq> []"
  using str_of_int_no_space by blast

lemma strip_str_of_int [simp]: "strip (str_of_int n) = str_of_int n"
  using str_of_int_no_space by (intro strip_no_space) auto

text \<open>Reading back what \<open>str\<close> wrote.\<close>

lemma parse_int_str_of_int:
  assumes "length (str_of_int n) \<le> INT_MAX_STR_DIGITS"
  shows "parse_int (str_of_int n) = Some n"
proof -
  define m where "m = (if n < 0 then - n else n)"
  have m: "0 \<le> m" by (simp add: m_def)
  have ds: "list_all is_digit (digits_of m)" "digits_of m \<noteq> []"
    using digits_of_digits [OF m] by auto
  then have d: "is_digit (hd (digits_of m))" by (auto simp: list.pred_set)
  obtain c cs where cs: "digits_of m = c # cs" using ds by (cases "digits_of m") auto
  have s: "str_of_int n = (if n < 0 then CHR ''-'' # digits_of m else digits_of m)"
    by (simp add: str_of_int_def m_def)
  show ?thesis
    using strip_str_of_int [of n] ds digits_of_value [OF m] int_digits_digits [OF ds]
      digit_not_punct(1,2) [OF d] cs assms
    by (auto simp: parse_int_def read_digits_def s m_def split: if_splits)
qed

lemma digits_of_inject: "0 \<le> a \<Longrightarrow> 0 \<le> b \<Longrightarrow> digits_of a = digits_of b \<Longrightarrow> a = b"
  using digits_of_value by metis

lemma digits_of_not_minus: "0 \<le> k \<Longrightarrow> digits_of k \<noteq> CHR ''-'' # cs"
  using digits_of_digits [of k] digit_not_punct(1) [of "CHR ''-''"] by auto

lemma str_of_int_inject: "str_of_int m = str_of_int n \<longleftrightarrow> m = n"
proof
  assume eq: "str_of_int m = str_of_int n"
  show "m = n"
  proof (cases "m < 0")
    case True
    with eq have "n < 0"
      using digits_of_not_minus [of n "digits_of (- m)"] by (cases "n < 0") (simp_all add: str_of_int_def)
    with True eq have "digits_of (- m) = digits_of (- n)" by (simp add: str_of_int_def)
    with True \<open>n < 0\<close> digits_of_inject [of "- m" "- n"] show ?thesis by simp
  next
    case False
    with eq have "\<not> n < 0"
      using digits_of_not_minus [of m "digits_of (- n)"] by (cases "n < 0") (simp_all add: str_of_int_def)
    with False eq have "digits_of m = digits_of n" by (simp add: str_of_int_def)
    with False \<open>\<not> n < 0\<close> digits_of_inject [of m n] show ?thesis by simp
  qed
qed simp

lemma strip_ends: "strip s \<noteq> [] \<Longrightarrow> \<not> is_space (hd (strip s)) \<and> \<not> is_space (last (strip s))"
proof -
  let ?l = "dropWhile is_space s" and ?r = "dropWhile is_space (rev (dropWhile is_space s))"
  assume "strip s \<noteq> []"
  then have r: "?r \<noteq> []" by (simp add: strip_def)
  have l: "?l \<noteq> []"
  proof
    assume "?l = []"
    then have "?r = []" by (simp only: rev.simps dropWhile.simps)
    with r show False by contradiction
  qed
  have "last (strip s) = hd ?r" using r by (simp add: strip_def last_rev)
  moreover have "hd (strip s) = hd ?l"
  proof -
    have "?l = strip s @ rev (takeWhile is_space (rev ?l))"
      by (simp add: strip_def flip: rev_append)
    then show ?thesis using \<open>strip s \<noteq> []\<close> by (metis hd_append2)
  qed
  ultimately show ?thesis
    using hd_dropWhile [OF r] hd_dropWhile [OF l] by simp
qed

lemma strip_idem [simp]: "strip (strip s) = strip s"
proof (cases "strip s = []")
  case True
  show ?thesis unfolding True by (simp add: strip_def)
next
  case False
  with strip_ends [OF False] show ?thesis by (intro strip_no_space) auto
qed

lemma lower_append: "lower (a @ b) = lower a @ lower b" and lower_take: "lower (take n s) = take n (lower s)"
  by (simp_all add: lower_def take_map)

end
