(* ===== verification/Json.thy ===== *)
theory Json
  imports Pystring
begin

text \<open>
  The values \<open>json.loads\<close> produces, Python's truth value of each, and the decoder
  itself (the default, strict one), which the report parser and the version probe run
  on Trivy's output. A float is kept as its decimal mantissa and exponent, which is all
  the program needs of it (its truth value).
\<close>

section \<open>Values\<close>

datatype json =
    JNull
  | JBool bool
  | JInt int
  | JFloat int int
  | JNonFinite string
  | JStr string
  | JList "json list"
  | JObj "(string \<times> json) list"

text \<open>\<open>bool(v)\<close>. A float is falsy when it is zero, which includes a decimal that
  rounds to zero (at most half the smallest subnormal, 2 to the -1074).\<close>

fun truthy :: "json \<Rightarrow> bool" where
  "truthy JNull = False"
| "truthy (JBool b) = b"
| "truthy (JInt n) = (n \<noteq> 0)"
| "truthy (JFloat m e) =
     (if 0 \<le> e then m \<noteq> 0 else 10 ^ nat (- e) < \<bar>m\<bar> * 2 ^ 1075)"
| "truthy (JNonFinite _) = True"
| "truthy (JStr s) = (s \<noteq> [])"
| "truthy (JList xs) = (xs \<noteq> [])"
| "truthy (JObj kvs) = (kvs \<noteq> [])"

text \<open>\<open>d.get(k)\<close> on a dict: None (here \<open>JNull\<close>) when the key is absent.\<close>

definition jget :: "string \<Rightarrow> (string \<times> json) list \<Rightarrow> json" where
  "jget k kvs = (case map_of kvs k of None \<Rightarrow> JNull | Some v \<Rightarrow> v)"

text \<open>A dict assignment \<open>d[k] = v\<close>: an existing key keeps its position.\<close>

fun dict_set :: "'k \<Rightarrow> 'v \<Rightarrow> ('k \<times> 'v) list \<Rightarrow> ('k \<times> 'v) list" where
  "dict_set k v [] = [(k, v)]"
| "dict_set k v ((k', v') # kvs) = (if k = k' then (k, v) # kvs else (k', v') # dict_set k v kvs)"

lemma map_of_dict_set [simp]: "map_of (dict_set k v kvs) = (map_of kvs)(k \<mapsto> v)"
  by (induction kvs) auto

lemma set_keys_dict_set: "fst ` set (dict_set k v kvs) = insert k (fst ` set kvs)"
proof (induction kvs)
  case (Cons kv kvs)
  then show ?case by (cases kv) (simp add: insert_commute)
qed simp

lemma distinct_dict_set: "distinct (map fst kvs) \<Longrightarrow> distinct (map fst (dict_set k v kvs))"
proof (induction kvs)
  case Nil
  then show ?case by simp
next
  case (Cons kv kvs)
  have "fst kv \<noteq> k \<Longrightarrow> fst kv \<notin> fst ` set (dict_set k v kvs)"
    unfolding set_keys_dict_set using Cons.prems by simp
  with Cons show ?case by (cases kv) auto
qed

lemma dict_set_values: "snd ` set (dict_set k v kvs) \<subseteq> insert v (snd ` set kvs)"
proof (induction kvs)
  case (Cons kv kvs)
  then show ?case by (cases kv) auto
qed simp

definition dict_of :: "('k \<times> 'v) list \<Rightarrow> ('k \<times> 'v) list" where
  "dict_of pairs = foldl (\<lambda>d (k, v). dict_set k v d) [] pairs"

section \<open>The decoder\<close>

definition is_ws :: "char \<Rightarrow> bool" where
  "is_ws c = (code c = 32 \<or> code c = 9 \<or> code c = 10 \<or> code c = 13)"

definition skip_ws :: "string \<Rightarrow> string" where
  "skip_ws s = dropWhile is_ws s"

definition hex_value :: "char \<Rightarrow> int option" where
  "hex_value c = (let n = code c in
     if 48 \<le> n \<and> n \<le> 57 then Some (n - 48)
     else if 65 \<le> n \<and> n \<le> 70 then Some (n - 55)
     else if 97 \<le> n \<and> n \<le> 102 then Some (n - 87)
     else None)"

fun hex4 :: "string \<Rightarrow> (int \<times> string) option" where
  "hex4 (a # b # c # d # r) =
     (case (hex_value a, hex_value b, hex_value c, hex_value d) of
        (Some w, Some x, Some y, Some z) \<Rightarrow> Some (4096 * w + 256 * x + 16 * y + z, r)
      | _ \<Rightarrow> None)"
| "hex4 _ = None"

lemma hex4_length: "hex4 s = Some (n, r) \<Longrightarrow> length r < length s"
  by (induction s rule: hex4.induct) (auto split: option.splits)

text \<open>After a backslash: the code point an escape denotes and the rest. A high surrogate
  followed by an escaped low one is a single code point.\<close>

definition escape :: "string \<Rightarrow> (int \<times> string) option" where
  "escape s =
     (case s of
        [] \<Rightarrow> None
      | e # r \<Rightarrow>
          if e = CHR 0x22 \<or> e = CHR 0x5C \<or> e = CHR ''/'' then Some (code e, r)
          else if e = CHR ''b'' then Some (8, r)
          else if e = CHR ''f'' then Some (12, r)
          else if e = CHR ''n'' then Some (10, r)
          else if e = CHR ''r'' then Some (13, r)
          else if e = CHR ''t'' then Some (9, r)
          else if e = CHR ''u'' then
            (case hex4 r of
               None \<Rightarrow> None
             | Some (n, r') \<Rightarrow>
                 if 0xD800 \<le> n \<and> n \<le> 0xDBFF \<and> starts_with [CHR 0x5C, CHR ''u''] r' then
                   (case hex4 (drop 2 r') of
                      None \<Rightarrow> None
                    | Some (n2, r2) \<Rightarrow>
                        if 0xDC00 \<le> n2 \<and> n2 \<le> 0xDFFF
                        then Some (0x10000 + (n - 0xD800) * 1024 + (n2 - 0xDC00), r2)
                        else Some (n, r'))
                 else Some (n, r'))
          else None)"

lemma escape_length: "escape s = Some (n, r) \<Longrightarrow> length r < length s"
  by (auto simp: escape_def starts_with_iff split: list.splits if_splits option.splits
      dest!: hex4_length)

text \<open>A string after its opening quote: the contents and what follows the closing quote.
  Control characters are refused (\<open>strict=True\<close>).\<close>

function scan_string :: "string \<Rightarrow> (string \<times> string) option" where
  "scan_string [] = None"
| "scan_string (c # cs) =
     (if c = CHR 0x22 then Some ([], cs)
      else if c = CHR 0x5C then
        (case escape cs of
           None \<Rightarrow> None
         | Some (n, r) \<Rightarrow>
             (case scan_string r of None \<Rightarrow> None | Some (t, r') \<Rightarrow> Some (chr_of n # t, r')))
      else if code c < 32 then None
      else (case scan_string cs of None \<Rightarrow> None | Some (t, r') \<Rightarrow> Some (c # t, r')))"
  by pat_completeness auto
termination
  by (relation "measure length") (auto dest: escape_length)

lemma scan_string_length: "scan_string s = Some (t, r) \<Longrightarrow> length r < length s"
proof (induction s arbitrary: t r rule: scan_string.induct)
  case 1
  then show ?case by simp
next
  case (2 c cs)
  show ?case
  proof (cases "c = CHR 0x5C")
    case True
    with "2.prems" obtain n r0 t0 where e: "escape cs = Some (n, r0)"
      and "scan_string r0 = Some (t0, r)"
      by (auto split: option.splits)
    with "2.IH"(1) True have "length r < length r0" by auto
    with escape_length [OF e] show ?thesis by simp
  next
    case False
    with "2.prems" "2.IH"(2) show ?thesis
      by (fastforce split: if_splits option.splits)
  qed
qed

text \<open>A number: \<open>-?(0|[1-9][0-9]*)(\.[0-9]+)?([eE][-+]?[0-9]+)?\<close>.\<close>

definition span_digits :: "string \<Rightarrow> string \<times> string" where
  "span_digits s = (takeWhile is_digit s, dropWhile is_digit s)"

definition scan_exponent :: "string \<Rightarrow> (int \<times> string) option" where
  "scan_exponent s =
     (case s of
        [] \<Rightarrow> None
      | e # r \<Rightarrow>
          if e = CHR ''e'' \<or> e = CHR ''E'' then
            (case r of
               [] \<Rightarrow> None
             | c # r' \<Rightarrow>
                 (let body = (if c = CHR ''+'' \<or> c = CHR ''-'' then r' else r);
                      sgn = (if c = CHR ''-'' then -1 else 1);
                      (ds, rest) = span_digits body
                  in if ds = [] then None else Some (sgn * digits_value 0 ds, rest)))
          else None)"

definition scan_fraction :: "string \<Rightarrow> (string \<times> string) option" where
  "scan_fraction s =
     (case s of
        [] \<Rightarrow> None
      | c # r \<Rightarrow>
          if c = CHR ''.'' then
            (let (ds, rest) = span_digits r in if ds = [] then None else Some (ds, rest))
          else None)"

definition scan_number :: "string \<Rightarrow> (json \<times> string) option" where
  "scan_number s =
     (let neg = starts_with ''-'' s;
          body = (if neg then drop 1 s else s);
          sg = (if neg then -1 else 1);
          (run, after_run) = span_digits body;
          (ip, rest) = (if starts_with ''0'' run then (take 1 run, drop 1 run @ after_run)
                        else (run, after_run))
      in if ip = [] then None
         else (case scan_fraction rest of
                 None \<Rightarrow>
                   (case scan_exponent rest of
                      None \<Rightarrow> Some (JInt (sg * digits_value 0 ip), rest)
                    | Some (e, r) \<Rightarrow> Some (JFloat (sg * digits_value 0 ip) e, r))
               | Some (fr, r) \<Rightarrow>
                   (let m = sg * digits_value 0 (ip @ fr); k = int (length fr)
                    in (case scan_exponent r of
                          None \<Rightarrow> Some (JFloat m (- k), r)
                        | Some (e, r') \<Rightarrow> Some (JFloat m (e - k), r')))))"

definition scan_atom :: "string \<Rightarrow> (json \<times> string) option" where
  "scan_atom s =
     (if starts_with ''null'' s then Some (JNull, drop 4 s)
      else if starts_with ''true'' s then Some (JBool True, drop 4 s)
      else if starts_with ''false'' s then Some (JBool False, drop 5 s)
      else case scan_number s of
        Some r \<Rightarrow> Some r
      | None \<Rightarrow>
          if starts_with ''NaN'' s then Some (JNonFinite ''nan'', drop 3 s)
          else if starts_with ''Infinity'' s then Some (JNonFinite ''inf'', drop 8 s)
          else if starts_with ''-Infinity'' s then Some (JNonFinite ''-inf'', drop 9 s)
          else None)"

text \<open>Values, the elements of a list and the members of an object. Every nested call is
  made after at least one character has been consumed, so fuel of twice the
  length of the input and one is never exhausted (\<open>scan_value_fuel\<close> below).\<close>

fun scan_value :: "nat \<Rightarrow> string \<Rightarrow> (json \<times> string) option"
  and scan_elements :: "nat \<Rightarrow> string \<Rightarrow> (json list \<times> string) option"
  and scan_members :: "nat \<Rightarrow> string \<Rightarrow> ((string \<times> json) list \<times> string) option" where
  "scan_value 0 s = None"
| "scan_value (Suc n) s =
     (case s of
        [] \<Rightarrow> None
      | c # cs \<Rightarrow>
          if c = CHR 0x22 then
            (case scan_string cs of None \<Rightarrow> None | Some (t, r) \<Rightarrow> Some (JStr t, r))
          else if c = CHR ''{'' then
            (let s' = skip_ws cs in
               if starts_with ''}'' s' then Some (JObj [], drop 1 s')
               else (case scan_members n s' of
                       None \<Rightarrow> None
                     | Some (kvs, r) \<Rightarrow> Some (JObj (dict_of kvs), r)))
          else if c = CHR ''['' then
            (let s' = skip_ws cs in
               if starts_with '']'' s' then Some (JList [], drop 1 s')
               else (case scan_elements n s' of
                       None \<Rightarrow> None
                     | Some (xs, r) \<Rightarrow> Some (JList xs, r)))
          else scan_atom s)"
| "scan_elements 0 s = None"
| "scan_elements (Suc n) s =
     (case scan_value n s of
        None \<Rightarrow> None
      | Some (v, r) \<Rightarrow>
          (case skip_ws r of
             [] \<Rightarrow> None
           | d # r' \<Rightarrow>
               if d = CHR '']'' then Some ([v], r')
               else if d = CHR '','' then
                 (case scan_elements n (skip_ws r') of
                    None \<Rightarrow> None
                  | Some (vs, r2) \<Rightarrow> Some (v # vs, r2))
               else None))"
| "scan_members 0 s = None"
| "scan_members (Suc n) s =
     (case s of
        [] \<Rightarrow> None
      | q # cs \<Rightarrow>
          if q \<noteq> CHR 0x22 then None
          else (case scan_string cs of
                  None \<Rightarrow> None
                | Some (k, r) \<Rightarrow>
                    (case skip_ws r of
                       [] \<Rightarrow> None
                     | d # r1 \<Rightarrow>
                         if d \<noteq> CHR '':'' then None
                         else (case scan_value n (skip_ws r1) of
                                 None \<Rightarrow> None
                               | Some (v, r2) \<Rightarrow>
                                   (case skip_ws r2 of
                                      [] \<Rightarrow> None
                                    | d2 # r3 \<Rightarrow>
                                        if d2 = CHR ''}'' then Some ([(k, v)], r3)
                                        else if d2 = CHR '','' then
                                          (case scan_members n (skip_ws r3) of
                                             None \<Rightarrow> None
                                           | Some (kvs, r4) \<Rightarrow> Some ((k, v) # kvs, r4))
                                        else None)))))"

text \<open>\<open>json.loads(s)\<close>; None is the JSONDecodeError.\<close>

definition json_loads :: "string \<Rightarrow> json option" where
  "json_loads s =
     (case scan_value (2 * length s + 2) (skip_ws s) of
        None \<Rightarrow> None
      | Some (v, r) \<Rightarrow> if skip_ws r = [] then Some v else None)"

section \<open>The fuel is enough\<close>

lemma skip_ws_length: "length (skip_ws s) \<le> length s"
  unfolding skip_ws_def by (rule length_dropWhile_le)

lemma skip_ws_Cons_length: "skip_ws s = c # r \<Longrightarrow> length r < length s"
  using skip_ws_length [of s] by simp

lemma scan_exponent_length: "scan_exponent s = Some (e, r) \<Longrightarrow> length r \<le> length s"
  using length_dropWhile_le
  by (auto simp: scan_exponent_def span_digits_def Let_def split: list.splits if_splits
      intro: le_SucI order_trans [OF length_dropWhile_le])

lemma scan_fraction_length: "scan_fraction s = Some (d, r) \<Longrightarrow> length r \<le> length s"
  by (auto simp: scan_fraction_def span_digits_def Let_def split: list.splits if_splits
      intro: le_SucI length_dropWhile_le)

lemma scan_number_length:
  assumes "scan_number s = Some (v, r)"
  shows "length r < length s"
proof -
  define body where "body = (if starts_with ''-'' s then drop 1 s else s)"
  define run where "run = takeWhile is_digit body"
  define after where "after = dropWhile is_digit body"
  define ip where "ip = (if starts_with ''0'' run then take 1 run else run)"
  define rest where "rest = (if starts_with ''0'' run then drop 1 run @ after else after)"
  have body: "length body \<le> length s" by (simp add: body_def)
  have "body = ip @ rest"
    by (auto simp: ip_def rest_def run_def after_def simp flip: append_assoc)
  moreover have "ip \<noteq> [] \<and> length r \<le> length rest"
    using assms
    by (auto simp: scan_number_def Let_def span_digits_def body_def [symmetric] run_def [symmetric]
        after_def [symmetric] ip_def rest_def split: if_splits option.splits
        dest!: scan_fraction_length scan_exponent_length)
  ultimately have "length r < length body" by (cases ip) auto
  with body show ?thesis by simp
qed

lemma scan_atom_length: "scan_atom s = Some (v, r) \<Longrightarrow> length r < length s"
  by (auto simp: scan_atom_def starts_with_iff split: if_splits option.splits dest: scan_number_length)

text \<open>What a successful call went through.\<close>

lemma scan_elements_SomeE:
  assumes "scan_elements (Suc n) s = Some (vs, r)"
  obtains v q where "scan_value n s = Some (v, q)" "skip_ws q = CHR '']'' # r" "vs = [v]"
  | v q r1 ws where "scan_value n s = Some (v, q)" "skip_ws q = CHR '','' # r1"
      "scan_elements n (skip_ws r1) = Some (ws, r)" "vs = v # ws"
  using assms by (auto split: option.splits list.splits if_splits)

lemma scan_members_SomeE:
  assumes "scan_members (Suc n) s = Some (kvs, r)"
  obtains cs k q r1 v r2 where "s = CHR 0x22 # cs" "scan_string cs = Some (k, q)" "skip_ws q = CHR '':'' # r1"
      "scan_value n (skip_ws r1) = Some (v, r2)" "skip_ws r2 = CHR ''}'' # r" "kvs = [(k, v)]"
  | cs k q r1 v r2 r3 ws where "s = CHR 0x22 # cs" "scan_string cs = Some (k, q)" "skip_ws q = CHR '':'' # r1"
      "scan_value n (skip_ws r1) = Some (v, r2)" "skip_ws r2 = CHR '','' # r3"
      "scan_members n (skip_ws r3) = Some (ws, r)" "kvs = (k, v) # ws"
  using assms by (auto split: option.splits list.splits if_splits)

lemma scan_length:
  "scan_value n s = Some (v, r) \<Longrightarrow> length r < length s"
  "scan_elements n s = Some (vs, r) \<Longrightarrow> length r < length s"
  "scan_members n s = Some (kvs, r) \<Longrightarrow> length r < length s"
proof (induction n s and n s and n s arbitrary: v r and vs r and kvs r
    rule: scan_value_scan_elements_scan_members.induct)
  case (2 n s)
  obtain c cs where s: "s = c # cs" using "2.prems" by (cases s) auto
  note len = skip_ws_length [of cs]
  show ?case
    using "2.prems" len scan_string_length [of cs] scan_atom_length [of s] "2.IH" [OF s]
    by (auto simp: s Let_def starts_with_iff split: if_splits option.splits)
      (fastforce dest: order_less_le_trans)+
next
  case (4 n s)
  from "4.prems" show ?case
  proof (cases rule: scan_elements_SomeE)
    case (1 v q)
    with "4.IH"(1) [of v q] skip_ws_Cons_length [of q] show ?thesis by fastforce
  next
    case (2 v q r1 ws)
    have "length r < length (skip_ws r1)"
      using "4.IH"(2) [OF 2(1) refl 2(2) _ refl 2(3)] by simp
    with 2 "4.IH"(1) [of v q] skip_ws_Cons_length [of q] skip_ws_length [of r1] show ?thesis by fastforce
  qed
next
  case (6 n s)
  from "6.prems" show ?case
  proof (cases rule: scan_members_SomeE)
    case (1 cs k q r1 v r2)
    then show ?thesis
      using scan_string_length [of cs k q] skip_ws_Cons_length [of q] skip_ws_length [of r1]
        skip_ws_Cons_length [of r2]  "6.IH"(1) [OF 1(1) _ 1(2) refl 1(3) _ 1(4)]
      by simp
  next
    case (2 cs k q r1 v r2 r3 ws)
    then show ?thesis
      using scan_string_length [of cs k q] skip_ws_Cons_length [of q] skip_ws_length [of r1]
        skip_ws_Cons_length [of r2]  skip_ws_length [of r3] "6.IH"(1) [OF 2(1) _ 2(2) refl 2(3) _ 2(4)]
        "6.IH"(2) [OF 2(1) _ 2(2) refl 2(3) _ 2(4) refl 2(5) _ refl 2(6)]
      by simp
  qed
qed simp_all

lemma scan_fuel:
  "(\<forall>n m. 2 * length s + 1 \<le> n \<longrightarrow> 2 * length s + 1 \<le> m \<longrightarrow> scan_value n s = scan_value m s) \<and>
   (\<forall>n m. 2 * length s + 2 \<le> n \<longrightarrow> 2 * length s + 2 \<le> m \<longrightarrow>
      scan_elements n s = scan_elements m s \<and> scan_members n s = scan_members m s)"
proof (induction "length s" arbitrary: s rule: less_induct)
  case less
  have ih: "scan_value n t = scan_value m t"
    if "length t < length s" "2 * length t + 1 \<le> n" "2 * length t + 1 \<le> m" for t n m
    using less.hyps [OF that(1)] that(2,3) by blast
  have ih2: "scan_elements n t = scan_elements m t" "scan_members n t = scan_members m t"
    if "length t < length s" "2 * length t + 2 \<le> n" "2 * length t + 2 \<le> m" for t n m
    using less.hyps [OF that(1)] that(2,3) by blast+
  have v: "scan_value n s = scan_value m s" if "2 * length s + 1 \<le> n" "2 * length s + 1 \<le> m" for n m
  proof (cases s)
    case Nil
    with that show ?thesis by (cases n; cases m) simp_all
  next
    case (Cons c cs)
    have "0 < n" "0 < m" using that by simp_all
    then obtain n' m' where nm: "n = Suc n'" "m = Suc m'" by (auto simp: gr0_conv_Suc)
    have "scan_elements n' (skip_ws cs) = scan_elements m' (skip_ws cs)"
      "scan_members n' (skip_ws cs) = scan_members m' (skip_ws cs)"
      using that ih2 [of "skip_ws cs" n' m'] skip_ws_length [of cs]
      by (simp_all add: nm Cons)
    then show ?thesis by (simp add: nm Cons Let_def)
  qed
  have e: "scan_elements n s = scan_elements m s" if "2 * length s + 2 \<le> n" "2 * length s + 2 \<le> m" for n m
  proof -
    have "0 < n" "0 < m" using that by simp_all
    then obtain n' m' where nm: "n = Suc n'" "m = Suc m'" by (auto simp: gr0_conv_Suc)
    have eq: "scan_value n' s = scan_value m' s" using that by (intro v) (simp_all add: nm)
    have el: "scan_elements n' (skip_ws r') = scan_elements m' (skip_ws r')"
      if "scan_value m' s = Some (x, r)" "skip_ws r = d # r'" for x r d r'
      using that \<open>2 * length s + 2 \<le> n\<close> \<open>2 * length s + 2 \<le> m\<close> ih2 [of "skip_ws r'" n' m']
        scan_length(1) [of m' s x r] skip_ws_Cons_length [of r d r'] skip_ws_length [of r']
      by (simp add: nm)
    show ?thesis by (auto simp: nm eq el split: option.split list.split)
  qed
  have m: "scan_members n s = scan_members m s" if "2 * length s + 2 \<le> n" "2 * length s + 2 \<le> m" for n m
  proof -
    have "0 < n" "0 < m" using that by simp_all
    then obtain n' m' where nm: "n = Suc n'" "m = Suc m'" by (auto simp: gr0_conv_Suc)
    have va: "scan_value n' (skip_ws r1) = scan_value m' (skip_ws r1)"
      if "s = q # cs" "scan_string cs = Some (k, r)" "skip_ws r = d # r1" for q cs k r d r1
      using that \<open>2 * length s + 2 \<le> n\<close> \<open>2 * length s + 2 \<le> m\<close> ih [of "skip_ws r1" n' m']
        scan_string_length [of cs k r] skip_ws_Cons_length [of r d r1] skip_ws_length [of r1]
      by (simp add: nm)
    have me: "scan_members n' (skip_ws r3) = scan_members m' (skip_ws r3)"
      if "s = q # cs" "scan_string cs = Some (k, r)" "skip_ws r = d # r1"
        "scan_value m' (skip_ws r1) = Some (x, r2)" "skip_ws r2 = d2 # r3" for q cs k r d r1 x r2 d2 r3
      using that \<open>2 * length s + 2 \<le> n\<close> \<open>2 * length s + 2 \<le> m\<close> ih2 [of "skip_ws r3" n' m']
        scan_string_length [of cs k r] skip_ws_Cons_length [of r d r1] skip_ws_length [of r1]
        scan_length(1) [of m' "skip_ws r1" x r2] skip_ws_Cons_length [of r2 d2 r3] skip_ws_length [of r3]
      by (simp add: nm)
    show ?thesis by (auto simp: nm va me split: option.split list.split)
  qed
  show ?case using v e m by blast
qed

text \<open>The fuel of \<open>json_loads\<close> gives what any larger fuel gives.\<close>

lemma scan_value_fuel:
  "2 * length s + 1 \<le> n \<Longrightarrow> json_loads s =
     (case scan_value n (skip_ws s) of None \<Rightarrow> None | Some (v, r) \<Rightarrow> if skip_ws r = [] then Some v else None)"
  using scan_fuel [of "skip_ws s", THEN conjunct1, rule_format, of "2 * length s + 2" n] skip_ws_length [of s]
  by (simp add: json_loads_def)

section \<open>The encoder on a list of strings\<close>

text \<open>\<open>json.dumps\<close> of a list of strings, with its default ASCII escapes.\<close>

definition hex_digit :: "int \<Rightarrow> char" where
  "hex_digit n = (if n < 10 then chr_of (48 + n) else chr_of (87 + n))"

definition dump_char :: "char \<Rightarrow> string" where
  "dump_char c =
     (if c = CHR 0x22 then [CHR 0x5C, CHR 0x22]
      else if c = CHR 0x5C then [CHR 0x5C, CHR 0x5C]
      else if code c = 8 then [CHR 0x5C, CHR ''b'']
      else if code c = 9 then [CHR 0x5C, CHR ''t'']
      else if code c = 10 then [CHR 0x5C, CHR ''n'']
      else if code c = 12 then [CHR 0x5C, CHR ''f'']
      else if code c = 13 then [CHR 0x5C, CHR ''r'']
      else if 32 \<le> code c \<and> code c \<le> 126 then [c]
      else [CHR 0x5C, CHR ''u'', CHR ''0'', CHR ''0'', hex_digit (code c div 16), hex_digit (code c mod 16)])"

definition dump_string :: "string \<Rightarrow> string" where
  "dump_string s = CHR 0x22 # concat (map dump_char s) @ [CHR 0x22]"

definition json_dumps :: "string list \<Rightarrow> string" where
  "json_dumps xs = CHR ''['' # join '', '' (map dump_string xs) @ '']''"

lemma hex_value_digit: "0 \<le> n \<Longrightarrow> n < 16 \<Longrightarrow> hex_value (hex_digit n) = Some n"
  by (simp add: hex_digit_def hex_value_def)

lemma escape_u00:
  assumes "0 \<le> a" "a < 16" "0 \<le> b" "b < 16"
  shows "escape (CHR ''u'' # CHR ''0'' # CHR ''0'' # hex_digit a # hex_digit b # t) = Some (16 * a + b, t)"
proof -
  have z: "hex_value (CHR ''0'') = Some 0" by (simp add: hex_value_def code_def)
  show ?thesis
    using assms by (simp add: escape_def hex_value_digit z)
qed

lemma scan_string_dump_char:
  "scan_string (dump_char c @ t) = (case scan_string t of None \<Rightarrow> None | Some (u, r) \<Rightarrow> Some (c # u, r))"
proof -
  have c: "chr_of n = c" if "code c = n" for n using that by auto
  have esc: "scan_string (CHR 0x5C # e # t) = (case scan_string t of None \<Rightarrow> None | Some (u, r) \<Rightarrow> Some (c # u, r))"
    if "escape (e # t) = Some (n, t)" "code c = n" for e n
    using that c [of n] by (simp split: option.split)
  have codes: "code (CHR 0x22) = 34" "code (CHR 0x5C) = 92" by (simp_all add: code_def)
  have e: "escape (CHR 0x22 # t) = Some (34, t)" "escape (CHR 0x5C # t) = Some (92, t)"
    "escape (CHR ''b'' # t) = Some (8, t)" "escape (CHR ''t'' # t) = Some (9, t)"
    "escape (CHR ''n'' # t) = Some (10, t)" "escape (CHR ''f'' # t) = Some (12, t)"
    "escape (CHR ''r'' # t) = Some (13, t)"
    by (simp_all add: escape_def codes)
  have plain: "scan_string (c # t) = (case scan_string t of None \<Rightarrow> None | Some (u, r) \<Rightarrow> Some (c # u, r))"
    if "c \<noteq> CHR 0x22" "c \<noteq> CHR 0x5C" "32 \<le> code c"
    using that by simp
  have "scan_string ([CHR 0x5C, CHR ''u'', CHR ''0'', CHR ''0'', hex_digit (code c div 16), hex_digit (code c mod 16)] @ t)
      = (case scan_string t of None \<Rightarrow> None | Some (u, r) \<Rightarrow> Some (c # u, r))"
  proof -
    have "0 \<le> code c div 16" "code c div 16 < 16"
      using code_bounds [of c] by (simp_all only: pos_imp_zdiv_nonneg_iff)
    then have "escape (CHR ''u'' # CHR ''0'' # CHR ''0'' # hex_digit (code c div 16) # hex_digit (code c mod 16) # t)
        = Some (code c, t)"
      using escape_u00 [of "code c div 16" "code c mod 16" t] by simp
    then show ?thesis by (simp split: option.split)
  qed
  then show ?thesis
    using esc [OF e(1)] esc [OF e(2)] esc [OF e(3)] esc [OF e(4)] esc [OF e(5)] esc [OF e(6)] esc [OF e(7)] plain
    by (simp add: dump_char_def codes del: scan_string.simps split: if_split)
qed

lemma scan_string_dump: "scan_string (concat (map dump_char s) @ CHR 0x22 # r) = Some (s, r)"
  by (induction s) (simp_all add: scan_string_dump_char)

lemma scan_value_dump: "scan_value (Suc n) (dump_string s @ r) = Some (JStr s, r)"
  by (simp add: dump_string_def scan_string_dump)

lemma dump_string_Cons: "\<exists>t. dump_string s = CHR 0x22 # t"
  by (simp add: dump_string_def)

lemma skip_ws_dump: "skip_ws (dump_string s @ r) = dump_string s @ r" "skip_ws (CHR '' '' # t) = skip_ws t"
  "skip_ws (CHR '']'' # t) = CHR '']'' # t" "skip_ws (CHR '','' # t) = CHR '','' # t"
  by (simp_all add: skip_ws_def dump_string_def is_ws_def code_def)

lemma scan_elements_dump:
  "xs \<noteq> [] \<Longrightarrow> length xs + 1 \<le> n \<Longrightarrow>
   scan_elements n (join '', '' (map dump_string xs) @ CHR '']'' # r) = Some (map JStr xs, r)"
proof (induction xs arbitrary: n)
  case (Cons x xs)
  obtain m where n: "n = Suc (Suc m)" using Cons.prems by (cases n; cases "n - 1") auto
  show ?case
  proof (cases xs)
    case Nil
    then show ?thesis by (simp add: n scan_value_dump skip_ws_dump del: scan_value.simps)
  next
    case (Cons y ys)
    let ?rest = "join '', '' (map dump_string xs) @ CHR '']'' # r"
    have ws: "skip_ws (CHR '' '' # ?rest) = ?rest"
      by (cases ys) (simp_all add: Cons skip_ws_dump)
    have "scan_elements (Suc m) ?rest = Some (map JStr xs, r)"
      using Cons.IH [of "Suc m"] Cons Cons.prems n by simp
    with ws show ?thesis
      by (simp add: n Cons scan_value_dump skip_ws_dump del: scan_value.simps)
  qed
qed simp

text \<open>The encoding of a list of strings is read back as that list.\<close>

lemma json_loads_dumps: "json_loads (json_dumps xs) = Some (JList (map JStr xs))"
proof -
  let ?s = "json_dumps xs"
  have ws: "skip_ws ?s = ?s" by (simp add: json_dumps_def skip_ws_def is_ws_def code_def)
  let ?n = "2 * length ?s + 1 + length xs"
  have "scan_value (Suc ?n) ?s = Some (JList (map JStr xs), [])"
  proof (cases xs)
    case Nil
    then show ?thesis by (simp only: scan_value.simps(2)) (simp add: json_dumps_def skip_ws_dump)
  next
    case (Cons y ys)
    let ?b = "join '', '' (map dump_string xs) @ '']''"
    have "skip_ws ?b = ?b" "\<not> starts_with '']'' ?b"
      by (cases ys; simp add: Cons dump_string_def skip_ws_def is_ws_def code_def)+
    then show ?thesis
      using scan_elements_dump [of xs ?n "[]"] Cons
      by (simp add: json_dumps_def del: scan_elements.simps)
  qed
  moreover have "json_loads ?s = (case scan_value (Suc ?n) ?s of None \<Rightarrow> None
      | Some (v, r) \<Rightarrow> if skip_ws r = [] then Some v else None)"
    using scan_value_fuel [of ?s "Suc ?n"] unfolding ws by simp
  ultimately show ?thesis
    by (simp add: skip_ws_def del: scan_value.simps)
qed

lemma json_dumps_inject: "json_dumps xs = json_dumps ys \<longleftrightarrow> xs = ys"
proof
  assume "json_dumps xs = json_dumps ys"
  then have "map JStr xs = map JStr ys"
    using json_loads_dumps [of xs] json_loads_dumps [of ys] by simp
  then show "xs = ys" by (simp add: inj_map_eq_map inj_def)
qed simp

end
