(* ===== verification/Severity.thy ===== *)
theory Severity
  imports Json
begin

text \<open>
  The severity vocabulary (src/app/domain/severity.py): the enum with its string values,
  the rank used for every rollup, the tolerant reader of Trivy's severity strings, and
  the maximum. Severities are a linear order by rank, so the library's \<open>Max\<close> is the
  specification of \<open>max_severity\<close>.
\<close>

datatype severity = UNKNOWN | LOW | MEDIUM | HIGH | CRITICAL

text \<open>\<open>s.value\<close> and \<open>Severity(v)\<close>; None is the ValueError.\<close>

fun severity_value :: "severity \<Rightarrow> string" where
  "severity_value UNKNOWN = ''UNKNOWN''"
| "severity_value LOW = ''LOW''"
| "severity_value MEDIUM = ''MEDIUM''"
| "severity_value HIGH = ''HIGH''"
| "severity_value CRITICAL = ''CRITICAL''"

definition all_severities :: "severity list" where
  "all_severities = [UNKNOWN, LOW, MEDIUM, HIGH, CRITICAL]"

definition severity_of :: "string \<Rightarrow> severity option" where
  "severity_of v = find (\<lambda>s. severity_value s = v) all_severities"

fun SEVERITY_RANK :: "severity \<Rightarrow> int" where
  "SEVERITY_RANK UNKNOWN = 0"
| "SEVERITY_RANK LOW = 1"
| "SEVERITY_RANK MEDIUM = 2"
| "SEVERITY_RANK HIGH = 3"
| "SEVERITY_RANK CRITICAL = 4"

definition RANK_TO_SEVERITY :: "int \<Rightarrow> severity option" where
  "RANK_TO_SEVERITY = map_of (map (\<lambda>s. (SEVERITY_RANK s, s)) all_severities)"

definition FILTERABLE :: "severity list" where
  "FILTERABLE = [CRITICAL, HIGH, MEDIUM, LOW]"

definition rank :: "severity \<Rightarrow> int" where
  "rank s = SEVERITY_RANK s"

text \<open>\<open>parse_severity\<close> is called on whatever the JSON document holds: a falsy value is
  UNKNOWN, a string is looked up after stripping and upper-casing, and a truthy value
  that is not a string has no \<open>strip\<close>: the AttributeError (None) is not caught.\<close>

definition parse_severity :: "json \<Rightarrow> severity option" where
  "parse_severity raw =
     (if \<not> truthy raw then Some UNKNOWN
      else case raw of
        JStr s \<Rightarrow> (case severity_of (upper (strip s)) of
                     None \<Rightarrow> Some UNKNOWN
                   | Some sev \<Rightarrow> Some sev)
      | _ \<Rightarrow> None)"

definition max_severity :: "severity list \<Rightarrow> severity" where
  "max_severity severities =
     (case severities of [] \<Rightarrow> UNKNOWN | s # ss \<Rightarrow> max_by rank s ss)"

section \<open>The order by rank\<close>

lemma rank_inject [simp]: "rank a = rank b \<longleftrightarrow> a = b"
  by (cases a; cases b) (simp_all add: rank_def)

lemma rank_bounds [simp]: "0 \<le> rank s" "rank s \<le> 4"
  by (cases s; simp add: rank_def)+

instantiation severity :: linorder
begin

definition less_eq_severity :: "severity \<Rightarrow> severity \<Rightarrow> bool" where
  "less_eq_severity a b = (rank a \<le> rank b)"

definition less_severity :: "severity \<Rightarrow> severity \<Rightarrow> bool" where
  "less_severity a b = (rank a < rank b)"

instance
  by standard (auto simp: less_eq_severity_def less_severity_def)

end

lemma all_severities_complete [simp]: "s \<in> set all_severities"
  by (cases s) (simp_all add: all_severities_def)

lemma severity_of_value [simp]: "severity_of (severity_value s) = Some s"
  by (cases s) (simp_all add: severity_of_def all_severities_def)

lemma severity_of_SomeD: "severity_of v = Some s \<Longrightarrow> severity_value s = v"
  by (auto simp: severity_of_def find_Some_iff)

lemma RANK_TO_SEVERITY_rank [simp]: "RANK_TO_SEVERITY (rank s) = Some s"
  by (cases s) (simp_all add: RANK_TO_SEVERITY_def rank_def all_severities_def)

lemma max_severity_Max: "xs \<noteq> [] \<Longrightarrow> max_severity xs = Max (set xs)"
proof -
  assume "xs \<noteq> []"
  then obtain s ss where xs: "xs = s # ss" by (cases xs) auto
  have "Max (set xs) = max_by rank s ss"
    using max_by_in [of rank s ss] max_by_ge [of _ s ss rank]
    by (intro Max_eqI) (auto simp: xs less_eq_severity_def)
  then show ?thesis by (simp add: max_severity_def xs)
qed

lemma parse_severity_string: "\<exists>sev. parse_severity (JStr s) = Some sev"
  by (auto simp: parse_severity_def split: option.splits)

end
