(* ===== verification/Models.thy ===== *)
theory Models
  imports Severity
begin

text \<open>
  The tables of src/app/domain/models.py as records, the database as the record of its
  tables and id sequences, and the vocabulary of the constraints the schema declares.
  A field is named after its column, prefixed by the initial of its table
  (\<open>i_\<close> image, \<open>j_\<close> scan_job, \<open>r_\<close> scan_run, \<open>p_\<close> package, \<open>c_\<close> cve, \<open>f_\<close> finding).
\<close>

datatype job_status = PENDING | RUNNING | DONE | FAILED

datatype run_status = SUCCESS | RUN_FAILED | SKIPPED

fun job_status_value :: "job_status \<Rightarrow> string" where
  "job_status_value PENDING = ''pending''"
| "job_status_value RUNNING = ''running''"
| "job_status_value DONE = ''done''"
| "job_status_value FAILED = ''failed''"

fun run_status_value :: "run_status \<Rightarrow> string" where
  "run_status_value SUCCESS = ''success''"
| "run_status_value RUN_FAILED = ''failed''"
| "run_status_value SKIPPED = ''skipped''"

record image =
  i_id :: int
  i_name :: string
  i_tag :: string
  i_scan_interval_seconds :: "int option"
  i_enabled :: bool
  i_current_scan_run_id :: "int option"
  i_consecutive_failures :: int
  i_last_scan_at :: "time option"
  i_last_scan_status :: "run_status option"
  i_created_at :: time

definition reference :: "image \<Rightarrow> string" where
  "reference i = i_name i @ '':'' @ i_tag i"

record scan_job =
  j_id :: int
  j_image_id :: int
  j_status :: job_status
  j_priority :: int
  j_scheduled_for :: time
  j_lease_until :: "time option"
  j_attempts :: int
  j_last_error :: "string option"
  j_created_at :: time

record scan_run =
  r_id :: int
  r_image_id :: int
  r_scan_job_id :: "int option"
  r_started_at :: time
  r_completed_at :: "time option"
  r_status :: run_status
  r_digest :: "string option"
  r_trivy_version :: "string option"
  r_trivy_db_version :: "string option"
  r_scan_flags_hash :: "string option"
  r_duration_ms :: "int option"
  r_error :: "string option"
  r_finding_count_critical :: "int option"
  r_finding_count_high :: "int option"
  r_finding_count_medium :: "int option"
  r_finding_count_low :: "int option"
  r_finding_count_unknown :: "int option"

record package =
  p_id :: int
  p_name :: string
  p_version :: string
  p_type :: string

record cve =
  c_id :: string
  c_title :: "string option"
  c_description :: "string option"
  c_max_severity :: severity
  c_max_severity_rank :: int
  c_affected_image_count :: int
  c_published_at :: "time option"
  c_last_modified_at :: "time option"

record finding =
  f_id :: int
  f_image_id :: int
  f_cve_id :: string
  f_package_id :: int
  f_fixed_version :: "string option"
  f_severity :: severity
  f_severity_rank :: int
  f_first_seen_run_id :: int
  f_last_seen_run_id :: int

text \<open>The database: the tables and the next value of each id sequence.\<close>

record db =
  images :: "image list"
  scan_jobs :: "scan_job list"
  scan_runs :: "scan_run list"
  packages :: "package list"
  cves :: "cve list"
  findings :: "finding list"
  next_image_id :: int
  next_job_id :: int
  next_run_id :: int
  next_package_id :: int
  next_finding_id :: int

definition empty_db :: db where
  "empty_db = \<lparr>images = [], scan_jobs = [], scan_runs = [], packages = [], cves = [], findings = [],
     next_image_id = 1, next_job_id = 1, next_run_id = 1, next_package_id = 1, next_finding_id = 1\<rparr>"

text \<open>What a statement or a flush raises when the database or the ORM refuses it; and the error of
  computing a column's value that a datetime cannot hold.\<close>

datatype sql_error =
    ForeignKeyViolation
  | UniqueViolation
  | CardinalityViolation
  | DataError
  | TooManyParameters
  | StaleDataError
  | ObjectDeletedError
  | MultipleResultsFound
  | OverflowError

section \<open>Keys and predicates the schema names\<close>

text \<open>The predicate of the partial unique index uq_scan_job_active.\<close>

definition active :: "scan_job \<Rightarrow> bool" where
  "active j = (j_status j = PENDING \<or> j_status j = RUNNING)"

definition image_key :: "image \<Rightarrow> string \<times> string" where
  "image_key i = (i_name i, i_tag i)"

definition package_key :: "package \<Rightarrow> string \<times> string \<times> string" where
  "package_key p = (p_name p, p_version p, p_type p)"

definition finding_key :: "finding \<Rightarrow> int \<times> string \<times> int" where
  "finding_key f = (f_image_id f, f_cve_id f, f_package_id f)"

text \<open>A String(n) column refuses a longer value (a DataError).\<close>

definition varchar :: "nat \<Rightarrow> string \<Rightarrow> bool" where
  "varchar n s = (length s \<le> n)"

fun varchar_opt :: "nat \<Rightarrow> string option \<Rightarrow> bool" where
  "varchar_opt n None = True"
| "varchar_opt n (Some s) = varchar n s"

section \<open>Current findings\<close>

text \<open>A finding is current iff its last_seen_run_id is its image's current_scan_run_id.\<close>

definition current_run_of :: "db \<Rightarrow> int \<Rightarrow> int option" where
  "current_run_of d image_id =
     (case find_row i_id image_id (images d) of
        None \<Rightarrow> None
      | Some i \<Rightarrow> i_current_scan_run_id i)"

definition is_current :: "db \<Rightarrow> finding \<Rightarrow> bool" where
  "is_current d f = (current_run_of d (f_image_id f) = Some (f_last_seen_run_id f))"

definition current_findings :: "db \<Rightarrow> finding list" where
  "current_findings d = filter (is_current d) (findings d)"

section \<open>Consistency of the database\<close>

text \<open>Primary keys are unique and below their sequence; the declared unique constraints hold.\<close>

definition keys_ok :: "db \<Rightarrow> bool" where
  "keys_ok d \<longleftrightarrow>
     unique_on i_id (images d) \<and> unique_on image_key (images d) \<and>
     unique_on j_id (scan_jobs d) \<and> unique_on r_id (scan_runs d) \<and>
     unique_on p_id (packages d) \<and> unique_on package_key (packages d) \<and>
     unique_on c_id (cves d) \<and> unique_on f_id (findings d) \<and> unique_on finding_key (findings d)"

definition sequences_ok :: "db \<Rightarrow> bool" where
  "sequences_ok d \<longleftrightarrow>
     (\<forall>i \<in> set (images d). i_id i < next_image_id d) \<and>
     (\<forall>j \<in> set (scan_jobs d). j_id j < next_job_id d) \<and>
     (\<forall>r \<in> set (scan_runs d). r_id r < next_run_id d) \<and>
     (\<forall>p \<in> set (packages d). p_id p < next_package_id d) \<and>
     (\<forall>f \<in> set (findings d). f_id f < next_finding_id d)"

text \<open>At most one active job per image.\<close>

definition one_active_job :: "db \<Rightarrow> bool" where
  "one_active_job d \<longleftrightarrow> distinct (map j_image_id (filter active (scan_jobs d)))"

text \<open>Foreign keys.\<close>

definition references_ok :: "db \<Rightarrow> bool" where
  "references_ok d \<longleftrightarrow>
     (\<forall>j \<in> set (scan_jobs d). j_image_id j \<in> i_id ` set (images d)) \<and>
     (\<forall>r \<in> set (scan_runs d). r_image_id r \<in> i_id ` set (images d)) \<and>
     (\<forall>f \<in> set (findings d). f_image_id f \<in> i_id ` set (images d) \<and>
        f_cve_id f \<in> c_id ` set (cves d) \<and> f_package_id f \<in> p_id ` set (packages d))"

text \<open>Run pointers: current_scan_run_id only ever points at a successful run of the same
  image, and so do the first and last sightings of a finding, in that order.\<close>

definition success_run_of :: "db \<Rightarrow> int \<Rightarrow> int \<Rightarrow> bool" where
  "success_run_of d image_id run_id \<longleftrightarrow>
     (\<exists>r \<in> set (scan_runs d). r_id r = run_id \<and> r_image_id r = image_id \<and> r_status r = SUCCESS)"

definition pointers_ok :: "db \<Rightarrow> bool" where
  "pointers_ok d \<longleftrightarrow>
     (\<forall>i \<in> set (images d). \<forall>k. i_current_scan_run_id i = Some k \<longrightarrow> success_run_of d (i_id i) k) \<and>
     (\<forall>f \<in> set (findings d).
        success_run_of d (f_image_id f) (f_first_seen_run_id f) \<and>
        success_run_of d (f_image_id f) (f_last_seen_run_id f) \<and>
        f_first_seen_run_id f \<le> f_last_seen_run_id f)"

definition ranks_ok :: "db \<Rightarrow> bool" where
  "ranks_ok d \<longleftrightarrow>
     (\<forall>f \<in> set (findings d). f_severity_rank f = rank (f_severity f)) \<and>
     (\<forall>c \<in> set (cves d). c_max_severity_rank c = rank (c_max_severity c))"

section \<open>Derived columns\<close>

text \<open>What the columns cve.max_severity_rank, cve.affected_image_count and
  scan_run.finding_count_* are meant to hold, computed from the current findings.\<close>

definition findings_of_cve :: "db \<Rightarrow> string \<Rightarrow> finding list" where
  "findings_of_cve d cid = filter (\<lambda>f. f_cve_id f = cid) (current_findings d)"

definition current_rank :: "db \<Rightarrow> string \<Rightarrow> int" where
  "current_rank d cid = foldr max (map f_severity_rank (findings_of_cve d cid)) 0"

definition current_image_count :: "db \<Rightarrow> string \<Rightarrow> int" where
  "current_image_count d cid = int (length (remdups (map f_image_id (findings_of_cve d cid))))"

definition rollup_ok_for :: "db \<Rightarrow> cve \<Rightarrow> bool" where
  "rollup_ok_for d c \<longleftrightarrow>
     c_max_severity_rank c = current_rank d (c_id c) \<and>
     c_affected_image_count c = current_image_count d (c_id c)"

definition rollups_ok :: "db \<Rightarrow> bool" where
  "rollups_ok d \<longleftrightarrow> (\<forall>c \<in> set (cves d). rollup_ok_for d c)"

fun r_finding_count :: "scan_run \<Rightarrow> severity \<Rightarrow> int option" where
  "r_finding_count r CRITICAL = r_finding_count_critical r"
| "r_finding_count r HIGH = r_finding_count_high r"
| "r_finding_count r MEDIUM = r_finding_count_medium r"
| "r_finding_count r LOW = r_finding_count_low r"
| "r_finding_count r UNKNOWN = r_finding_count_unknown r"

definition current_count :: "db \<Rightarrow> int \<Rightarrow> severity \<Rightarrow> int" where
  "current_count d image_id sev =
     int (length (filter (\<lambda>f. f_image_id f = image_id \<and> f_severity f = sev) (current_findings d)))"

definition counts_ok :: "db \<Rightarrow> bool" where
  "counts_ok d \<longleftrightarrow>
     (\<forall>i \<in> set (images d). \<forall>r \<in> set (scan_runs d).
        i_current_scan_run_id i = Some (r_id r) \<longrightarrow>
        (\<forall>sev. r_finding_count r sev = Some (current_count d (i_id i) sev)))"

definition consistent :: "db \<Rightarrow> bool" where
  "consistent d \<longleftrightarrow> keys_ok d \<and> sequences_ok d \<and> one_active_job d \<and> references_ok d \<and>
     pointers_ok d \<and> ranks_ok d \<and> counts_ok d \<and> rollups_ok d"

lemmas db_parts = keys_ok_def sequences_ok_def one_active_job_def references_ok_def
  pointers_ok_def ranks_ok_def

lemma keys_okD:
  assumes "keys_ok d"
  shows "unique_on i_id (images d)" "unique_on image_key (images d)"
    "unique_on j_id (scan_jobs d)" "unique_on r_id (scan_runs d)"
    "unique_on p_id (packages d)" "unique_on package_key (packages d)"
    "unique_on c_id (cves d)" "unique_on f_id (findings d)" "unique_on finding_key (findings d)"
  using assms by (simp_all add: keys_ok_def)

lemma current_run_of_find:
  "find_row i_id k (images d) = Some i \<Longrightarrow> current_run_of d k = i_current_scan_run_id i"
  by (simp add: current_run_of_def)

lemma consistentD:
  assumes "consistent d"
  shows "keys_ok d" "sequences_ok d" "one_active_job d" "references_ok d"
    "pointers_ok d" "ranks_ok d" "counts_ok d" "rollups_ok d"
  using assms by (simp_all add: consistent_def)

lemma consistent_empty: "consistent empty_db"
  by (simp add: consistent_def db_parts counts_ok_def rollups_ok_def empty_db_def)

text \<open>The derived columns and the run pointers depend only on the tables they read.\<close>

lemma current_findings_cong:
  "images d' = images d \<Longrightarrow> findings d' = findings d \<Longrightarrow> current_findings d' = current_findings d"
  by (simp add: current_findings_def is_current_def [abs_def] current_run_of_def)

lemma rollups_ok_cong:
  "images d' = images d \<Longrightarrow> findings d' = findings d \<Longrightarrow> cves d' = cves d \<Longrightarrow>
   rollups_ok d' = rollups_ok d"
  by (simp add: rollups_ok_def rollup_ok_for_def current_rank_def current_image_count_def
      findings_of_cve_def current_findings_cong [of d' d])

lemma counts_ok_cong:
  "images d' = images d \<Longrightarrow> findings d' = findings d \<Longrightarrow> scan_runs d' = scan_runs d \<Longrightarrow>
   counts_ok d' = counts_ok d"
  by (simp add: counts_ok_def current_count_def current_findings_cong [of d' d])

lemma pointers_ok_cong:
  "images d' = images d \<Longrightarrow> findings d' = findings d \<Longrightarrow> scan_runs d' = scan_runs d \<Longrightarrow>
   pointers_ok d' = pointers_ok d"
  by (simp add: pointers_ok_def success_run_of_def)

lemma success_run_of_mono:
  "success_run_of d i k \<Longrightarrow> set (scan_runs d) \<subseteq> set (scan_runs d') \<Longrightarrow> success_run_of d' i k"
  by (auto simp: success_run_of_def)

end
