(* ===== verification/Queue.thy ===== *)
theory Queue
  imports Models
begin

text \<open>
  The job queue (src/app/jobs/queue.py). Each SQL statement is a function from the
  database; a timestamp the code takes from a process clock (\<open>now\<close>) is kept apart from
  PostgreSQL's \<open>statement_timestamp()\<close> (\<open>stmt_ts\<close>) and from the transaction
  timestamp behind a column default (\<open>txn_ts\<close>). Rows locked by other transactions,
  which SKIP LOCKED passes over, are the list \<open>locked\<close>. ORM mutations of a loaded job
  are functions on the job object, written back by \<open>save_job\<close>.
\<close>

definition SCHEDULER_LOCK_KEY :: int where
  "SCHEDULER_LOCK_KEY = 0x5CA45CA4"

definition PRIORITY_TIME_SENSITIVE :: int where
  "PRIORITY_TIME_SENSITIVE = 100"

definition PRIORITY_SCHEDULED :: int where
  "PRIORITY_SCHEDULED = 0"

definition LEASE_EXPIRED_ERROR :: string where
  "LEASE_EXPIRED_ERROR = ''lease expired; worker presumed dead''"

record reaped_job =
  rj_job_id :: int
  rj_image_id :: int
  rj_exhausted :: bool

section \<open>Statements\<close>

text \<open>INSERT ... ON CONFLICT (image_id) WHERE status IN ('pending', 'running') DO NOTHING
  RETURNING id. The id default is evaluated, and the sequence advanced, on a conflict too.\<close>

definition has_active_job :: "db \<Rightarrow> int \<Rightarrow> bool" where
  "has_active_job d image_id = list_ex (\<lambda>j. active j \<and> j_image_id j = image_id) (scan_jobs d)"

definition build_enqueue_statement ::
    "int \<Rightarrow> int \<Rightarrow> time option \<Rightarrow> time \<Rightarrow> time \<Rightarrow> db \<Rightarrow> sql_error + (db \<times> int list)" where
  "build_enqueue_statement image_id priority scheduled_for now txn_ts d =
     (let k = next_job_id d;
          d' = d\<lparr>next_job_id := k + 1\<rparr>;
          row = \<lparr>j_id = k, j_image_id = image_id, j_status = PENDING, j_priority = priority,
                 j_scheduled_for = (case scheduled_for of None \<Rightarrow> now | Some t \<Rightarrow> t),
                 j_lease_until = None, j_attempts = 0, j_last_error = None, j_created_at = txn_ts\<rparr>
      in if has_active_job d image_id then Inr (d', [])
         else if image_id \<notin> i_id ` set (images d) then Inl ForeignKeyViolation
         else Inr (d'\<lparr>scan_jobs := scan_jobs d @ [row]\<rparr>, [k]))"

definition promotable :: "int \<Rightarrow> scan_job \<Rightarrow> bool" where
  "promotable image_id j =
     (j_image_id j = image_id \<and> j_status j = PENDING \<and> j_priority j < PRIORITY_TIME_SENSITIVE)"

definition build_promote_statement :: "int \<Rightarrow> time \<Rightarrow> db \<Rightarrow> db \<times> int list" where
  "build_promote_statement image_id now d =
     (d\<lparr>scan_jobs := update_rows (promotable image_id)
          (\<lambda>j. j\<lparr>j_priority := PRIORITY_TIME_SENSITIVE, j_scheduled_for := now\<rparr>) (scan_jobs d)\<rparr>,
      map j_id (filter (promotable image_id) (scan_jobs d)))"

text \<open>\<open>scalar_one_or_none()\<close>.\<close>

fun scalar_one_or_none :: "'a list \<Rightarrow> sql_error + 'a option" where
  "scalar_one_or_none [] = Inr None"
| "scalar_one_or_none [x] = Inr (Some x)"
| "scalar_one_or_none _ = Inl MultipleResultsFound"

section \<open>Operations\<close>

definition enqueue ::
    "int \<Rightarrow> int \<Rightarrow> time option \<Rightarrow> time \<Rightarrow> time \<Rightarrow> db \<Rightarrow> sql_error + (db \<times> bool)" where
  "enqueue image_id priority scheduled_for now txn_ts d =
     (case build_enqueue_statement image_id priority scheduled_for now txn_ts d of
        Inl e \<Rightarrow> Inl e
      | Inr (d', ids) \<Rightarrow>
          (case scalar_one_or_none ids of
             Inl e \<Rightarrow> Inl e
           | Inr r \<Rightarrow> Inr (d', r \<noteq> None)))"

definition promote :: "int \<Rightarrow> time \<Rightarrow> db \<Rightarrow> sql_error + (db \<times> bool)" where
  "promote image_id now d =
     (let (d', ids) = build_promote_statement image_id now d
      in (case scalar_one_or_none ids of
            Inl e \<Rightarrow> Inl e
          | Inr r \<Rightarrow> Inr (d', r \<noteq> None)))"

definition claimable :: "int list \<Rightarrow> time \<Rightarrow> scan_job \<Rightarrow> bool" where
  "claimable locked stmt_ts j =
     (j_status j = PENDING \<and> j_scheduled_for j \<le> stmt_ts \<and> j_id j \<notin> set locked)"

definition claim_order :: "scan_job \<Rightarrow> int \<times> time" where
  "claim_order j = (- j_priority j, j_scheduled_for j)"

definition next_claimable :: "int list \<Rightarrow> time \<Rightarrow> db \<Rightarrow> scan_job option" where
  "next_claimable locked stmt_ts d =
     (case sort_key claim_order (filter (claimable locked stmt_ts) (scan_jobs d)) of
        [] \<Rightarrow> None
      | j # _ \<Rightarrow> Some j)"

text \<open>The flush of a changed ORM object: the columns whose value differs from the loaded
  one are written to the row with the object's id, the others keep what the row holds.\<close>

definition pick :: "'a \<Rightarrow> 'a \<Rightarrow> 'a \<Rightarrow> 'a" where
  "pick loaded new row = (if new = loaded then row else new)"

definition merge_job :: "scan_job \<Rightarrow> scan_job \<Rightarrow> scan_job \<Rightarrow> scan_job" where
  "merge_job loaded new row = row\<lparr>
     j_status := pick (j_status loaded) (j_status new) (j_status row),
     j_priority := pick (j_priority loaded) (j_priority new) (j_priority row),
     j_scheduled_for := pick (j_scheduled_for loaded) (j_scheduled_for new) (j_scheduled_for row),
     j_lease_until := pick (j_lease_until loaded) (j_lease_until new) (j_lease_until row),
     j_attempts := pick (j_attempts loaded) (j_attempts new) (j_attempts row),
     j_last_error := pick (j_last_error loaded) (j_last_error new) (j_last_error row)\<rparr>"

definition save_job :: "scan_job \<Rightarrow> scan_job \<Rightarrow> db \<Rightarrow> sql_error + db" where
  "save_job loaded new d =
     (let d' = d\<lparr>scan_jobs := update_rows (\<lambda>j. j_id j = j_id loaded) (merge_job loaded new) (scan_jobs d)\<rparr>
      in if j_id loaded \<notin> j_id ` set (scan_jobs d) then Inl StaleDataError
         else if \<not> one_active_job d' then Inl UniqueViolation
         else Inr d')"

definition claim :: "int list \<Rightarrow> time \<Rightarrow> time \<Rightarrow> int \<Rightarrow> db \<Rightarrow> db \<times> scan_job option" where
  "claim locked stmt_ts now lease_s d =
     (case next_claimable locked stmt_ts d of
        None \<Rightarrow> (d, None)
      | Some j \<Rightarrow>
          (let j' = j\<lparr>j_status := RUNNING, j_lease_until := Some (now + seconds lease_s)\<rparr>
           in (d\<lparr>scan_jobs := update_rows (\<lambda>r. j_id r = j_id j) (merge_job j j') (scan_jobs d)\<rparr>,
               Some j')))"

definition complete :: "scan_job \<Rightarrow> scan_job" where
  "complete job = job\<lparr>j_status := DONE, j_lease_until := None, j_last_error := None\<rparr>"

definition fail :: "scan_job \<Rightarrow> string \<Rightarrow> int \<Rightarrow> int \<Rightarrow> int \<Rightarrow> time \<Rightarrow> scan_job" where
  "fail job error max_att backoff_base backoff_max now =
     (let job = job\<lparr>j_attempts := j_attempts job + 1, j_last_error := Some (take 4000 error),
                    j_lease_until := None\<rparr>
      in if j_attempts job \<ge> max_att then job\<lparr>j_status := FAILED\<rparr>
         else (let delay = min (backoff_base * 2 ^ nat (j_attempts job - 1)) backoff_max
               in job\<lparr>j_status := PENDING, j_scheduled_for := now + seconds delay\<rparr>))"

text \<open>What \<open>defer\<close> makes of the job.\<close>

definition defer_job :: "scan_job \<Rightarrow> int \<Rightarrow> string \<Rightarrow> time \<Rightarrow> scan_job" where
  "defer_job job delay_seconds reason now =
     job\<lparr>j_status := PENDING, j_lease_until := None, j_last_error := Some (take 4000 reason),
         j_scheduled_for := now + seconds delay_seconds\<rparr>"

text \<open>A datetime ends with the year 9999: a sum beyond it is an OverflowError (None). The delay of
  a deferral is the one a registry asked for, so this is the only sum here whose size the
  settings do not bound; the error leaves the job's row as it was.\<close>

definition MAX_DATETIME :: time where
  "MAX_DATETIME = 253402300799999999"

definition datetime_add :: "time \<Rightarrow> int \<Rightarrow> time option" where
  "datetime_add t n = (if t + seconds n \<le> MAX_DATETIME then Some (t + seconds n) else None)"

definition queue_defer :: "scan_job \<Rightarrow> int \<Rightarrow> string \<Rightarrow> time \<Rightarrow> scan_job option" where
  "queue_defer job delay_seconds reason now =
     (case datetime_add now delay_seconds of
        None \<Rightarrow> None
      | Some due \<Rightarrow> Some (defer_job job delay_seconds reason now))"

text \<open>A NULL lease_until compares as NULL, so such a row is not expired.\<close>

definition expired :: "time \<Rightarrow> scan_job \<Rightarrow> bool" where
  "expired stmt_ts j =
     (j_status j = RUNNING \<and> (case j_lease_until j of None \<Rightarrow> False | Some t \<Rightarrow> t < stmt_ts))"

definition reap_job :: "int \<Rightarrow> scan_job \<Rightarrow> scan_job" where
  "reap_job max_att j =
     j\<lparr>j_status := (if j_attempts j + 1 \<ge> max_att then FAILED else PENDING),
       j_lease_until := None, j_attempts := j_attempts j + 1,
       j_last_error := Some LEASE_EXPIRED_ERROR\<rparr>"

definition reap_expired_leases :: "int \<Rightarrow> time \<Rightarrow> db \<Rightarrow> db \<times> reaped_job list" where
  "reap_expired_leases max_att stmt_ts d =
     (d\<lparr>scan_jobs := update_rows (expired stmt_ts) (reap_job max_att) (scan_jobs d)\<rparr>,
      map (\<lambda>j. \<lparr>rj_job_id = j_id j, rj_image_id = j_image_id j,
                 rj_exhausted = (j_status (reap_job max_att j) = FAILED)\<rparr>)
          (filter (expired stmt_ts) (scan_jobs d)))"

text \<open>The session-level advisory lock: its holder and how often it was taken (a session
  that holds it takes it again at once; each unlock undoes one).\<close>

type_synonym advisory_lock = "(int \<times> nat) option"

definition try_scheduler_lock :: "int \<Rightarrow> advisory_lock \<Rightarrow> advisory_lock \<times> bool" where
  "try_scheduler_lock conn l =
     (case l of
        None \<Rightarrow> (Some (conn, 1), True)
      | Some (c, n) \<Rightarrow> if c = conn then (Some (c, n + 1), True) else (l, False))"

definition release_scheduler_lock :: "int \<Rightarrow> advisory_lock \<Rightarrow> advisory_lock" where
  "release_scheduler_lock conn l =
     (case l of
        None \<Rightarrow> None
      | Some (c, n) \<Rightarrow> if c \<noteq> conn then l else if n \<le> 1 then None else Some (c, n - 1))"

lemmas queue_defs = build_enqueue_statement_def build_promote_statement_def enqueue_def promote_def
  claim_def complete_def fail_def defer_job_def reap_expired_leases_def reap_job_def

section \<open>What every queue operation keeps\<close>

definition jobs_ok :: "db \<Rightarrow> bool" where
  "jobs_ok d \<longleftrightarrow> unique_on j_id (scan_jobs d) \<and>
     (\<forall>j \<in> set (scan_jobs d). j_id j < next_job_id d \<and> j_image_id j \<in> i_id ` set (images d)) \<and>
     one_active_job d"

lemma consistent_jobs_ok: "consistent d \<Longrightarrow> jobs_ok d"
  by (simp add: jobs_ok_def consistent_def keys_ok_def sequences_ok_def references_ok_def)

text \<open>The contract of a queue operation: it touches only the job table and its sequence,
  and keeps the job table well formed. Whatever satisfies it keeps the whole database
  consistent and changes no finding's currency.\<close>

locale queue_step =
  fixes step :: "db \<Rightarrow> db"
  assumes frame: "step d = d\<lparr>scan_jobs := scan_jobs (step d), next_job_id := next_job_id (step d)\<rparr>"
    and keeps_jobs: "jobs_ok d \<Longrightarrow> jobs_ok (step d)"
begin

lemma same_tables:
  "images (step d) = images d" "scan_runs (step d) = scan_runs d"
  "packages (step d) = packages d" "cves (step d) = cves d" "findings (step d) = findings d"
  by (subst frame, simp)+

lemma same_sequences:
  "next_image_id (step d) = next_image_id d" "next_run_id (step d) = next_run_id d"
  "next_package_id (step d) = next_package_id d" "next_finding_id (step d) = next_finding_id d"
  by (subst frame, simp)+

lemma same_current: "current_findings (step d) = current_findings d"
  by (rule current_findings_cong) (simp_all add: same_tables)

lemma keeps_consistent:
  assumes "consistent d"
  shows "consistent (step d)"
proof -
  have j: "jobs_ok (step d)"
    using assms by (intro keeps_jobs consistent_jobs_ok)
  have "keys_ok (step d)" "sequences_ok (step d)" "references_ok (step d)" "one_active_job (step d)"
    using j assms
    by (simp_all add: jobs_ok_def consistent_def keys_ok_def sequences_ok_def references_ok_def
        same_tables same_sequences)
  moreover have "pointers_ok (step d)" "ranks_ok (step d)" "counts_ok (step d)" "rollups_ok (step d)"
    using assms
    by (simp_all add: consistent_def same_tables ranks_ok_def
        pointers_ok_cong [of "step d" d] counts_ok_cong [of "step d" d] rollups_ok_cong [of "step d" d])
  ultimately show ?thesis
    by (simp add: consistent_def)
qed

end

text \<open>The contract of an outcome: every way a claimed job stops running keeps the job's
  identity, gives the lease back and never takes an attempt away.\<close>

locale job_exit =
  fixes exit_with :: "scan_job \<Rightarrow> scan_job"
  assumes same_job: "j_id (exit_with j) = j_id j" "j_image_id (exit_with j) = j_image_id j"
      "j_created_at (exit_with j) = j_created_at j"
    and not_running: "j_status (exit_with j) \<noteq> RUNNING"
    and no_lease: "j_lease_until (exit_with j) = None"
    and attempts_step: "j_attempts j \<le> j_attempts (exit_with j)" "j_attempts (exit_with j) \<le> j_attempts j + 1"
begin

lemma not_expired: "\<not> expired ts (exit_with j)"
  by (simp add: expired_def not_running)

lemma merge_exit: "merge_job j (exit_with j) j = exit_with j"
  by (rule scan_job.equality) (simp_all add: merge_job_def pick_def same_job)

end

section \<open>The operations satisfy the contracts\<close>

lemma jobs_ok_update:
  assumes "jobs_ok d"
    and "\<And>j. j \<in> set (scan_jobs d) \<Longrightarrow> p j \<Longrightarrow>
      j_id (f j) = j_id j \<and> j_image_id (f j) = j_image_id j \<and> (active (f j) \<longrightarrow> active j)"
  shows "jobs_ok (d\<lparr>scan_jobs := update_rows p f (scan_jobs d)\<rparr>)"
proof -
  have "map j_id (update_rows p f (scan_jobs d)) = map j_id (scan_jobs d)"
    using assms(2) by (intro map_update_rows) simp
  moreover have "distinct (map j_image_id (filter active (update_rows p f (scan_jobs d))))"
    using assms by (intro distinct_filter_update) (auto simp: jobs_ok_def one_active_job_def)
  moreover have "\<forall>j \<in> set (update_rows p f (scan_jobs d)).
      j_id j < next_job_id d \<and> j_image_id j \<in> i_id ` set (images d)"
    using assms by (auto simp: set_update_rows jobs_ok_def)
  ultimately show ?thesis
    using assms(1) by (simp add: jobs_ok_def one_active_job_def)
qed

lemma merge_job_same [simp]: "merge_job j new j = new\<lparr>j_id := j_id j, j_image_id := j_image_id j,
    j_created_at := j_created_at j\<rparr>"
  by (rule scan_job.equality) (simp_all add: merge_job_def pick_def)

lemma next_claimable_SomeD:
  assumes "next_claimable locked ts d = Some j"
  shows "j \<in> set (scan_jobs d)" "claimable locked ts j"
    "\<And>k. k \<in> set (scan_jobs d) \<Longrightarrow> claimable locked ts k \<Longrightarrow> claim_order j \<le> claim_order k"
proof -
  from assms obtain js where
    s: "sort_key claim_order (filter (claimable locked ts) (scan_jobs d)) = j # js"
    by (auto simp: next_claimable_def split: list.splits)
  show "j \<in> set (scan_jobs d)" "claimable locked ts j"
    using sort_key_hd_min(1) [OF s] by auto
  show "\<And>k. k \<in> set (scan_jobs d) \<Longrightarrow> claimable locked ts k \<Longrightarrow> claim_order j \<le> claim_order k"
    using sort_key_hd_min(2) [OF s] by auto
qed

lemma next_claimable_None_iff:
  "next_claimable locked ts d = None \<longleftrightarrow> (\<forall>j \<in> set (scan_jobs d). \<not> claimable locked ts j)"
proof (cases "next_claimable locked ts d")
  case None
  then have "filter (claimable locked ts) (scan_jobs d) = []"
    by (simp add: next_claimable_def split: list.splits)
  with None show ?thesis by (simp add: filter_empty_conv)
next
  case (Some j)
  with next_claimable_SomeD(1,2) [OF Some] show ?thesis by auto
qed

lemma has_active_job_iff:
  "has_active_job d k \<longleftrightarrow> (\<exists>j \<in> set (scan_jobs d). active j \<and> j_image_id j = k)"
  by (simp add: has_active_job_def list_ex_iff)

abbreviation enqueue_step :: "int \<Rightarrow> int \<Rightarrow> time option \<Rightarrow> time \<Rightarrow> time \<Rightarrow> db \<Rightarrow> db" where
  "enqueue_step k p sf now ts d \<equiv>
     (case build_enqueue_statement k p sf now ts d of Inl _ \<Rightarrow> d | Inr (d', _) \<Rightarrow> d')"

abbreviation save_step :: "scan_job \<Rightarrow> scan_job \<Rightarrow> db \<Rightarrow> db" where
  "save_step loaded new d \<equiv> (case save_job loaded new d of Inl _ \<Rightarrow> d | Inr d' \<Rightarrow> d')"

interpretation enq: queue_step "enqueue_step k p sf now ts" for k p sf now ts
proof unfold_locales
  fix d :: db
  show "enqueue_step k p sf now ts d = d\<lparr>scan_jobs := scan_jobs (enqueue_step k p sf now ts d),
      next_job_id := next_job_id (enqueue_step k p sf now ts d)\<rparr>"
    by (auto simp: build_enqueue_statement_def Let_def intro!: db.equality)
  assume d: "jobs_ok d"
  show "jobs_ok (enqueue_step k p sf now ts d)"
  proof (cases "has_active_job d k \<or> k \<notin> i_id ` set (images d)")
    case True
    with d show ?thesis
      by (force simp: build_enqueue_statement_def Let_def jobs_ok_def one_active_job_def)
  next
    case False
    then have "k \<notin> j_image_id ` set (filter active (scan_jobs d))"
      by (auto simp: has_active_job_iff)
    with False d show ?thesis
      by (auto simp: build_enqueue_statement_def Let_def jobs_ok_def one_active_job_def active_def)
  qed
qed

interpretation prom: queue_step "\<lambda>d. fst (build_promote_statement k now d)" for k now
  by unfold_locales
     (auto simp: build_promote_statement_def active_def promotable_def intro!: jobs_ok_update)

interpretation clm: queue_step "\<lambda>d. fst (claim locked ts now lease_s d)" for locked ts now lease_s
proof unfold_locales
  fix d :: db
  let ?s = "\<lambda>d. fst (claim locked ts now lease_s d)"
  show "?s d = d\<lparr>scan_jobs := scan_jobs (?s d), next_job_id := next_job_id (?s d)\<rparr>"
    by (auto simp: claim_def Let_def split: option.splits)
  assume d: "jobs_ok d"
  show "jobs_ok (?s d)"
  proof (cases "next_claimable locked ts d")
    case None
    with d show ?thesis by (simp add: claim_def)
  next
    case (Some j)
    then have j: "j \<in> set (scan_jobs d)" "active j"
      using next_claimable_SomeD [OF Some] by (auto simp: claimable_def active_def)
    let ?j = "j\<lparr>j_status := RUNNING, j_lease_until := Some (now + seconds lease_s)\<rparr>"
    have keep: "j_id (merge_job j ?j r) = j_id r \<and> j_image_id (merge_job j ?j r) = j_image_id r \<and>
        (active (merge_job j ?j r) \<longrightarrow> active r)" if "r \<in> set (scan_jobs d)" "j_id r = j_id j" for r
    proof -
      have "r = j"
        using that j d unique_onD [of j_id "scan_jobs d" r j] by (simp add: jobs_ok_def)
      with j show ?thesis by simp
    qed
    have "jobs_ok (d\<lparr>scan_jobs := update_rows (\<lambda>r. j_id r = j_id j) (merge_job j ?j) (scan_jobs d)\<rparr>)"
      using d keep by (rule jobs_ok_update)
    then show ?thesis by (simp add: claim_def Some Let_def)
  qed
qed

interpretation reap: queue_step "\<lambda>d. fst (reap_expired_leases m ts d)" for m ts
  by unfold_locales
     (auto simp: reap_expired_leases_def reap_job_def active_def expired_def intro!: jobs_ok_update)

interpretation sav: queue_step "save_step loaded new" for loaded new
proof unfold_locales
  fix d :: db
  show "save_step loaded new d = d\<lparr>scan_jobs := scan_jobs (save_step loaded new d),
      next_job_id := next_job_id (save_step loaded new d)\<rparr>"
    by (auto simp: save_job_def Let_def)
  assume d: "jobs_ok d"
  have "map j_id (update_rows (\<lambda>j. j_id j = j_id loaded) (merge_job loaded new) (scan_jobs d)) = map j_id (scan_jobs d)"
    by (rule map_update_rows) (simp add: merge_job_def)
  with d show "jobs_ok (save_step loaded new d)"
    by (auto simp: save_job_def Let_def jobs_ok_def set_update_rows merge_job_def)
qed

interpretation exit_complete: job_exit complete
  by unfold_locales (simp_all add: complete_def)

interpretation exit_fail: job_exit "\<lambda>j. fail j error m b c now" for error m b c now
  by unfold_locales (simp_all add: fail_def Let_def)

interpretation exit_defer: job_exit "\<lambda>j. defer_job j delay reason now" for delay reason now
  by unfold_locales (simp_all add: defer_job_def)

interpretation exit_reap: job_exit "reap_job m" for m
  by unfold_locales (simp_all add: reap_job_def)

end
