(* ===== verification/Queue_Props.thy ===== *)
theory Queue_Props
  imports Queue
begin

text \<open>
  The properties of the queue: the abstract view of the table as a map from images to
  their one active job and how each operation acts on it, the choice a claim makes,
  disjointness of claims, the life of a job under failures, reaps and deferrals, reaping,
  the promotion of a deferred job, and the advisory lock.
\<close>

section \<open>The abstract queue: each image's active job\<close>

definition active_job_of :: "db \<Rightarrow> int \<Rightarrow> scan_job option" where
  "active_job_of d k = find (\<lambda>j. active j \<and> j_image_id j = k) (scan_jobs d)"

lemma active_unique:
  assumes "jobs_ok d" "a \<in> set (scan_jobs d)" "b \<in> set (scan_jobs d)"
    "active a" "active b" "j_image_id a = j_image_id b"
  shows "a = b"
  using assms unique_onD [of j_image_id "filter active (scan_jobs d)" a b]
  by (simp add: jobs_ok_def one_active_job_def)

lemma active_job_of_Some_iff:
  assumes "jobs_ok d"
  shows "active_job_of d k = Some j \<longleftrightarrow> j \<in> set (scan_jobs d) \<and> active j \<and> j_image_id j = k"
proof
  assume "active_job_of d k = Some j"
  then show "j \<in> set (scan_jobs d) \<and> active j \<and> j_image_id j = k"
    by (auto simp: active_job_of_def find_Some_iff)
next
  assume j: "j \<in> set (scan_jobs d) \<and> active j \<and> j_image_id j = k"
  then obtain a where a: "active_job_of d k = Some a"
    by (cases "active_job_of d k") (auto simp: active_job_of_def find_None_iff)
  then have "a \<in> set (scan_jobs d)" "active a" "j_image_id a = k"
    by (auto simp: active_job_of_def find_Some_iff)
  with a j active_unique [OF assms, of a j] show "active_job_of d k = Some j" by simp
qed

lemma active_job_of_None_iff: "active_job_of d k = None \<longleftrightarrow> \<not> has_active_job d k"
  by (auto simp: active_job_of_def find_None_iff has_active_job_iff)

lemma find_append: "find P (xs @ ys) = (case find P xs of None \<Rightarrow> find P ys | Some x \<Rightarrow> Some x)"
  by (induction xs) auto

lemma active_job_of_append:
  "active j \<Longrightarrow> active_job_of d (j_image_id j) = None \<Longrightarrow>
   active_job_of (d\<lparr>scan_jobs := scan_jobs d @ [j], next_job_id := n\<rparr>)
     = (active_job_of d)(j_image_id j \<mapsto> j)"
  by (auto simp: active_job_of_def find_append fun_eq_iff split: option.splits)

lemma scalar_one_of_promotable:
  assumes "jobs_ok d"
  shows "\<exists>ids. map j_id (filter (promotable k) (scan_jobs d)) = ids \<and> length ids \<le> 1"
proof -
  have "distinct (filter (promotable k) (scan_jobs d))"
    using assms by (simp add: jobs_ok_def distinct_map)
  moreover have "a = b" if "a \<in> set (filter (promotable k) (scan_jobs d))"
      "b \<in> set (filter (promotable k) (scan_jobs d))" for a b
    using that active_unique [OF assms, of a b] by (auto simp: promotable_def active_def)
  ultimately have "length (filter (promotable k) (scan_jobs d)) \<le> 1"
    by (metis One_nat_def card_le_Suc0_iff_eq distinct_card List.finite_set)
  then show ?thesis by simp
qed

text \<open>What the two statements do to the table, seen as that map.\<close>

definition queued_job :: "db \<Rightarrow> int \<Rightarrow> int \<Rightarrow> time option \<Rightarrow> time \<Rightarrow> time \<Rightarrow> scan_job" where
  "queued_job d k prio sf now ts = \<lparr>j_id = next_job_id d, j_image_id = k, j_status = PENDING, j_priority = prio,
     j_scheduled_for = (case sf of None \<Rightarrow> now | Some t \<Rightarrow> t), j_lease_until = None,
     j_attempts = 0, j_last_error = None, j_created_at = ts\<rparr>"

lemma enqueue_statement_busy:
  assumes "active_job_of d k \<noteq> None"
  shows "build_enqueue_statement k prio sf now ts d = Inr (d\<lparr>next_job_id := next_job_id d + 1\<rparr>, [])"
    and "active_job_of (d\<lparr>next_job_id := n\<rparr>) = active_job_of d"
proof -
  have "has_active_job d k" using assms by (simp add: active_job_of_None_iff del: not_None_eq)
  then show "build_enqueue_statement k prio sf now ts d = Inr (d\<lparr>next_job_id := next_job_id d + 1\<rparr>, [])"
    by (simp add: build_enqueue_statement_def Let_def)
  show "active_job_of (d\<lparr>next_job_id := n\<rparr>) = active_job_of d"
    by (simp add: active_job_of_def fun_eq_iff)
qed

lemma enqueue_statement_free:
  assumes "jobs_ok d" "k \<in> i_id ` set (images d)" "active_job_of d k = None"
  shows "\<exists>d'. build_enqueue_statement k prio sf now ts d = Inr (d', [next_job_id d]) \<and> jobs_ok d' \<and>
    active_job_of d' = (active_job_of d)(k \<mapsto> queued_job d k prio sf now ts)"
proof -
  let ?j = "queued_job d k prio sf now ts"
  let ?d = "d\<lparr>scan_jobs := scan_jobs d @ [?j], next_job_id := next_job_id d + 1\<rparr>"
  have b: "build_enqueue_statement k prio sf now ts d = Inr (?d, [next_job_id d])"
    using assms(2,3) by (simp add: build_enqueue_statement_def Let_def active_job_of_None_iff queued_job_def)
  have "jobs_ok ?d"
    using enq.keeps_jobs [OF assms(1), of k prio sf now ts] by (simp add: b)
  moreover have "active_job_of ?d = (active_job_of d)(k \<mapsto> ?j)"
    using active_job_of_append [of ?j d] assms(3) by (simp add: active_def queued_job_def)
  ultimately show ?thesis using b by blast
qed

text \<open>Enqueueing an image of the watch list never fails: it reports True exactly when the
  image had no active job, and then (and only then) the image's active job becomes the new
  pending one; no other image's active job changes. (Equivalence with insert-if-absent on
  the map from images to active jobs.)\<close>

theorem enqueue_refines_insert_if_absent:
  assumes "jobs_ok d" "k \<in> i_id ` set (images d)"
  shows "\<exists>d' inserted. enqueue k prio sf now ts d = Inr (d', inserted) \<and> jobs_ok d' \<and>
    (inserted \<longleftrightarrow> active_job_of d k = None) \<and>
    active_job_of d' =
      (if inserted then (active_job_of d)(k \<mapsto>
         \<lparr>j_id = next_job_id d, j_image_id = k, j_status = PENDING, j_priority = prio,
          j_scheduled_for = (case sf of None \<Rightarrow> now | Some t \<Rightarrow> t), j_lease_until = None,
          j_attempts = 0, j_last_error = None, j_created_at = ts\<rparr>)
       else active_job_of d)"
proof (cases "active_job_of d k")
  case None
  from enqueue_statement_free [OF assms this, of prio sf now ts] obtain d'
    where "build_enqueue_statement k prio sf now ts d = Inr (d', [next_job_id d])" "jobs_ok d'"
      "active_job_of d' = (active_job_of d)(k \<mapsto> queued_job d k prio sf now ts)" by blast
  with None show ?thesis
    by (intro exI [of _ d'] exI [of _ True]) (simp add: enqueue_def queued_job_def)
next
  case (Some j)
  then have busy: "active_job_of d k \<noteq> None" by simp
  have "jobs_ok (d\<lparr>next_job_id := next_job_id d + 1\<rparr>)"
    using assms(1) by (force simp: jobs_ok_def one_active_job_def)
  with enqueue_statement_busy [OF busy] busy show ?thesis
    by (intro exI [of _ "d\<lparr>next_job_id := next_job_id d + 1\<rparr>"] exI [of _ False]) (simp add: enqueue_def)
qed

definition sample_image :: image where
  "sample_image = \<lparr>i_id = 1, i_name = ''nginx'', i_tag = ''1.19'', i_scan_interval_seconds = None,
     i_enabled = True, i_current_scan_run_id = None, i_consecutive_failures = 0,
     i_last_scan_at = None, i_last_scan_status = None, i_created_at = 0\<rparr>"

definition sample_job :: scan_job where
  "sample_job = \<lparr>j_id = 1, j_image_id = 1, j_status = PENDING, j_priority = 0, j_scheduled_for = 0,
     j_lease_until = None, j_attempts = 0, j_last_error = None, j_created_at = 0\<rparr>"

definition sample_db :: db where
  "sample_db = empty_db\<lparr>images := [sample_image, sample_image\<lparr>i_id := 2, i_tag := ''1.20''\<rparr>],
     next_image_id := 3,
     scan_jobs := [sample_job, sample_job\<lparr>j_id := 2, j_image_id := 2, j_priority := 100\<rparr>],
     next_job_id := 3\<rparr>"

lemmas sample_defs = sample_db_def sample_image_def sample_job_def empty_db_def

lemma sample_jobs_ok: "jobs_ok sample_db"
  by (simp add: jobs_ok_def one_active_job_def sample_defs active_def)

lemma enqueue_refines_insert_if_absent_witness:
  "\<exists>d'. enqueue 1 0 None 5 5 sample_db = Inr (d', False) \<and> active_job_of d' = active_job_of sample_db"
  using enqueue_refines_insert_if_absent [OF sample_jobs_ok, of 1 0 None 5 5]
  by (auto simp: active_job_of_def sample_defs active_def)

definition promoted_job :: "time \<Rightarrow> scan_job \<Rightarrow> scan_job" where
  "promoted_job now j = j\<lparr>j_priority := PRIORITY_TIME_SENSITIVE, j_scheduled_for := now\<rparr>"

lemma promoted_ids:
  assumes "jobs_ok d"
  shows "map j_id (filter (promotable k) (scan_jobs d))
    = (case active_job_of d k of None \<Rightarrow> [] | Some j \<Rightarrow> if promotable k j then [j_id j] else [])"
proof (cases "\<exists>j. active_job_of d k = Some j \<and> promotable k j")
  case True
  then obtain j where j: "active_job_of d k = Some j" "promotable k j" by blast
  then have "j \<in> set (filter (promotable k) (scan_jobs d))"
    by (simp add: active_job_of_Some_iff [OF assms])
  moreover obtain ids where "map j_id (filter (promotable k) (scan_jobs d)) = ids" "length ids \<le> 1"
    using scalar_one_of_promotable [OF assms] by blast
  ultimately have "filter (promotable k) (scan_jobs d) = [j]"
    by (cases "filter (promotable k) (scan_jobs d)") auto
  with j show ?thesis by simp
next
  case False
  then have "filter (promotable k) (scan_jobs d) = []"
    by (auto simp: filter_empty_conv active_job_of_Some_iff [OF assms] promotable_def active_def)
  with False show ?thesis by (auto split: option.splits)
qed

lemma promote_statement_jobs:
  assumes "jobs_ok d"
  shows "active_job_of (fst (build_promote_statement k now d))
    = (active_job_of d)(k := map_option (\<lambda>j. if promotable k j then promoted_job now j else j) (active_job_of d k))"
proof
  fix k'
  let ?f = "\<lambda>j. if promotable k j then promoted_job now j else j"
  have "find (\<lambda>j. active j \<and> j_image_id j = k') (update_rows (promotable k) (promoted_job now) xs) =
      map_option ?f (find (\<lambda>j. active j \<and> j_image_id j = k') xs)" for xs
    by (induction xs) (auto simp: active_def promoted_job_def)
  then have "active_job_of (fst (build_promote_statement k now d)) k' = map_option ?f (active_job_of d k')"
    by (simp add: active_job_of_def build_promote_statement_def promoted_job_def [abs_def])
  moreover have "map_option ?f (active_job_of d k') = active_job_of d k'" if "k' \<noteq> k"
  proof (cases "active_job_of d k'")
    case None
    then show ?thesis by simp
  next
    case (Some j)
    then have "j_image_id j = k'" by (simp add: active_job_of_Some_iff [OF assms])
    with that Some show ?thesis by (simp add: promotable_def)
  qed
  ultimately show "active_job_of (fst (build_promote_statement k now d)) k'
      = ((active_job_of d)(k := map_option ?f (active_job_of d k))) k'" by simp
qed

text \<open>Promotion never sees more than one row: it reports True exactly when the image's
  active job is pending below the time-sensitive priority, and then that job (and no other
  image's) moves to the time-sensitive lane, due at once.\<close>

theorem promote_refines_update:
  assumes "jobs_ok d"
  shows "\<exists>d' promoted. promote k now d = Inr (d', promoted) \<and> jobs_ok d' \<and>
    (promoted \<longleftrightarrow> (\<exists>j. active_job_of d k = Some j \<and> promotable k j)) \<and>
    active_job_of d' =
      (if promoted
       then (active_job_of d)(k := map_option
         (\<lambda>j. j\<lparr>j_priority := PRIORITY_TIME_SENSITIVE, j_scheduled_for := now\<rparr>) (active_job_of d k))
       else active_job_of d)"
proof -
  have run: "snd (build_promote_statement k now d) = map j_id (filter (promotable k) (scan_jobs d))"
    by (simp add: build_promote_statement_def)
  show ?thesis
  proof (cases "\<exists>j. active_job_of d k = Some j \<and> promotable k j")
    case True
    then obtain j where "active_job_of d k = Some j" "promotable k j" by blast
    with prom.keeps_jobs [OF assms, of k now] run promoted_ids [OF assms, of k] promote_statement_jobs [OF assms, of k now]
    show ?thesis
      by (intro exI [of _ "fst (build_promote_statement k now d)"] exI [of _ True])
         (simp add: promote_def promoted_job_def split_beta del: fun_upd_apply)
  next
    case False
    then have "map_option (\<lambda>j. if promotable k j then promoted_job now j else j) (active_job_of d k) = active_job_of d k"
      by (cases "active_job_of d k") simp_all
    with False prom.keeps_jobs [OF assms, of k now] run promoted_ids [OF assms, of k] promote_statement_jobs [OF assms, of k now]
    show ?thesis
      by (intro exI [of _ "fst (build_promote_statement k now d)"] exI [of _ False])
         (auto simp: promote_def fun_upd_idem split_beta split: option.splits)
  qed
qed

lemma promote_refines_update_witness:
  "\<exists>d'. promote 1 9 sample_db = Inr (d', True) \<and>
     active_job_of d' 1 = Some (sample_job\<lparr>j_priority := 100, j_scheduled_for := 9\<rparr>)"
proof -
  have a: "active_job_of sample_db 1 = Some sample_job"
    by (simp add: active_job_of_def active_def sample_db_def sample_job_def)
  have p: "promotable 1 sample_job"
    by (simp add: promotable_def PRIORITY_TIME_SENSITIVE_def sample_job_def)
  show ?thesis
    using promote_refines_update [OF sample_jobs_ok, of 1 9] a p
    by (auto simp: PRIORITY_TIME_SENSITIVE_def)
qed

section \<open>Claiming\<close>

lemma claim_SomeD:
  assumes "jobs_ok d" "claim locked ts now lease_s d = (d', Some job)"
  obtains j where "j \<in> set (scan_jobs d)" "claimable locked ts j"
    "\<And>k. k \<in> set (scan_jobs d) \<Longrightarrow> claimable locked ts k \<Longrightarrow> claim_order j \<le> claim_order k"
    "job = j\<lparr>j_status := RUNNING, j_lease_until := Some (now + seconds lease_s)\<rparr>"
    "scan_jobs d' = update_rows (\<lambda>r. j_id r = j_id j) (\<lambda>_. job) (scan_jobs d)"
proof -
  from assms(2) obtain j where n: "next_claimable locked ts d = Some j"
    and job: "job = j\<lparr>j_status := RUNNING, j_lease_until := Some (now + seconds lease_s)\<rparr>"
    and d': "scan_jobs d' = update_rows (\<lambda>r. j_id r = j_id j) (merge_job j job) (scan_jobs d)"
    by (auto simp: claim_def Let_def split: option.splits)
  have "merge_job j job r = job" if "r \<in> set (scan_jobs d)" "j_id r = j_id j" for r
  proof -
    have "r = j"
      using that next_claimable_SomeD(1) [OF n] unique_onD [of j_id "scan_jobs d" r j] assms(1)
      by (simp add: jobs_ok_def)
    then show ?thesis
      by (simp add: job)
  qed
  then have "scan_jobs d' = update_rows (\<lambda>r. j_id r = j_id j) (\<lambda>_. job) (scan_jobs d)"
    unfolding d' update_rows_def by auto
  with job next_claimable_SomeD [OF n] that show ?thesis by blast
qed

text \<open>C7. A claim returns nothing exactly when no unlocked pending job is due; otherwise it takes
  a due job of the highest priority and, among those, one scheduled earliest, marks it
  running with a lease, and leaves every other row as it was.\<close>

theorem claim_takes_most_urgent_due_job:
  assumes "jobs_ok d" and "claim locked ts now lease_s d = (d', r)"
  shows "(r = None \<longleftrightarrow> (\<forall>j \<in> set (scan_jobs d). \<not> claimable locked ts j)) \<and>
    (r = None \<longrightarrow> d' = d) \<and>
    (\<forall>job. r = Some job \<longrightarrow>
      (\<exists>j \<in> set (scan_jobs d). claimable locked ts j \<and>
         job = j\<lparr>j_status := RUNNING, j_lease_until := Some (now + seconds lease_s)\<rparr> \<and>
         (\<forall>k \<in> set (scan_jobs d). claimable locked ts k \<longrightarrow>
            j_priority k < j_priority j \<or>
            j_priority k = j_priority j \<and> j_scheduled_for j \<le> j_scheduled_for k) \<and>
         set (scan_jobs d') = insert job (set (scan_jobs d) - {j})))"
proof (cases r)
  case None
  with assms(2) have "next_claimable locked ts d = None" "d' = d"
    by (auto simp: claim_def Let_def split: option.splits)
  with None show ?thesis by (simp add: next_claimable_None_iff)
next
  case (Some job)
  with assms obtain j where j: "j \<in> set (scan_jobs d)" "claimable locked ts j"
    and le: "\<And>k. k \<in> set (scan_jobs d) \<Longrightarrow> claimable locked ts k \<Longrightarrow> claim_order j \<le> claim_order k"
    and job: "job = j\<lparr>j_status := RUNNING, j_lease_until := Some (now + seconds lease_s)\<rparr>"
    and d': "scan_jobs d' = update_rows (\<lambda>r. j_id r = j_id j) (\<lambda>_. job) (scan_jobs d)"
    by (blast elim: claim_SomeD)
  have "r = j" if "r \<in> set (scan_jobs d)" "j_id r = j_id j" for r
    using that j(1) unique_onD [of j_id "scan_jobs d" r j] assms(1) by (simp add: jobs_ok_def)
  then have "set (scan_jobs d') = insert job (set (scan_jobs d) - {j})"
    using j(1) unfolding d' set_update_rows by auto
  moreover have "j_priority k < j_priority j \<or>
      j_priority k = j_priority j \<and> j_scheduled_for j \<le> j_scheduled_for k"
    if "k \<in> set (scan_jobs d)" "claimable locked ts k" for k
    using le [OF that] by (auto simp: claim_order_def)
  ultimately show ?thesis
    using Some j job by auto
qed

lemma claim_takes_most_urgent_due_job_witness:
  "\<exists>d'. claim [] 10 10 1200 sample_db = (d', Some
      (sample_job\<lparr>j_id := 2, j_image_id := 2, j_priority := 100, j_status := RUNNING,
                  j_lease_until := Some 1200000010\<rparr>))"
proof -
  obtain d' r where c: "claim [] 10 10 1200 sample_db = (d', r)" by fastforce
  have "r \<noteq> None"
    using claim_takes_most_urgent_due_job [OF sample_jobs_ok c]
    by (auto simp: sample_defs claimable_def)
  then obtain job where r: "r = Some job" by auto
  have "job = sample_job\<lparr>j_id := 2, j_image_id := 2, j_priority := 100, j_status := RUNNING,
                  j_lease_until := Some 1200000010\<rparr>"
    using claim_takes_most_urgent_due_job [OF sample_jobs_ok c] r
    by (auto simp: sample_defs claimable_def seconds_def)
  with c r show ?thesis by simp
qed

text \<open>Two claims never return the same job: neither when the second runs while the first
  still holds its row lock (SKIP LOCKED, so it reads the same table but passes over the
  locked row), nor when it runs after the first has committed.\<close>

theorem claims_are_disjoint:
  assumes "jobs_ok d" and "claim locked ts now lease_s d = (d1, Some a)"
  shows "(\<forall>ts' now' lease' d2 b.
      claim (j_id a # locked) ts' now' lease' d = (d2, Some b) \<longrightarrow> j_id b \<noteq> j_id a) \<and>
    (\<forall>locked' ts' now' lease' d3 c.
      claim locked' ts' now' lease' d1 = (d3, Some c) \<longrightarrow> j_id c \<noteq> j_id a)"
proof (intro conjI allI impI)
  fix ts' now' lease' d2 b
  assume b: "claim (j_id a # locked) ts' now' lease' d = (d2, Some b)"
  obtain j where "claimable (j_id a # locked) ts' j" "j_id b = j_id j"
    by (rule claim_SomeD [OF assms(1) b]) auto
  then show "j_id b \<noteq> j_id a" by (auto simp: claimable_def)
next
  fix locked' ts' now' lease' d3 c
  assume c: "claim locked' ts' now' lease' d1 = (d3, Some c)"
  have ok: "jobs_ok d1"
    using clm.keeps_jobs [OF assms(1), of locked ts now lease_s] by (simp add: assms(2))
  obtain k where k: "k \<in> set (scan_jobs d1)" "claimable locked' ts' k" "j_id c = j_id k"
    by (rule claim_SomeD [OF ok c]) auto
  obtain j0 where a: "a = j0\<lparr>j_status := RUNNING, j_lease_until := Some (now + seconds lease_s)\<rparr>"
      and d1: "scan_jobs d1 = update_rows (\<lambda>r. j_id r = j_id j0) (\<lambda>_. a) (scan_jobs d)"
    using assms by (blast elim: claim_SomeD)
  have j: "j_id a = j_id j0" "j_status a = RUNNING"
      "scan_jobs d1 = update_rows (\<lambda>r. j_id r = j_id j0) (\<lambda>_. a) (scan_jobs d)"
    using d1 by (simp_all add: a)
  have "k = a" if "j_id k = j_id a"
    using k(1) that j(1) unfolding j(3) set_update_rows by auto
  with k(2,3) j(2) show "j_id c \<noteq> j_id a" by (auto simp: claimable_def)
qed

lemma claims_are_disjoint_witness:
  "\<exists>d1 a d3 c. claim [] 10 10 1200 sample_db = (d1, Some a) \<and>
     claim [] 10 10 1200 d1 = (d3, Some c) \<and> j_id c \<noteq> j_id a"
proof -
  have eval: "claim [] 10 10 1200 sample_db = (d1, Some a) \<Longrightarrow> \<exists>d3 c. claim [] 10 10 1200 d1 = (d3, Some c)" for d1 a
    by (auto simp: claim_def next_claimable_def sample_defs claimable_def claim_order_def
        merge_job_def pick_def Let_def)
  obtain d1 a where c1: "claim [] 10 10 1200 sample_db = (d1, Some a)"
    using claim_takes_most_urgent_due_job_witness by blast
  then obtain d3 c where c2: "claim [] 10 10 1200 d1 = (d3, Some c)"
    using eval by blast
  show ?thesis
    using c1 c2 claims_are_disjoint [OF sample_jobs_ok c1] by blast
qed

section \<open>The life of a job\<close>

text \<open>What can become of an attempt at a job: it is completed (\<open>complete\<close>), it fails with an
  error (\<open>fail\<close> with the allowance of the settings), it finds that the image does not exist
  (\<open>fail\<close> with an allowance of 1, as \<open>run_once\<close> passes it for ImageNotFound), its worker dies
  and the lease is reaped (\<open>reap_job\<close>), or the registry throttles it (\<open>defer_job\<close>). The next
  outcome belongs to the next claim, and only a pending job is claimed.\<close>

datatype attempt_outcome =
    AttemptCompletes
  | AttemptFails string time
  | ImageMissing string time
  | WorkerDies
  | RegistryThrottles int string time

fun counted :: "attempt_outcome \<Rightarrow> bool" where
  "counted AttemptCompletes = False"
| "counted (AttemptFails _ _) = True"
| "counted (ImageMissing _ _) = True"
| "counted WorkerDies = True"
| "counted (RegistryThrottles _ _ _) = False"

fun closing :: "attempt_outcome \<Rightarrow> job_status option" where
  "closing AttemptCompletes = Some DONE"
| "closing (ImageMissing _ _) = Some FAILED"
| "closing _ = None"

fun attempt_step :: "int \<Rightarrow> int \<Rightarrow> int \<Rightarrow> attempt_outcome \<Rightarrow> scan_job \<Rightarrow> scan_job" where
  "attempt_step m b c AttemptCompletes j = complete j"
| "attempt_step m b c (AttemptFails e now) j = fail j e m b c now"
| "attempt_step m b c (ImageMissing e now) j = fail j e 1 b c now"
| "attempt_step m b c WorkerDies j = reap_job m j"
| "attempt_step m b c (RegistryThrottles delay why now) j = defer_job j delay why now"

fun job_life :: "int \<Rightarrow> int \<Rightarrow> int \<Rightarrow> attempt_outcome list \<Rightarrow> scan_job \<Rightarrow> scan_job" where
  "job_life m b c [] j = j"
| "job_life m b c (e # es) j =
     (if j_status j = PENDING
      then job_life m b c es (attempt_step m b c e (j\<lparr>j_status := RUNNING\<rparr>)) else j)"

lemma attempt_step_facts:
  assumes "0 \<le> j_attempts j"
  shows "j_attempts (attempt_step m b c e j) = j_attempts j + (if counted e then 1 else 0)"
    and "j_status (attempt_step m b c e j) =
     (case closing e of Some final \<Rightarrow> final
      | None \<Rightarrow> if counted e \<and> m \<le> j_attempts j + 1 then FAILED else PENDING)"
  using assms by (cases e; simp add: complete_def fail_def reap_job_def defer_job_def Let_def)+

lemma life_over: "j_status j \<noteq> PENDING \<Longrightarrow> job_life m b c es j = j"
  by (cases es) simp_all

text \<open>C31. A pending job fails for good exactly when the attempts that count (reported failures and
  deaths of the worker alike) reach max_attempts before any attempt completes or finds the
  image missing, or when an attempt finds the image missing before that. It is done exactly when
  an attempt completes first, and otherwise pending again. Throttled attempts never count,
  however they are mixed with the others, and no job has more than max_attempts of those
  that do, so none is retried for ever.\<close>

theorem job_gives_up_iff_allowance_spent:
  assumes "j_status j = PENDING" "0 \<le> j_attempts j" "j_attempts j < m"
  defines "spent \<equiv> \<lambda>es. j_attempts j + int (length (filter counted (takeWhile (\<lambda>e. closing e = None) es)))"
    and "rest \<equiv> dropWhile (\<lambda>e. closing e = None)"
  shows "j_status (job_life m b c es j) =
      (if m \<le> spent es then FAILED
       else case rest es of [] \<Rightarrow> PENDING | e # _ \<Rightarrow> the (closing e)) \<and>
    j_attempts (job_life m b c es j) =
      (if m \<le> spent es then m
       else spent es + (case rest es of [] \<Rightarrow> 0 | e # _ \<Rightarrow> if counted e then 1 else 0)) \<and>
    j_attempts (job_life m b c es j) \<le> m"
  using assms(1-3) unfolding spent_def rest_def
proof (induction es arbitrary: j)
  case Nil
  then show ?case by simp
next
  case (Cons e es)
  let ?j = "attempt_step m b c e (j\<lparr>j_status := RUNNING\<rparr>)"
  have step: "j_attempts ?j = j_attempts j + (if counted e then 1 else 0)"
    "j_status ?j = (case closing e of Some final \<Rightarrow> final
      | None \<Rightarrow> if counted e \<and> m \<le> j_attempts j + 1 then FAILED else PENDING)"
    using attempt_step_facts [of "j\<lparr>j_status := RUNNING\<rparr>" m b c e] Cons.prems(2) by (simp_all cong: option.case_cong)
  show ?case
  proof (cases "closing e")
    case (Some final)
    then have "final = DONE \<or> final = FAILED" by (cases e) auto
    with Some step Cons.prems life_over [of ?j m b c es] show ?thesis by auto
  next
    case None
    show ?thesis
    proof (cases "counted e \<and> m \<le> j_attempts j + 1")
      case True
      with None step Cons.prems life_over [of ?j m b c es] show ?thesis by auto
    next
      case False
      with None step Cons.prems have "j_status ?j = PENDING" "0 \<le> j_attempts ?j" "j_attempts ?j < m"
        by (auto split: if_splits)
      from Cons.IH [OF this] Cons.prems None step show ?thesis by (auto simp: algebra_simps)
    qed
  qed
qed

lemma job_gives_up_iff_allowance_spent_witness:
  "j_status (job_life 2 30 3600 [AttemptFails ''x'' 0, RegistryThrottles 60 ''429'' 5, WorkerDies] sample_job) = FAILED \<and>
   j_status (job_life 2 30 3600 [RegistryThrottles 60 ''429'' 5, ImageMissing ''404'' 9] sample_job) = FAILED \<and>
   j_status (job_life 2 30 3600 [AttemptFails ''x'' 0, AttemptCompletes, WorkerDies] sample_job) = DONE"
  using job_gives_up_iff_allowance_spent [of sample_job 2 30 3600
      "[AttemptFails ''x'' 0, RegistryThrottles 60 ''429'' 5, WorkerDies]"]
    job_gives_up_iff_allowance_spent [of sample_job 2 30 3600 "[RegistryThrottles 60 ''429'' 5, ImageMissing ''404'' 9]"]
    job_gives_up_iff_allowance_spent [of sample_job 2 30 3600 "[AttemptFails ''x'' 0, AttemptCompletes, WorkerDies]"]
  by (simp add: sample_job_def)

text \<open>A failed attempt below the limit is retried after a delay that is at least the base
  (when the ceiling allows it), at most the ceiling, doubles from one failure to the next
  until it meets the ceiling, and is the only thing that moves the schedule.\<close>

theorem retry_backoff_doubles_up_to_ceiling:
  fixes now :: time and e :: string and m b c :: int and j :: scan_job
  assumes "0 \<le> j_attempts j" "j_attempts j + 2 < m" "0 < b" "b \<le> c"
  defines "delay \<equiv> \<lambda>k. j_scheduled_for (fail k e m b c now) - now"
  shows "j_status (fail j e m b c now) = PENDING \<and>
    seconds b \<le> delay j \<and> delay j \<le> seconds c \<and>
    delay (fail j e m b c now) = min (2 * delay j) (seconds c)"
proof -
  have att: "nat (1 + j_attempts j) = Suc (nat (j_attempts j))"
    using assms(1) by simp
  have d1: "delay j = seconds (min (b * 2 ^ nat (j_attempts j)) c)"
    using assms(1,2) by (simp add: delay_def fail_def Let_def)
  have d2: "delay (fail j e m b c now) = seconds (min (b * 2 ^ Suc (nat (j_attempts j))) c)"
    using assms(1,2) by (simp add: delay_def fail_def Let_def att)
  have p: "1 \<le> (2::int) ^ nat (j_attempts j)" by simp
  then have "b \<le> b * 2 ^ nat (j_attempts j)"
    using assms(3) mult_left_mono [OF p, of b] by simp
  then have bounds: "seconds b \<le> delay j" "delay j \<le> seconds c"
    unfolding d1 using assms(4) by auto
  have "delay (fail j e m b c now) = min (2 * delay j) (seconds c)"
    unfolding d1 d2 using assms(3,4) by (auto simp: seconds_def min_def)
  with bounds show ?thesis
    using assms(1,2) by (simp add: fail_def Let_def)
qed

lemma retry_backoff_doubles_up_to_ceiling_witness:
  "j_scheduled_for (fail (fail sample_job ''x'' 5 30 3600 0) ''x'' 5 30 3600 0) =
     2 * j_scheduled_for (fail sample_job ''x'' 5 30 3600 0)"
  using retry_backoff_doubles_up_to_ceiling [of sample_job 5 30 3600 "''x''" 0]
  by (simp add: sample_job_def fail_def seconds_def)

section \<open>Reaping\<close>

text \<open>A reap changes exactly the running jobs whose lease had passed: each of them is
  reported once, has one more attempt and no lease, and is pending or (iff reported
  exhausted) failed; every other row is as before, and no job is left expired.\<close>

theorem reap_is_exact:
  assumes "jobs_ok d" and "reap_expired_leases m ts d = (d', reaped)"
  shows "jobs_ok d' \<and> (\<forall>j \<in> set (scan_jobs d'). \<not> expired ts j) \<and>
    map rj_job_id reaped = map j_id (filter (expired ts) (scan_jobs d)) \<and>
    (\<forall>j \<in> set (scan_jobs d). \<not> expired ts j \<longrightarrow> j \<in> set (scan_jobs d')) \<and>
    (\<forall>e \<in> set reaped. \<exists>j \<in> set (scan_jobs d). \<exists>j' \<in> set (scan_jobs d').
        expired ts j \<and> j_id j = rj_job_id e \<and> j_image_id j = rj_image_id e \<and>
        j' = reap_job m j \<and> (rj_exhausted e \<longleftrightarrow> j_status j' = FAILED))"
proof -
  have d': "d' = d\<lparr>scan_jobs := update_rows (expired ts) (reap_job m) (scan_jobs d)\<rparr>"
    and r: "reaped = map (\<lambda>j. \<lparr>rj_job_id = j_id j, rj_image_id = j_image_id j,
                 rj_exhausted = (j_status (reap_job m j) = FAILED)\<rparr>)
          (filter (expired ts) (scan_jobs d))"
    using assms(2) by (simp_all add: reap_expired_leases_def)
  have "jobs_ok d'"
    using reap.keeps_jobs [OF assms(1), of m ts] assms(2) by simp
  moreover have "\<forall>j \<in> set (scan_jobs d'). \<not> expired ts j"
    by (auto simp: d' set_update_rows exit_reap.not_expired)
  moreover have "map rj_job_id reaped = map j_id (filter (expired ts) (scan_jobs d))"
    by (simp add: r)
  moreover have "\<forall>j \<in> set (scan_jobs d). \<not> expired ts j \<longrightarrow> j \<in> set (scan_jobs d')"
    by (simp add: d' set_update_rows)
  moreover have "\<forall>e \<in> set reaped. \<exists>j \<in> set (scan_jobs d). \<exists>j' \<in> set (scan_jobs d').
        expired ts j \<and> j_id j = rj_job_id e \<and> j_image_id j = rj_image_id e \<and>
        j' = reap_job m j \<and> (rj_exhausted e \<longleftrightarrow> j_status j' = FAILED)"
    by (fastforce simp: d' r set_update_rows)
  ultimately show ?thesis by blast
qed

definition reapable_db :: db where
  "reapable_db = sample_db\<lparr>scan_jobs :=
     [sample_job\<lparr>j_status := RUNNING, j_lease_until := Some 7, j_attempts := 4\<rparr>]\<rparr>"

lemma reap_is_exact_witness:
  "\<exists>d' e. reap_expired_leases 5 10 reapable_db = (d', [e]) \<and> rj_exhausted e \<and>
     (\<forall>j. j \<in> set (scan_jobs d') \<longrightarrow> \<not> expired 10 j)"
proof -
  have ok: "jobs_ok reapable_db"
    by (simp add: reapable_db_def sample_defs jobs_ok_def one_active_job_def active_def)
  obtain d' r where e: "reap_expired_leases 5 10 reapable_db = (d', r)" by fastforce
  have "r = [\<lparr>rj_job_id = 1, rj_image_id = 1, rj_exhausted = True\<rparr>]"
    using e by (auto simp: reap_expired_leases_def reapable_db_def sample_defs expired_def reap_job_def)
  with e reap_is_exact [OF ok e] show ?thesis by auto
qed

section \<open>Promotion and backpressure\<close>

text \<open>Promotion does not respect a deferral: a job put back because its registry
  throttled us, and so not claimable until the registry's delay has passed, is claimable
  at once after a time-sensitive request for its image.\<close>

theorem promotion_cancels_deferral:
  assumes "j \<in> set (scan_jobs d)" "j = defer_job j0 delay reason t"
    and "j_priority j < PRIORITY_TIME_SENSITIVE" "j_id j \<notin> set locked"
    and "now \<le> ts" "ts < t + seconds delay"
  shows "\<not> claimable locked ts j \<and>
    (\<exists>j' \<in> set (scan_jobs (fst (build_promote_statement (j_image_id j) now d))).
       j_id j' = j_id j \<and> claimable locked ts j')"
proof
  show "\<not> claimable locked ts j"
    using assms(2,6) by (simp add: claimable_def defer_job_def)
  let ?j = "j\<lparr>j_priority := PRIORITY_TIME_SENSITIVE, j_scheduled_for := now\<rparr>"
  have p: "promotable (j_image_id j) j"
    using assms(2,3) by (simp add: promotable_def defer_job_def)
  have "?j \<in> set (scan_jobs (fst (build_promote_statement (j_image_id j) now d)))"
    using assms(1) p by (auto simp: build_promote_statement_def set_update_rows)
  moreover have "claimable locked ts ?j"
    using assms(2,4,5) by (simp add: claimable_def defer_job_def)
  ultimately show "\<exists>j' \<in> set (scan_jobs (fst (build_promote_statement (j_image_id j) now d))).
       j_id j' = j_id j \<and> claimable locked ts j'"
    by (intro bexI [of _ ?j]) simp_all
qed

lemma promotion_cancels_deferral_witness:
  "\<exists>j'. j' \<in> set (scan_jobs (fst (build_promote_statement 1 20
       (sample_db\<lparr>scan_jobs := [defer_job sample_job 300 ''429'' 10]\<rparr>)))) \<and> claimable [] 20 j'"
  using promotion_cancels_deferral [of "defer_job sample_job 300 ''429'' 10"
      "sample_db\<lparr>scan_jobs := [defer_job sample_job 300 ''429'' 10]\<rparr>"
      sample_job 300 "''429''" 10 "[]" 20 20]
  by (auto simp: sample_job_def defer_job_def PRIORITY_TIME_SENSITIVE_def seconds_def)

section \<open>The scheduler's advisory lock\<close>

datatype lock_op = Lock int | Unlock int

fun lock_op_conn :: "lock_op \<Rightarrow> int" where
  "lock_op_conn (Lock c) = c"
| "lock_op_conn (Unlock c) = c"

fun lock_run :: "lock_op list \<Rightarrow> advisory_lock \<Rightarrow> advisory_lock" where
  "lock_run [] l = l"
| "lock_run (Lock c # ops) l = lock_run ops (fst (try_scheduler_lock c l))"
| "lock_run (Unlock c # ops) l = lock_run ops (release_scheduler_lock c l)"

lemma others_leave_lock: "c \<notin> lock_op_conn ` set ops \<Longrightarrow> lock_run ops (Some (c, n)) = Some (c, n)"
proof (induction ops)
  case (Cons op ops)
  then show ?case
    by (cases op) (auto simp: try_scheduler_lock_def release_scheduler_lock_def)
qed simp

text \<open>Only one scheduler holds the lock: once a connection has taken it, whatever other
  connections try, every attempt of theirs fails until the holder itself unlocks.\<close>

theorem scheduler_lock_exclusive:
  assumes "try_scheduler_lock c l = (l1, True)" and "c \<notin> lock_op_conn ` set ops" and "c' \<noteq> c"
  shows "try_scheduler_lock c' (lock_run ops l1) = (lock_run ops l1, False)"
proof -
  from assms(1) obtain n where "l1 = Some (c, n)"
    by (auto simp: try_scheduler_lock_def split: option.splits if_splits)
  with assms(2,3) show ?thesis
    by (simp add: others_leave_lock try_scheduler_lock_def)
qed

lemma scheduler_lock_exclusive_witness:
  "try_scheduler_lock 2 (lock_run [Unlock 3, Lock 2] (Some (1, 1)))
     = (lock_run [Unlock 3, Lock 2] (Some (1, 1)), False)"
proof -
  have "try_scheduler_lock 1 None = (Some (1, 1), True)"
    by (simp add: try_scheduler_lock_def)
  then show ?thesis
    by (rule scheduler_lock_exclusive) simp_all
qed

section \<open>Draining the queue\<close>

text \<open>Workers claiming one after the other at one moment, until nothing is left or \<open>n\<close> have claimed.\<close>

fun drain :: "nat \<Rightarrow> int list \<Rightarrow> time \<Rightarrow> time \<Rightarrow> int \<Rightarrow> db \<Rightarrow> db \<times> scan_job list" where
  "drain 0 locked ts now lease d = (d, [])"
| "drain (Suc n) locked ts now lease d =
     (case claim locked ts now lease d of
        (d', None) \<Rightarrow> (d', [])
      | (d', Some j) \<Rightarrow> (let (d'', js) = drain n locked ts now lease d' in (d'', j # js)))"

lemma claim_leaves_rest:
  assumes "jobs_ok d" "claim locked ts now lease d = (d', Some j)"
  shows "\<exists>c rest. sort_key claim_order (filter (claimable locked ts) (scan_jobs d)) = c # rest \<and> j_id j = j_id c \<and>
    sort_key claim_order (filter (claimable locked ts) (scan_jobs d')) = rest"
proof -
  have uniq: "unique_on j_id (scan_jobs d)" using assms(1) by (simp add: jobs_ok_def)
  let ?due = "filter (claimable locked ts) (scan_jobs d)"
  from assms(2) obtain c where c: "next_claimable locked ts d = Some c"
    "j = c\<lparr>j_status := RUNNING, j_lease_until := Some (now + seconds lease)\<rparr>"
    "scan_jobs d' = update_rows (\<lambda>r. j_id r = j_id c) (merge_job c j) (scan_jobs d)"
    by (auto simp: claim_def Let_def split: option.splits)
  from c(1) obtain rest where rest: "sort_key claim_order ?due = c # rest"
    by (auto simp: next_claimable_def split: list.splits)
  have mem: "c \<in> set (scan_jobs d)" by (rule next_claimable_SomeD(1) [OF c(1)])
  have "filter (claimable locked ts) (update_rows (\<lambda>r. j_id r = j_id c) (merge_job c j) xs)
      = filter (\<lambda>r. r \<noteq> c) (filter (claimable locked ts) xs)" if "set xs \<subseteq> set (scan_jobs d)" for xs
    using that
  proof (induction xs)
    case Nil
    then show ?case by simp
  next
    case (Cons r xs)
    have "j_id r = j_id c \<longleftrightarrow> r = c" using unique_onD [OF uniq _ mem, of r] Cons.prems by auto
    moreover have "\<not> claimable locked ts (merge_job c j c)" by (simp add: claimable_def c(2))
    ultimately show ?case using Cons by simp
  qed
  then have "sort_key claim_order (filter (claimable locked ts) (scan_jobs d'))
      = filter (\<lambda>r. r \<noteq> c) (sort_key claim_order ?due)"
    unfolding c(3) by (simp add: filter_sort)
  also have "\<dots> = rest"
  proof -
    have "distinct (scan_jobs d)" using uniq by (simp add: distinct_map)
    then have "distinct (c # rest)" unfolding rest [symmetric] by simp
    then have "filter (\<lambda>r. r \<noteq> c) rest = rest" by (auto simp: filter_id_conv)
    then show ?thesis by (simp add: rest)
  qed
  finally show ?thesis using rest c(2) by auto
qed

text \<open>C19. No due job is starved. As many claims as there are due unlocked jobs return every one of
  them exactly once, in order of urgency (priority first, then how long they have been due),
  and leave nothing to claim.\<close>

theorem claims_drain_the_queue:
  assumes "jobs_ok d" and "length (filter (claimable locked ts) (scan_jobs d)) \<le> n"
    and "drain n locked ts now lease d = (d', js)"
  shows "map j_id js = map j_id (sort_key claim_order (filter (claimable locked ts) (scan_jobs d))) \<and>
    next_claimable locked ts d' = None \<and> jobs_ok d'"
  using assms
proof (induction n arbitrary: d js)
  case 0
  then show ?case by (simp add: next_claimable_def)
next
  case (Suc n)
  show ?case
  proof (cases "next_claimable locked ts d")
    case None
    then have "filter (claimable locked ts) (scan_jobs d) = []"
      by (simp add: next_claimable_def split: list.splits)
    with None Suc.prems show ?thesis by (auto simp: claim_def)
  next
    case (Some c)
    then obtain d1 j where cl: "claim locked ts now lease d = (d1, Some j)" by (simp add: claim_def Let_def)
    obtain js' where js: "drain n locked ts now lease d1 = (d', js')" "js = j # js'"
      using Suc.prems(3) cl by (auto split: prod.splits)
    from claim_leaves_rest [OF Suc.prems(1) cl] obtain c rest where
      rest: "sort_key claim_order (filter (claimable locked ts) (scan_jobs d)) = c # rest" "j_id j = j_id c"
        "sort_key claim_order (filter (claimable locked ts) (scan_jobs d1)) = rest" by blast
    have ok: "jobs_ok d1" using clm.keeps_jobs [OF Suc.prems(1), of locked ts now lease] cl by simp
    have "length (filter (claimable locked ts) (scan_jobs d1)) = length rest"
      "length (filter (claimable locked ts) (scan_jobs d)) = Suc (length rest)"
      using arg_cong [OF rest(3), of length] arg_cong [OF rest(1), of length] by simp_all
    with Suc.prems(2) have "length (filter (claimable locked ts) (scan_jobs d1)) \<le> n" by simp
    from Suc.IH [OF ok this js(1)] rest js(2) show ?thesis by simp
  qed
qed

lemma claims_drain_the_queue_witness:
  "\<exists>d' js. drain 2 [] 5 5 9 sample_db = (d', js) \<and> map j_id js = [2, 1] \<and> next_claimable [] 5 d' = None"
proof -
  obtain d' js where run: "drain 2 [] 5 5 9 sample_db = (d', js)" by (metis prod.exhaust)
  have "filter (claimable [] 5) (scan_jobs sample_db) = scan_jobs sample_db" by code_simp
  then have "length (filter (claimable [] 5) (scan_jobs sample_db)) \<le> 2" by (simp add: sample_db_def)
  moreover have "map j_id (sort_key claim_order (filter (claimable [] 5) (scan_jobs sample_db))) = [2, 1]" by code_simp
  ultimately show ?thesis using claims_drain_the_queue [OF sample_jobs_ok _ run] run by simp
qed

end
