(* ===== verification/Errors.thy ===== *)
theory Errors
  imports Models
begin

text \<open>
  The exceptions a scan can raise. \<open>exn_name\<close> and \<open>exn_text\<close> are Python's
  \<open>type(e).__name__\<close> and \<open>str(e)\<close>; the predicates are the isinstance tests of the
  worker's except clauses, which follow the class hierarchies of src/app/registry/digest.py,
  src/app/scanner/trivy.py and src/app/scanner/parser.py. \<open>HTTPError\<close> is httpx's base
  class (the text is the only thing the code uses), \<open>OtherError\<close> any exception outside
  these hierarchies, by class name and text.
\<close>

datatype exn =
    RegistryError string
  | ImageNotFound string
  | RateLimited string "int option"
  | TrivyError string
  | TrivyTimeout string
  | TrivyRateLimited string
  | TrivyReportError string
  | HTTPError string
  | OtherError string string

fun exn_name :: "exn \<Rightarrow> string" where
  "exn_name (RegistryError _) = ''RegistryError''"
| "exn_name (ImageNotFound _) = ''ImageNotFound''"
| "exn_name (RateLimited _ _) = ''RateLimited''"
| "exn_name (TrivyError _) = ''TrivyError''"
| "exn_name (TrivyTimeout _) = ''TrivyTimeout''"
| "exn_name (TrivyRateLimited _) = ''TrivyRateLimited''"
| "exn_name (TrivyReportError _) = ''TrivyReportError''"
| "exn_name (HTTPError _) = ''HTTPError''"
| "exn_name (OtherError n _) = n"

fun exn_text :: "exn \<Rightarrow> string" where
  "exn_text (RegistryError m) = m"
| "exn_text (ImageNotFound m) = m"
| "exn_text (RateLimited m _) = m"
| "exn_text (TrivyError m) = m"
| "exn_text (TrivyTimeout m) = m"
| "exn_text (TrivyRateLimited m) = m"
| "exn_text (TrivyReportError m) = m"
| "exn_text (HTTPError m) = m"
| "exn_text (OtherError _ m) = m"

fun is_registry_error :: "exn \<Rightarrow> bool" where
  "is_registry_error (RegistryError _) = True"
| "is_registry_error (ImageNotFound _) = True"
| "is_registry_error (RateLimited _ _) = True"
| "is_registry_error _ = False"

fun is_image_not_found :: "exn \<Rightarrow> bool" where
  "is_image_not_found (ImageNotFound _) = True"
| "is_image_not_found _ = False"

fun is_trivy_error :: "exn \<Rightarrow> bool" where
  "is_trivy_error (TrivyError _) = True"
| "is_trivy_error (TrivyTimeout _) = True"
| "is_trivy_error (TrivyRateLimited _) = True"
| "is_trivy_error _ = False"

fun is_report_error :: "exn \<Rightarrow> bool" where
  "is_report_error (TrivyReportError _) = True"
| "is_report_error _ = False"

text \<open>\<open>RateLimited\<close> or \<open>TrivyRateLimited\<close>.\<close>

fun is_backpressure :: "exn \<Rightarrow> bool" where
  "is_backpressure (RateLimited _ _) = True"
| "is_backpressure (TrivyRateLimited _) = True"
| "is_backpressure _ = False"

text \<open>\<open>getattr(error, "retry_after", None)\<close>.\<close>

fun retry_after_of :: "exn \<Rightarrow> int option" where
  "retry_after_of (RateLimited _ r) = r"
| "retry_after_of _ = None"

text \<open>What a database refusal looks like to the worker's except clauses.\<close>

definition sql_exn :: "sql_error \<Rightarrow> exn" where
  "sql_exn e = (case e of
     ForeignKeyViolation \<Rightarrow> OtherError ''IntegrityError'' ''''
   | UniqueViolation \<Rightarrow> OtherError ''IntegrityError'' ''''
   | CardinalityViolation \<Rightarrow> OtherError ''ProgrammingError'' ''''
   | DataError \<Rightarrow> OtherError ''DataError'' ''''
   | TooManyParameters \<Rightarrow> OtherError ''OperationalError'' ''''
   | StaleDataError \<Rightarrow> OtherError ''StaleDataError'' ''''
   | ObjectDeletedError \<Rightarrow> OtherError ''ObjectDeletedError'' ''''
   | MultipleResultsFound \<Rightarrow> OtherError ''MultipleResultsFound'' ''''
   | OverflowError \<Rightarrow> OtherError ''OverflowError'' ''date value out of range'')"

lemma backpressure_not_not_found: "is_backpressure e \<Longrightarrow> \<not> is_image_not_found e"
  by (cases e) simp_all

end
