(* ===== verification/Pyfloat.thy ===== *)
theory Pyfloat
  imports Prelude
begin

text \<open>
  The double-precision arithmetic behind \<open>timedelta.total_seconds()\<close>: a division of
  integers correctly rounded to 53 bits (ties to even), kept as an integer over a power of
  two. Only non-negative values below 2 to the 53 are ever formed from the time spans of
  the program, so no exponent overflows and the scale is never negative.
\<close>

text \<open>The number of doublings that bring n / d to at least 2 to the 52.\<close>

function dbl_scale :: "int \<Rightarrow> int \<Rightarrow> nat \<Rightarrow> nat" where
  "dbl_scale n d k = (if n \<le> 0 \<or> 2 ^ 52 * d \<le> n then k else dbl_scale (2 * n) d (Suc k))"
  by pat_completeness auto
termination
  by (relation "measure (\<lambda>(n, d, k). nat (2 ^ 52 * d - n))") auto

declare dbl_scale.simps [simp del]

definition dbl_div :: "int \<Rightarrow> int \<Rightarrow> int \<times> nat" where
  "dbl_div n d =
     (let k = dbl_scale n d 0;
          q = (n * 2 ^ k) div d;
          r = (n * 2 ^ k) mod d
      in (if d < 2 * r \<or> (d = 2 * r \<and> odd q) then q + 1 else q, k))"

text \<open>\<open>int(td.total_seconds())\<close> and \<open>int(td.total_seconds() * 1000)\<close> for a span in
  microseconds; int truncates towards zero.\<close>

definition trunc_seconds :: "time \<Rightarrow> int" where
  "trunc_seconds us = sgn us * (let (m, k) = dbl_div \<bar>us\<bar> 1000000 in m div 2 ^ k)"

definition trunc_millis :: "time \<Rightarrow> int" where
  "trunc_millis us = sgn us *
     (let (m, k) = dbl_div \<bar>us\<bar> 1000000;
          (m', k') = dbl_div (m * 1000) (2 ^ k)
      in m' div 2 ^ k')"

lemma dbl_div_nonneg: "0 \<le> n \<Longrightarrow> 0 < d \<Longrightarrow> dbl_div n d = (m, k) \<Longrightarrow> 0 \<le> m"
  by (auto simp: dbl_div_def Let_def pos_imp_zdiv_nonneg_iff split: if_splits)

lemma dbl_scale_ge: "k \<le> dbl_scale n d k"
proof (induction n d k rule: dbl_scale.induct)
  case (1 n d k)
  then show ?case by (subst dbl_scale.simps) auto
qed

lemma dbl_scale_enough:
  "0 < n \<Longrightarrow> 2 ^ 52 * d \<le> n * 2 ^ (dbl_scale n d k - k)"
proof (induction n d k rule: dbl_scale.induct)
  case (1 n d k)
  show ?case
  proof (cases "2 ^ 52 * d \<le> n")
    case True
    then show ?thesis by (subst dbl_scale.simps) simp
  next
    case False
    with 1 have IH: "2 ^ 52 * d \<le> 2 * n * 2 ^ (dbl_scale (2 * n) d (Suc k) - Suc k)" by simp
    have "dbl_scale (2 * n) d (Suc k) - k = Suc (dbl_scale (2 * n) d (Suc k) - Suc k)"
      using dbl_scale_ge [of "Suc k" "2 * n" d] by simp
    with IH False 1(2) show ?thesis by (subst dbl_scale.simps) simp
  qed
qed

text \<open>Truncating a rounded quotient is the exact floor while the quotient stays below 2 to
  the 34 (544 years in seconds) and the divisor is a million.\<close>

lemma dbl_div_floor:
  assumes n: "0 < n" "n < 2 ^ 34 * 1000000" and m: "dbl_div n 1000000 = (m, k)"
  shows "m div 2 ^ k = n div 1000000"
proof -
  define P :: int where "P = 2 ^ k"
  define q where "q = n div 1000000"
  define r where "r = n mod 1000000"
  have k: "k = dbl_scale n 1000000 0"
    using m by (simp add: dbl_div_def Let_def split: if_splits)
  have "19 \<le> k"
  proof (rule ccontr)
    assume "\<not> 19 \<le> k"
    then have "(2::int) ^ k \<le> 2 ^ 18" by (intro power_increasing) auto
    then have "n * 2 ^ k \<le> n * 2 ^ 18" using n by simp
    moreover have "2 ^ 52 * 1000000 \<le> n * 2 ^ k"
      using dbl_scale_enough [OF n(1), of 1000000 0] by (simp add: k)
    ultimately show False using n(2) by simp
  qed
  then have P: "524288 \<le> P"
    using power_increasing [of 19 k "2::int"] by (simp add: P_def)
  have nq: "n = 1000000 * q + r" "0 \<le> r" "r \<le> 999999"
    using pos_mod_bound [of 1000000 n] by (simp_all add: q_def r_def)
  have rP: "r * P \<le> 1000000 * P - P" "0 \<le> r * P"
    using nq P mult_right_mono [of r 999999 P] by simp_all
  define Q where "Q = (n * P) div 1000000"
  define R where "R = (n * P) mod 1000000"
  have QR: "n * P = 1000000 * Q + R" "0 \<le> R" "R < 1000000"
    by (simp_all add: Q_def R_def)
  have nP: "n * P = 1000000 * (q * P) + r * P"
    by (simp add: nq(1) algebra_simps)
  have mQ: "m = (if 1000000 < 2 * R \<or> (1000000 = 2 * R \<and> odd Q) then Q + 1 else Q)"
    using m by (auto simp: dbl_div_def Let_def k [symmetric] P_def [symmetric] Q_def R_def split: if_splits)
  have eq: "1000000 * Q + R = 1000000 * (q * P) + r * P" using QR(1) nP by linarith
  have "Q \<le> m" "m \<le> Q + 1" "m = Q \<or> 500000 \<le> R" using mQ by (auto split: if_splits)
  then have lo: "q * P \<le> m" and hi: "m < q * P + P"
    using eq QR(2,3) rP P by linarith+
  have "m div P = q"
  proof (rule int_div_pos_eq [where r = "m - P * q"])
    show "m = P * q + (m - P * q)" by simp
    show "0 \<le> m - P * q" using lo by (simp add: algebra_simps)
    show "m - P * q < P" using hi by (simp add: algebra_simps)
  qed
  then show ?thesis by (simp add: P_def q_def)
qed

lemma trunc_seconds_floor: "0 < us \<Longrightarrow> us < 2 ^ 34 * 1000000 \<Longrightarrow> trunc_seconds us = us div 1000000"
  using dbl_div_floor [of us "fst (dbl_div us 1000000)" "snd (dbl_div us 1000000)"]
  by (simp add: trunc_seconds_def case_prod_unfold)

lemma trunc_seconds_nonpos: "us \<le> 0 \<Longrightarrow> trunc_seconds us \<le> 0"
proof (cases "us = 0")
  case False
  obtain m k where mk: "dbl_div \<bar>us\<bar> 1000000 = (m, k)" by (cases "dbl_div \<bar>us\<bar> 1000000")
  then have "0 \<le> m" by (rule dbl_div_nonneg [rotated 2]) simp_all
  then have "0 \<le> m div 2 ^ k" by (simp add: pos_imp_zdiv_nonneg_iff)
  moreover assume "us \<le> 0"
  ultimately show ?thesis using False mk by (simp add: trunc_seconds_def)
qed (simp add: trunc_seconds_def)

end
