(* ===== verification/Registry.thy ===== *)
theory Registry
  imports Errors Pyfloat
begin

text \<open>
  The registry client (src/app/registry/digest.py): reference parsing, the Retry-After
  header in its two forms, the bearer-token challenge, and the resolution of a reference to
  the digest it points at. The HTTP client is a parameter: what a HEAD and a GET return.
\<close>

record http_response =
  status_code :: int
  headers :: "(string \<times> string) list"
  body :: string

text \<open>The client's two calls, by URL, request headers and query parameters; an error is the
  exception httpx raised (\<open>HTTPError\<close> for its own hierarchy).\<close>

record http_client =
  client_head :: "string \<Rightarrow> (string \<times> string) list \<Rightarrow> exn + http_response"
  client_get :: "string \<Rightarrow> (string \<times> string) list \<Rightarrow> (string \<times> string) list \<Rightarrow> exn + http_response"

text \<open>What the code uses of the standard library beyond the functions modelled here: the
  date parser of email.utils (None when it raises; a naive result is its wall clock), the ISO
  8601 reader of datetime (None for a ValueError, otherwise the year field and the value), the
  text of a float, list or dict, the text of a JSONDecodeError, and hashlib's SHA-256 in hex.\<close>

datatype parsed_date = Naive time | Aware time

record stdlib =
  parsedate_to_datetime :: "string \<Rightarrow> parsed_date option"
  fromisoformat :: "string \<Rightarrow> (int \<times> parsed_date) option"
  json_repr :: "json \<Rightarrow> string"
  json_error :: "string \<Rightarrow> string"
  sha256_hex :: "string \<Rightarrow> string"

text \<open>\<open>if when.tzinfo is None: when = when.replace(tzinfo=UTC)\<close>.\<close>

fun as_utc :: "parsed_date \<Rightarrow> time" where
  "as_utc (Naive t) = t"
| "as_utc (Aware t) = t"

text \<open>\<open>response.headers.get(name)\<close>: case-insensitive, repeated headers joined.\<close>

definition get_header :: "string \<Rightarrow> http_response \<Rightarrow> string option" where
  "get_header name r =
     (case filter (\<lambda>(k, v). lower k = lower name) (headers r) of
        [] \<Rightarrow> None
      | kvs \<Rightarrow> Some (join '', '' (map snd kvs)))"

text \<open>\<open>str(v)\<close>, also what an f-string writes.\<close>

fun py_str :: "stdlib \<Rightarrow> json \<Rightarrow> string" where
  "py_str lib (JStr s) = s"
| "py_str lib (JInt n) = str_of_int n"
| "py_str lib (JBool b) = (if b then ''True'' else ''False'')"
| "py_str lib JNull = ''None''"
| "py_str lib v = json_repr lib v"

section \<open>References\<close>

definition DOCKER_HUB_HOST :: string where
  "DOCKER_HUB_HOST = ''registry-1.docker.io''"

definition MANIFEST_ACCEPT :: string where
  "MANIFEST_ACCEPT = join '', ''
     [''application/vnd.docker.distribution.manifest.list.v2+json'',
      ''application/vnd.docker.distribution.manifest.v2+json'',
      ''application/vnd.oci.image.index.v1+json'',
      ''application/vnd.oci.image.manifest.v1+json'']"

record image_reference =
  ref_host :: string
  ref_repository :: string
  ref_tag :: string

definition parse_reference :: "string \<Rightarrow> string \<Rightarrow> image_reference" where
  "parse_reference name tag =
     (let (head, rest) = partition_at (CHR ''/'') name
      in if rest \<noteq> [] \<and> (CHR ''.'' \<in> set head \<or> CHR '':'' \<in> set head \<or> head = ''localhost'')
         then \<lparr>ref_host = head, ref_repository = rest, ref_tag = tag\<rparr>
         else (let repository = (if CHR ''/'' \<in> set name then name else ''library/'' @ name)
               in \<lparr>ref_host = DOCKER_HUB_HOST, ref_repository = repository, ref_tag = tag\<rparr>))"

section \<open>Retry-After\<close>

definition parse_retry_after :: "stdlib \<Rightarrow> time \<Rightarrow> string option \<Rightarrow> int option" where
  "parse_retry_after lib now raw =
     (case raw of
        None \<Rightarrow> None
      | Some r \<Rightarrow>
          if r = [] then None
          else (let value = strip r
                in case parse_int value of
                     Some n \<Rightarrow> Some (max 0 n)
                   | None \<Rightarrow>
                       (case parsedate_to_datetime lib value of
                          None \<Rightarrow> None
                        | Some when \<Rightarrow> Some (max 0 (trunc_seconds (as_utc when - now))))))"

section \<open>The bearer-token challenge\<close>

text \<open>The word characters of the pattern.\<close>

definition is_word :: "char \<Rightarrow> bool" where
  "is_word c = (let n = code c in
     (48 \<le> n \<and> n \<le> 57) \<or> (65 \<le> n \<and> n \<le> 90) \<or> n = 95 \<or> (97 \<le> n \<and> n \<le> 122) \<or>
     n = 170 \<or> n = 178 \<or> n = 179 \<or> n = 181 \<or> n = 185 \<or> n = 186 \<or> (188 \<le> n \<and> n \<le> 190) \<or>
     (192 \<le> n \<and> n \<le> 255 \<and> n \<noteq> 215 \<and> n \<noteq> 247))"

definition challenge_match :: "string \<Rightarrow> (string \<times> string \<times> string) option" where
  "challenge_match s =
     (let w = takeWhile is_word s; r = dropWhile is_word s
      in if w \<noteq> [] \<and> starts_with [CHR ''='', CHR 0x22] r then
           (let v = takeWhile (\<lambda>c. c \<noteq> CHR 0x22) (drop 2 r);
                r' = dropWhile (\<lambda>c. c \<noteq> CHR 0x22) (drop 2 r)
            in if r' = [] then None else Some (w, v, tl r'))
         else None)"

lemma challenge_match_length: "challenge_match s = Some (w, v, r) \<Longrightarrow> length r < length s"
proof -
  assume "challenge_match s = Some (w, v, r)"
  then obtain b where b: "dropWhile is_word s = CHR ''='' # CHR 0x22 # b"
    and r: "r = tl (dropWhile (\<lambda>c. c \<noteq> CHR 0x22) b)"
    by (auto simp: challenge_match_def Let_def starts_with_iff split: if_splits)
  have "length r \<le> length b"
    using length_dropWhile_le [of "\<lambda>c. c \<noteq> CHR 0x22" b] by (simp add: r)
  moreover have "length (dropWhile is_word s) \<le> length s"
    by (rule length_dropWhile_le)
  ultimately show ?thesis by (simp add: b)
qed

function challenge_findall :: "string \<Rightarrow> (string \<times> string) list" where
  "challenge_findall s =
     (case s of
        [] \<Rightarrow> []
      | c # cs \<Rightarrow>
          (case challenge_match s of
             Some (w, v, r) \<Rightarrow> (w, v) # challenge_findall r
           | None \<Rightarrow> challenge_findall cs))"
  by pat_completeness auto
termination
  by (relation "measure length") (auto dest: challenge_match_length)

declare challenge_findall.simps [simp del]

definition parse_challenge :: "string \<Rightarrow> (string \<times> string) list" where
  "parse_challenge header = dict_of (challenge_findall header)"

text \<open>\<open>v.attr\<close> on a decoded JSON value that has no such attribute: the AttributeError,
  whose text names \<open>type(v).__name__\<close>.\<close>

fun type_name :: "json \<Rightarrow> string" where
  "type_name JNull = ''NoneType''"
| "type_name (JBool _) = ''bool''"
| "type_name (JInt _) = ''int''"
| "type_name (JFloat _ _) = ''float''"
| "type_name (JNonFinite _) = ''float''"
| "type_name (JStr _) = ''str''"
| "type_name (JList _) = ''list''"
| "type_name (JObj _) = ''dict''"

definition no_attribute :: "json \<Rightarrow> string \<Rightarrow> exn" where
  "no_attribute v attr = OtherError ''AttributeError''
     (CHR 0x27 # type_name v @ CHR 0x27 # '' object has no attribute '' @ CHR 0x27 # attr @ [CHR 0x27])"

definition fetch_token ::
    "stdlib \<Rightarrow> time \<Rightarrow> http_client \<Rightarrow> (string \<times> string) list \<Rightarrow> exn + json" where
  "fetch_token lib now client challenge =
     (case map_of challenge ''realm'' of
        None \<Rightarrow> Inr JNull
      | Some realm \<Rightarrow>
          if realm = [] then Inr JNull
          else (let params = filter (\<lambda>(k, v). (k = ''service'' \<or> k = ''scope'') \<and> v \<noteq> []) challenge
                in case client_get client realm [] params of
                     Inl e \<Rightarrow> Inl e
                   | Inr response \<Rightarrow>
                       if status_code response = 429 then
                         Inl (RateLimited (''auth endpoint '' @ realm @ '' is throttling us'')
                                (parse_retry_after lib now (get_header ''Retry-After'' response)))
                       else if status_code response \<noteq> 200 then
                         Inl (RegistryError (''auth failed at '' @ realm @ '': HTTP ''
                                @ str_of_int (status_code response)))
                       else
                         (case json_loads (body response) of
                            None \<Rightarrow> Inl (OtherError ''JSONDecodeError'' (json_error lib (body response)))
                          | Some (JObj payload) \<Rightarrow>
                              Inr (if truthy (jget ''token'' payload) then jget ''token'' payload
                                   else jget ''access_token'' payload)
                          | Some v \<Rightarrow> Inl (no_attribute v ''get''))))"

section \<open>Resolving a digest\<close>

text \<open>The classification of the manifest HEAD, and the fall-back GET whose status is not looked at.\<close>

definition read_digest ::
    "stdlib \<Rightarrow> time \<Rightarrow> http_client \<Rightarrow> image_reference \<Rightarrow> string \<Rightarrow> (string \<times> string) list \<Rightarrow>
     http_response \<Rightarrow> exn + string" where
  "read_digest lib now client ref url hdrs response =
     (let name = ref_repository ref @ '':'' @ ref_tag ref
      in if status_code response = 429 then
           Inl (RateLimited (ref_host ref @ '' is throttling us'')
                  (parse_retry_after lib now (get_header ''Retry-After'' response)))
         else if status_code response = 404 then Inl (ImageNotFound (name @ '' not found''))
         else if status_code response \<noteq> 200 then
           Inl (RegistryError (''manifest HEAD returned HTTP '' @ str_of_int (status_code response)
                  @ '' for '' @ name))
         else
           (let digest = get_header ''Docker-Content-Digest'' response
            in case (if str_or digest [] = [] then
                       (case client_get client url hdrs [] of
                          Inl e \<Rightarrow> Inl e
                        | Inr response2 \<Rightarrow> Inr (get_header ''Docker-Content-Digest'' response2))
                     else Inr digest) of
                 Inl e \<Rightarrow> Inl e
               | Inr digest2 \<Rightarrow>
                   if str_or digest2 [] = [] then
                     Inl (RegistryError ''registry did not return Docker-Content-Digest'')
                   else Inr (str_or digest2 [])))"

definition manifest_url :: "image_reference \<Rightarrow> string" where
  "manifest_url ref = ''https://'' @ ref_host ref @ ''/v2/'' @ ref_repository ref
     @ ''/manifests/'' @ ref_tag ref"

text \<open>The body of the try block.\<close>

definition resolve_digest_body ::
    "stdlib \<Rightarrow> time \<Rightarrow> http_client \<Rightarrow> image_reference \<Rightarrow> exn + string" where
  "resolve_digest_body lib now client ref =
     (let url = manifest_url ref;
          hdrs = [(''Accept'', MANIFEST_ACCEPT)]
      in case client_head client url hdrs of
           Inl e \<Rightarrow> Inl e
         | Inr response \<Rightarrow>
             if status_code response = 401 then
               (case fetch_token lib now client
                       (parse_challenge (case get_header ''WWW-Authenticate'' response of
                                           None \<Rightarrow> [] | Some h \<Rightarrow> h)) of
                  Inl e \<Rightarrow> Inl e
                | Inr token \<Rightarrow>
                    if truthy token then
                      (let hdrs' = hdrs @ [(''Authorization'', ''Bearer '' @ py_str lib token)]
                       in case client_head client url hdrs' of
                            Inl e \<Rightarrow> Inl e
                          | Inr response' \<Rightarrow> read_digest lib now client ref url hdrs' response')
                    else read_digest lib now client ref url hdrs response)
             else read_digest lib now client ref url hdrs response)"

text \<open>\<open>except httpx.HTTPError\<close> turns a transport failure into a RegistryError.\<close>

definition resolve_digest ::
    "stdlib \<Rightarrow> time \<Rightarrow> http_client \<Rightarrow> image_reference \<Rightarrow> exn + string" where
  "resolve_digest lib now client ref =
     (case resolve_digest_body lib now client ref of
        Inl (HTTPError m) \<Rightarrow> Inl (RegistryError (''registry request failed: '' @ m))
      | r \<Rightarrow> r)"

section \<open>Lemmas\<close>

lemma str_or_None_iff: "str_or x [] = [] \<longleftrightarrow> x = None \<or> x = Some []"
  by (cases x) auto

lemma parse_retry_after_nonneg: "parse_retry_after lib now raw = Some n \<Longrightarrow> 0 \<le> n"
  by (auto simp: parse_retry_after_def Let_def split: option.splits if_splits)

text \<open>What a read of the manifest answers, status by status.\<close>

lemma read_digest_status:
  "status_code r = 429 \<Longrightarrow> read_digest lib now c ref url h r
     = Inl (RateLimited (ref_host ref @ '' is throttling us'')
              (parse_retry_after lib now (get_header ''Retry-After'' r)))"
  "status_code r = 404 \<Longrightarrow> read_digest lib now c ref url h r
     = Inl (ImageNotFound (ref_repository ref @ '':'' @ ref_tag ref @ '' not found''))"
  "status_code r \<notin> {200, 404, 429} \<Longrightarrow> \<exists>m. read_digest lib now c ref url h r = Inl (RegistryError m)"
  by (simp_all add: read_digest_def Let_def)

lemma read_digest_ok:
  "status_code r = 200 \<Longrightarrow> get_header ''Docker-Content-Digest'' r = Some d \<Longrightarrow> d \<noteq> [] \<Longrightarrow>
   read_digest lib now c ref url h r = Inr d"
  by (simp add: read_digest_def Let_def)

lemma read_digest_nonempty: "read_digest lib now c ref url h r = Inr d \<Longrightarrow> d \<noteq> []"
  by (auto simp: read_digest_def Let_def split: if_splits sum.splits)

text \<open>What the client may do: raise an exception (httpx's own, or another such as the InvalidURL of
  a realm that is no URL), answer with a status, or answer a token request with something that is
  not a JSON object.\<close>

definition client_raises :: "http_client \<Rightarrow> exn \<Rightarrow> bool" where
  "client_raises c e \<longleftrightarrow> (\<exists>u h. client_head c u h = Inl e) \<or> (\<exists>u h p. client_get c u h p = Inl e)"

definition answers_429 :: "http_client \<Rightarrow> bool" where
  "answers_429 c \<longleftrightarrow>
     (\<exists>u h r. client_head c u h = Inr r \<and> status_code r = 429) \<or>
     (\<exists>u h p r. client_get c u h p = Inr r \<and> status_code r = 429)"

definition heads_404 :: "http_client \<Rightarrow> bool" where
  "heads_404 c \<longleftrightarrow> (\<exists>u h r. client_head c u h = Inr r \<and> status_code r = 404)"

definition answers_junk :: "http_client \<Rightarrow> bool" where
  "answers_junk c \<longleftrightarrow> (\<exists>u p r. client_get c u [] p = Inr r \<and> status_code r = 200 \<and>
     (\<nexists>kvs. json_loads (body r) = Some (JObj kvs)))"

lemma read_digest_errors:
  assumes "read_digest lib now c ref url h r = Inl e"
  shows "client_raises c e \<or> (\<exists>m. e = RegistryError m) \<or>
    (\<exists>m. e = ImageNotFound m \<and> status_code r = 404) \<or> (\<exists>m s. e = RateLimited m s \<and> status_code r = 429)"
  using assms
  by (auto simp: read_digest_def Let_def client_raises_def split: if_splits sum.splits)

lemma fetch_token_errors:
  assumes "fetch_token lib now c ch = Inl e"
  shows "client_raises c e \<or> (\<exists>m. e = RegistryError m) \<or>
    (\<exists>m s. e = RateLimited m s \<and> answers_429 c) \<or>
    (\<exists>m. (e = OtherError ''JSONDecodeError'' m \<or> e = OtherError ''AttributeError'' m) \<and> answers_junk c)"
proof (cases "map_of ch ''realm''")
  case None
  with assms show ?thesis by (simp add: fetch_token_def)
next
  case (Some realm)
  let ?a = "client_get c realm [] (filter (\<lambda>(k, v). (k = ''service'' \<or> k = ''scope'') \<and> v \<noteq> []) ch)"
  show ?thesis
  proof (cases ?a)
    case (Inl x)
    with assms Some show ?thesis by (auto simp: fetch_token_def client_raises_def Let_def split: if_splits)
  next
    case (Inr r)
    have junk: "answers_junk c" if "status_code r = 200" "\<nexists>kvs. json_loads (body r) = Some (JObj kvs)"
      using Inr that unfolding answers_junk_def by blast
    have "answers_429 c" if "status_code r = 429" using Inr that unfolding answers_429_def by blast
    with assms Some Inr junk show ?thesis
      by (auto simp: fetch_token_def no_attribute_def Let_def split: if_splits option.splits json.splits)
  qed
qed

lemma resolve_digest_body_errors:
  assumes "resolve_digest_body lib now c ref = Inl e"
  shows "client_raises c e \<or> (\<exists>m. e = RegistryError m) \<or> (\<exists>m. e = ImageNotFound m \<and> heads_404 c) \<or>
    (\<exists>m s. e = RateLimited m s \<and> answers_429 c) \<or>
    (\<exists>m. (e = OtherError ''JSONDecodeError'' m \<or> e = OtherError ''AttributeError'' m) \<and> answers_junk c)"
proof -
  let ?u = "manifest_url ref" and ?h = "[(''Accept'', MANIFEST_ACCEPT)]"
  have read: "client_raises c e \<or> (\<exists>m. e = RegistryError m) \<or> (\<exists>m. e = ImageNotFound m \<and> heads_404 c) \<or>
      (\<exists>m s. e = RateLimited m s \<and> answers_429 c)"
    if "read_digest lib now c ref ?u h r = Inl e" "client_head c ?u h' = Inr r" for h h' r
    using read_digest_errors [OF that(1)] that(2) by (auto simp: answers_429_def heads_404_def)
  have raised: "client_head c u h = Inl e \<Longrightarrow> client_raises c e" for u h by (auto simp: client_raises_def)
  from assms consider h where "client_head c ?u h = Inl e"
    | h h' r where "read_digest lib now c ref ?u h r = Inl e" "client_head c ?u h' = Inr r"
    | ch where "fetch_token lib now c ch = Inl e"
    by (auto simp: resolve_digest_body_def Let_def split: if_splits sum.splits)
  then show ?thesis by cases (use raised read fetch_token_errors in blast)+
qed

text \<open>The challenge scanner on a well-formed header.\<close>

lemma challenge_match_pair:
  assumes "\<forall>c \<in> set k. is_word c" "k \<noteq> []" "CHR 0x22 \<notin> set v"
  shows "challenge_match (k @ CHR ''='' # CHR 0x22 # v @ CHR 0x22 # rest) = Some (k, v, rest)"
proof -
  have nw: "\<not> is_word (CHR ''='')" by (simp add: is_word_def code_def)
  have "takeWhile is_word (k @ CHR ''='' # CHR 0x22 # v @ CHR 0x22 # rest) = k"
    "dropWhile is_word (k @ CHR ''='' # CHR 0x22 # v @ CHR 0x22 # rest)
       = CHR ''='' # CHR 0x22 # v @ CHR 0x22 # rest"
    using assms(1) nw by (simp_all add: takeWhile_append dropWhile_append)
  moreover have "takeWhile (\<lambda>c. c \<noteq> CHR 0x22) (v @ CHR 0x22 # rest) = v"
    "dropWhile (\<lambda>c. c \<noteq> CHR 0x22) (v @ CHR 0x22 # rest) = CHR 0x22 # rest"
    using assms(3) by (auto simp: takeWhile_append dropWhile_append)
  ultimately show ?thesis
    using assms(2) by (simp add: challenge_match_def Let_def starts_with_iff)
qed

lemma challenge_findall_pair:
  assumes "\<forall>c \<in> set k. is_word c" "k \<noteq> []" "CHR 0x22 \<notin> set v"
  shows "challenge_findall (k @ CHR ''='' # CHR 0x22 # v @ CHR 0x22 # rest)
    = (k, v) # challenge_findall rest"
proof -
  obtain c cs where "k @ CHR ''='' # CHR 0x22 # v @ CHR 0x22 # rest = c # cs"
    by (cases "k @ CHR ''='' # CHR 0x22 # v @ CHR 0x22 # rest") auto
  with challenge_match_pair [OF assms, of rest] show ?thesis
    by (subst challenge_findall.simps) simp
qed

lemma challenge_findall_skip:
  assumes "\<forall>c \<in> set w. is_word c" "\<not> is_word b" "b \<noteq> CHR ''=''"
  shows "challenge_findall (w @ b # rest) = challenge_findall rest"
  using assms(1)
proof (induction w)
  case Nil
  have "challenge_match (b # rest) = None"
    using assms by (simp add: challenge_match_def Let_def)
  then show ?case by (subst challenge_findall.simps) simp
next
  case (Cons a w)
  have "dropWhile is_word (a # w @ b # rest) = b # rest"
    using Cons.prems assms(2) by (simp add: dropWhile_append)
  then have "challenge_match (a # w @ b # rest) = None"
    using assms(3) by (simp add: challenge_match_def Let_def starts_with_iff)
  with Cons show ?case by (subst challenge_findall.simps) simp
qed

end
