(* ===== verification/Registry_Props.thy ===== *)
theory Registry_Props
  imports Registry
begin

text \<open>
  The properties of the registry client: how every answer of the registry is classified,
  what becomes of the Retry-After header and of the bearer challenge, and how a reference
  is split into host and repository. The witnesses run the client against small concrete
  registries.
\<close>

section \<open>Concrete registries\<close>

definition sample_lib :: stdlib where
  "sample_lib = \<lparr>
     parsedate_to_datetime = (\<lambda>s. if s = ''Thu, 01 Jan 1970 00:02:00 GMT'' then Some (Aware (seconds 120)) else None),
     fromisoformat = (\<lambda>s. if s = ''2024-01-02T00:00:00+00:00'' then Some (2024, Aware (seconds 1704153600)) else None),
     json_repr = (\<lambda>_. ''?''), json_error = (\<lambda>_. ''bad''), sha256_hex = (\<lambda>s. s)\<rparr>"

definition answer :: "int \<Rightarrow> (string \<times> string) list \<Rightarrow> string \<Rightarrow> http_response" where
  "answer st hs b = \<lparr>status_code = st, headers = hs, body = b\<rparr>"

definition nginx_ref :: image_reference where
  "nginx_ref = parse_reference ''nginx'' ''1''"

text \<open>A registry that answers every HEAD and every GET the same way.\<close>

definition constant_registry :: "http_response \<Rightarrow> http_response \<Rightarrow> http_client" where
  "constant_registry h g = \<lparr>client_head = (\<lambda>_ _. Inr h), client_get = (\<lambda>_ _ _. Inr g)\<rparr>"

definition throttled :: http_response where
  "throttled = answer 429 [(''Retry-After'', ''30'')] []"

definition challenged :: http_response where
  "challenged = answer 401 [(''WWW-Authenticate'', ''Bearer realm='' @ [CHR 0x22] @ ''a'' @ [CHR 0x22])] []"

definition healthy :: http_response where
  "healthy = answer 200 [(''docker-content-digest'', ''sha256:1'')] []"

definition silent :: http_response where
  "silent = answer 200 [] []"

section \<open>Classification\<close>

text \<open>The bearer exchange of \<open>resolve_digest\<close>: the answer to the HEAD that is finally read.\<close>

definition challenge_of :: "http_response \<Rightarrow> (string \<times> string) list" where
  "challenge_of r = parse_challenge (case get_header ''WWW-Authenticate'' r of None \<Rightarrow> [] | Some h \<Rightarrow> h)"

lemma resolve_digest_plain:
  assumes "client_head c (manifest_url ref) [(''Accept'', MANIFEST_ACCEPT)] = Inr r" "status_code r \<noteq> 401"
  shows "resolve_digest_body lib now c ref
    = read_digest lib now c ref (manifest_url ref) [(''Accept'', MANIFEST_ACCEPT)] r"
  using assms by (simp add: resolve_digest_body_def Let_def)

lemma resolve_digest_challenged:
  assumes "client_head c (manifest_url ref) [(''Accept'', MANIFEST_ACCEPT)] = Inr r" "status_code r = 401"
    and "fetch_token lib now c (challenge_of r) = Inl e"
  shows "resolve_digest_body lib now c ref = Inl e"
  using assms by (simp add: resolve_digest_body_def Let_def challenge_of_def)

text \<open>Throttling is backpressure wherever it surfaces. When the manifest HEAD answers
  429, or when it answers 401 with a challenge whose token endpoint answers 429, resolving
  the digest raises RateLimited, an exception the worker defers on, and it carries the
  Retry-After header of the very response that throttled.\<close>

theorem throttling_is_backpressure:
  assumes "client_head c (manifest_url ref) [(''Accept'', MANIFEST_ACCEPT)] = Inr r"
    and "status_code r = 429 \<and> q = r \<or>
      status_code r = 401 \<and> map_of (challenge_of r) ''realm'' = Some realm \<and> realm \<noteq> [] \<and>
      client_get c realm [] (filter (\<lambda>(k, v). (k = ''service'' \<or> k = ''scope'') \<and> v \<noteq> []) (challenge_of r)) = Inr q \<and>
      status_code q = 429"
  shows "\<exists>m. resolve_digest lib now c ref
      = Inl (RateLimited m (parse_retry_after lib now (get_header ''Retry-After'' q)))"
  using assms(2)
proof
  assume "status_code r = 429 \<and> q = r"
  then show ?thesis
    using resolve_digest_plain [OF assms(1), of lib now]
    by (simp add: resolve_digest_def read_digest_status)
next
  assume a: "status_code r = 401 \<and> map_of (challenge_of r) ''realm'' = Some realm \<and> realm \<noteq> [] \<and>
      client_get c realm [] (filter (\<lambda>(k, v). (k = ''service'' \<or> k = ''scope'') \<and> v \<noteq> []) (challenge_of r)) = Inr q \<and>
      status_code q = 429"
  then have "fetch_token lib now c (challenge_of r)
      = Inl (RateLimited (''auth endpoint '' @ realm @ '' is throttling us'')
               (parse_retry_after lib now (get_header ''Retry-After'' q)))"
    by (simp add: fetch_token_def Let_def)
  with a show ?thesis
    using resolve_digest_challenged [OF assms(1)] by (simp add: resolve_digest_def)
qed

lemma challenge_of_challenged: "challenge_of challenged = [(''realm'', ''a'')]"
  by code_simp

theorem throttling_is_backpressure_witness:
  "(\<exists>m. resolve_digest sample_lib 0 (constant_registry throttled throttled) nginx_ref
      = Inl (RateLimited m (parse_retry_after sample_lib 0 (get_header ''Retry-After'' throttled)))) \<and>
   (\<exists>m. resolve_digest sample_lib 0 (constant_registry challenged throttled) nginx_ref
      = Inl (RateLimited m (parse_retry_after sample_lib 0 (get_header ''Retry-After'' throttled))))"
proof
  show "\<exists>m. resolve_digest sample_lib 0 (constant_registry throttled throttled) nginx_ref
      = Inl (RateLimited m (parse_retry_after sample_lib 0 (get_header ''Retry-After'' throttled)))"
    by (rule throttling_is_backpressure [where r = throttled and realm = "''a''"])
       (simp_all add: constant_registry_def throttled_def answer_def)
  have "status_code challenged = 401" "status_code throttled = 429"
    by (simp_all add: challenged_def throttled_def answer_def)
  then show "\<exists>m. resolve_digest sample_lib 0 (constant_registry challenged throttled) nginx_ref
      = Inl (RateLimited m (parse_retry_after sample_lib 0 (get_header ''Retry-After'' throttled)))"
    by (intro throttling_is_backpressure [where r = challenged and realm = "''a''"])
       (simp_all add: constant_registry_def challenge_of_challenged)
qed

text \<open>C28. The outcomes of resolving a digest, whatever the client does. Either a non-empty digest; or
  an exception that is a RegistryError, which is backpressure only if some answer had status 429
  and ImageNotFound only if a HEAD had status 404; or one of two errors nobody classified, when a
  token endpoint answers 200 with something that is not a JSON object; or an exception the client
  itself raised that is not an httpx.HTTPError. A transport failure never escapes as such.\<close>

theorem resolve_digest_outcomes:
  "case resolve_digest lib now c ref of
      Inr d \<Rightarrow> d \<noteq> []
    | Inl e \<Rightarrow> (\<nexists>m. e = HTTPError m) \<and>
        (client_raises c e \<or>
         is_registry_error e \<and> (is_backpressure e \<longrightarrow> answers_429 c) \<and> (is_image_not_found e \<longrightarrow> heads_404 c) \<or>
         exn_name e \<in> {''JSONDecodeError'', ''AttributeError''} \<and> answers_junk c)"
proof (cases "resolve_digest_body lib now c ref")
  case (Inl e)
  with resolve_digest_body_errors [OF Inl] show ?thesis
    by (cases e) (auto simp: resolve_digest_def)
next
  case (Inr d)
  then have "d \<noteq> []"
    by (auto simp: resolve_digest_body_def Let_def dest: read_digest_nonempty split: sum.splits if_splits)
  with Inr show ?thesis by (simp add: resolve_digest_def)
qed

theorem resolve_digest_outcomes_witness:
  "(\<exists>d. resolve_digest sample_lib 0 (constant_registry healthy healthy) nginx_ref = Inr d \<and> d \<noteq> []) \<and>
   (\<exists>e. resolve_digest sample_lib 0 (constant_registry throttled throttled) nginx_ref = Inl e \<and> is_backpressure e \<and>
      answers_429 (constant_registry throttled throttled))"
proof
  have "\<exists>d. resolve_digest sample_lib 0 (constant_registry healthy healthy) nginx_ref = Inr d"
  proof -
    have "case resolve_digest sample_lib 0 (constant_registry healthy healthy) nginx_ref of Inr d \<Rightarrow> True | Inl e \<Rightarrow> False"
      by code_simp
    then show ?thesis by (auto split: sum.splits)
  qed
  with resolve_digest_outcomes [where lib = sample_lib and now = 0 and c = "constant_registry healthy healthy" and ref = nginx_ref]
  show "\<exists>d. resolve_digest sample_lib 0 (constant_registry healthy healthy) nginx_ref = Inr d \<and> d \<noteq> []" by auto
  have "case resolve_digest sample_lib 0 (constant_registry throttled throttled) nginx_ref of
      Inr d \<Rightarrow> False | Inl e \<Rightarrow> is_backpressure e"
    by code_simp
  then obtain e where e: "resolve_digest sample_lib 0 (constant_registry throttled throttled) nginx_ref = Inl e" "is_backpressure e"
    by (auto split: sum.splits)
  moreover have "\<not> client_raises (constant_registry throttled throttled) e"
    by (simp add: client_raises_def constant_registry_def)
  moreover from e(2) have "exn_name e \<notin> {''JSONDecodeError'', ''AttributeError''}" by (cases e) simp_all
  ultimately show "\<exists>e. resolve_digest sample_lib 0 (constant_registry throttled throttled) nginx_ref = Inl e \<and> is_backpressure e \<and>
      answers_429 (constant_registry throttled throttled)"
    using resolve_digest_outcomes [where lib = sample_lib and now = 0 and c = "constant_registry throttled throttled" and ref = nginx_ref] by auto
qed

text \<open>The realm of a challenge is taken as a URL as it stands. When it is not one, the client raises
  an InvalidURL, which is not an HTTPError: it escapes as it is, not as a RegistryError.\<close>

theorem invalid_realm_escapes:
  assumes "client_head c (manifest_url ref) [(''Accept'', MANIFEST_ACCEPT)] = Inr r" "status_code r = 401"
    and "map_of (challenge_of r) ''realm'' = Some realm" "realm \<noteq> []"
    and "\<And>ps. client_get c realm [] ps = Inl (OtherError ''InvalidURL'' why)"
  shows "resolve_digest lib now c ref = Inl (OtherError ''InvalidURL'' why) \<and>
    \<not> is_registry_error (OtherError ''InvalidURL'' why)"
proof -
  have "fetch_token lib now c (challenge_of r) = Inl (OtherError ''InvalidURL'' why)"
    using assms(3-5) by (simp add: fetch_token_def Let_def)
  from resolve_digest_challenged [OF assms(1,2) this] show ?thesis by (simp add: resolve_digest_def)
qed

definition bad_realm :: http_response where
  "bad_realm = answer 401 [(''WWW-Authenticate'', ''Bearer realm='' @ [CHR 0x22] @ ''http://h:x/'' @ [CHR 0x22])] []"

definition picky_registry :: http_client where
  "picky_registry = \<lparr>client_head = (\<lambda>_ _. Inr bad_realm), client_get = (\<lambda>_ _ _. Inl (OtherError ''InvalidURL'' ''Invalid port''))\<rparr>"

theorem invalid_realm_escapes_witness:
  "resolve_digest sample_lib 0 picky_registry nginx_ref = Inl (OtherError ''InvalidURL'' ''Invalid port'')"
proof -
  have "map_of (challenge_of bad_realm) ''realm'' = Some ''http://h:x/''" by code_simp
  then show ?thesis
    using invalid_realm_escapes [of picky_registry nginx_ref bad_realm "''http://h:x/''" "''Invalid port''" sample_lib 0]
    by (simp add: picky_registry_def) (simp add: bad_realm_def answer_def)
qed

lemma silent_digest: "get_header ''Docker-Content-Digest'' silent = None"
  "get_header ''Docker-Content-Digest'' throttled = None"
  by code_simp+

text \<open>The one place where throttling is not recognised: when the registry omits the digest
  header on HEAD, the status of the fall-back GET is not looked at, so a 429 there (which
  carries no digest) is a plain RegistryError and not backpressure: its Retry-After is lost
  and the worker burns an attempt.\<close>

theorem fallback_get_throttle_unrecognised:
  assumes "client_head c (manifest_url ref) [(''Accept'', MANIFEST_ACCEPT)] = Inr r" "status_code r = 200"
    and "get_header ''Docker-Content-Digest'' r = None"
    and "client_get c (manifest_url ref) [(''Accept'', MANIFEST_ACCEPT)] [] = Inr q" "status_code q = 429"
    and "get_header ''Docker-Content-Digest'' q = None"
  shows "resolve_digest lib now c ref = Inl (RegistryError ''registry did not return Docker-Content-Digest'')
    \<and> \<not> is_backpressure (RegistryError ''registry did not return Docker-Content-Digest'')"
  using assms resolve_digest_plain [OF assms(1), of lib now]
  by (simp add: resolve_digest_def read_digest_def Let_def)

theorem fallback_get_throttle_unrecognised_witness:
  "resolve_digest sample_lib 0 (constant_registry silent throttled) nginx_ref
     = Inl (RegistryError ''registry did not return Docker-Content-Digest'')"
  using fallback_get_throttle_unrecognised [of "constant_registry silent throttled" nginx_ref silent throttled sample_lib 0]
    silent_digest
  by (simp add: constant_registry_def silent_def throttled_def answer_def)

section \<open>Headers and references\<close>

text \<open>A Retry-After of delta-seconds is read back as that number of seconds, a negative
  one as 0; an HTTP-date less than 2 to the 34 seconds ahead as the whole seconds left until
  it, and as 0 once it has passed; and whatever the header holds, the answer is never
  negative.\<close>

theorem retry_after_forms:
  "(length (str_of_int n) \<le> INT_MAX_STR_DIGITS \<longrightarrow>
      parse_retry_after lib now (Some (str_of_int n)) = Some (max 0 n)) \<and>
   (\<forall>raw s. parse_retry_after lib now raw = Some s \<longrightarrow> 0 \<le> s) \<and>
   (\<forall>raw t. raw \<noteq> [] \<and> parse_int (strip raw) = None \<and>
      parsedate_to_datetime lib (strip raw) = Some (Aware t) \<and> t - now < seconds (2 ^ 34) \<longrightarrow>
      parse_retry_after lib now (Some raw) = Some (if t \<le> now then 0 else (t - now) div 1000000))"
proof (intro conjI allI impI)
  assume "length (str_of_int n) \<le> INT_MAX_STR_DIGITS"
  from parse_int_str_of_int [OF this]
  show "parse_retry_after lib now (Some (str_of_int n)) = Some (max 0 n)"
    by (simp add: parse_retry_after_def strip_str_of_int str_of_int_nonempty)
next
  fix raw t
  assume a: "raw \<noteq> [] \<and> parse_int (strip raw) = None \<and>
      parsedate_to_datetime lib (strip raw) = Some (Aware t) \<and> t - now < seconds (2 ^ 34)"
  have "max 0 (trunc_seconds (t - now)) = (if t \<le> now then 0 else (t - now) div 1000000)"
  proof (cases "t \<le> now")
    case True
    with trunc_seconds_nonpos [of "t - now"] show ?thesis by simp
  next
    case False
    with a show ?thesis
      by (simp add: trunc_seconds_floor seconds_def pos_imp_zdiv_nonneg_iff)
  qed
  with a show "parse_retry_after lib now (Some raw) = Some (if t \<le> now then 0 else (t - now) div 1000000)"
    by (simp add: parse_retry_after_def)
qed (rule parse_retry_after_nonneg)

theorem retry_after_forms_witness:
  "parse_retry_after sample_lib 0 (Some ''Thu, 01 Jan 1970 00:02:00 GMT'') = Some 120"
proof -
  let ?raw = "''Thu, 01 Jan 1970 00:02:00 GMT''"
  have s: "strip ?raw = ?raw" "parse_int ?raw = None" by code_simp+
  have p: "parsedate_to_datetime sample_lib ?raw = Some (Aware (seconds 120))" by (simp add: sample_lib_def)
  have "?raw \<noteq> [] \<and> parse_int (strip ?raw) = None \<and>
      parsedate_to_datetime sample_lib (strip ?raw) = Some (Aware (seconds 120)) \<and> seconds 120 - 0 < seconds (2 ^ 34)"
    unfolding s(1) using s(2) p by simp
  from retry_after_forms [where lib = sample_lib and now = 0, THEN conjunct2, THEN conjunct2, rule_format, OF this]
  show ?thesis by (simp add: seconds_def)
qed

text \<open>The bearer challenge of a registry, in the form the distribution specification gives
  it, is parsed back to exactly its realm, service and scope.\<close>

theorem challenge_roundtrip:
  assumes "CHR 0x22 \<notin> set realm" "CHR 0x22 \<notin> set service" "CHR 0x22 \<notin> set scope"
  shows "parse_challenge (''Bearer realm='' @ CHR 0x22 # realm @ CHR 0x22 # '',service='' @ CHR 0x22 #
      service @ CHR 0x22 # '',scope='' @ CHR 0x22 # scope @ [CHR 0x22])
    = [(''realm'', realm), (''service'', service), (''scope'', scope)]"
proof -
  let ?q = "CHR 0x22"
  have w: "\<forall>c \<in> set ''Bearer''. is_word c" "\<forall>c \<in> set ''realm''. is_word c"
    "\<forall>c \<in> set ''service''. is_word c" "\<forall>c \<in> set ''scope''. is_word c"
    "\<not> is_word (CHR '' '')" "\<not> is_word (CHR '','')"
    by (simp_all add: is_word_def code_def)
  have scope: "challenge_findall (CHR '','' # ''scope='' @ ?q # scope @ [?q]) = [(''scope'', scope)]"
    using challenge_findall_pair [OF w(4) _ assms(3), of "[]"] challenge_findall_skip [of "[]", OF _ w(6)]
    by (simp add: challenge_findall.simps [of "[]"])
  have service: "challenge_findall (CHR '','' # ''service='' @ ?q # service @ ?q # CHR '','' # ''scope='' @ ?q # scope @ [?q])
      = [(''service'', service), (''scope'', scope)]"
    using challenge_findall_pair [OF w(3) _ assms(2)] challenge_findall_skip [of "[]", OF _ w(6)] scope
    by simp
  have "challenge_findall (''Bearer'' @ CHR '' '' # ''realm='' @ ?q # realm @ ?q # CHR '','' #
      ''service='' @ ?q # service @ ?q # CHR '','' # ''scope='' @ ?q # scope @ [?q])
    = [(''realm'', realm), (''service'', service), (''scope'', scope)]"
    using challenge_findall_pair [OF w(2) _ assms(1)] challenge_findall_skip [OF w(1) w(5)] service
    by simp
  then show ?thesis
    by (simp add: parse_challenge_def dict_of_def)
qed

theorem challenge_roundtrip_witness:
  "parse_challenge (''Bearer realm='' @ CHR 0x22 # ''https://auth.docker.io/token'' @ CHR 0x22 # '',service='' @
      CHR 0x22 # ''registry.docker.io'' @ CHR 0x22 # '',scope='' @ CHR 0x22 # ''repository:library/nginx:pull'' @ [CHR 0x22])
    = [(''realm'', ''https://auth.docker.io/token''), (''service'', ''registry.docker.io''),
       (''scope'', ''repository:library/nginx:pull'')]"
  by (rule challenge_roundtrip) simp_all

text \<open>A reference is split without loss: the first path component is the host exactly when
  it looks like one and something follows it, and then host and repository joined by a slash
  are the name again; otherwise the name is a Docker Hub repository, a single component
  under library/, and the repository is never empty for a non-empty name.\<close>

theorem reference_split:
  "(let r = parse_reference name tag;
        head = fst (partition_at (CHR ''/'') name); rest = snd (partition_at (CHR ''/'') name)
    in ref_tag r = tag \<and>
       (if rest \<noteq> [] \<and> (CHR ''.'' \<in> set head \<or> CHR '':'' \<in> set head \<or> head = ''localhost'')
        then ref_host r @ ''/'' @ ref_repository r = name \<and> CHR ''/'' \<notin> set (ref_host r)
        else ref_host r = DOCKER_HUB_HOST \<and>
          ref_repository r = (if CHR ''/'' \<in> set name then name else ''library/'' @ name)))"
proof -
  obtain head rest where p: "partition_at (CHR ''/'') name = (head, rest)"
    by (cases "partition_at (CHR ''/'') name")
  with partition_at_spec [OF p] show ?thesis
    by (auto simp: parse_reference_def Let_def split: if_splits)
qed

end
