(* ===== verification/Report_Parser.thy ===== *)
theory Report_Parser
  imports Registry
begin

text \<open>
  The report parser (src/app/scanner/parser.py): the throttling markers in Trivy's stderr and
  the reading of a \<open>trivy image --format json\<close> document into findings, one per
  (CVE, package, version, type), from the text on. The loops over results and vulnerabilities
  are recursions that carry the dictionary \<open>deduped\<close> (an association list in insertion
  order).
\<close>

section \<open>Throttling in stderr\<close>

definition RATE_LIMIT_MARKERS :: "string list" where
  "RATE_LIMIT_MARKERS =
     [''toomanyrequests'', ''too many requests'', ''pull rate limit'', ''rate limit exceeded'']"

definition is_rate_limit_error :: "string option \<Rightarrow> bool" where
  "is_rate_limit_error message =
     (case message of
        None \<Rightarrow> False
      | Some m \<Rightarrow> m \<noteq> [] \<and> list_ex (\<lambda>marker. contains marker (lower m)) RATE_LIMIT_MARKERS)"

section \<open>Findings and reports\<close>

record parsed_finding =
  pf_cve_id :: string
  pf_package_name :: string
  pf_package_version :: string
  pf_package_type :: string
  pf_severity :: severity
  pf_fixed_version :: "string option"
  pf_title :: "string option"
  pf_description :: "string option"
  pf_published_at :: "time option"
  pf_last_modified_at :: "time option"

type_synonym pf_key_type = "string \<times> string \<times> string \<times> string"

definition pf_key :: "parsed_finding \<Rightarrow> pf_key_type" where
  "pf_key f = (pf_cve_id f, pf_package_name f, pf_package_version f, pf_package_type f)"

record parsed_report =
  pr_digest :: "string option"
  pr_artifact_name :: "string option"
  pr_findings :: "parsed_finding list"

section \<open>Readers of single values\<close>

definition replace_Z :: "string \<Rightarrow> string" where
  "replace_Z s = concat (map (\<lambda>c. if c = CHR ''Z'' then ''+00:00'' else [c]) s)"

definition parse_datetime :: "stdlib \<Rightarrow> json \<Rightarrow> time option" where
  "parse_datetime lib raw =
     (case raw of
        JStr s \<Rightarrow>
          if s = [] then None
          else (case fromisoformat lib (replace_Z s) of
                  None \<Rightarrow> None
                | Some (year, parsed) \<Rightarrow> if year \<le> 1 then None else Some (as_utc parsed))
      | _ \<Rightarrow> None)"

fun first_repo_digest :: "json list \<Rightarrow> string option" where
  "first_repo_digest [] = None"
| "first_repo_digest (entry # entries) =
     (case entry of
        JStr s \<Rightarrow> if CHR ''@'' \<in> set s then Some (snd (partition_at (CHR ''@'') s))
                  else first_repo_digest entries
      | _ \<Rightarrow> first_repo_digest entries)"

definition image_id_digest :: "(string \<times> json) list \<Rightarrow> string option" where
  "image_id_digest metadata =
     (case jget ''ImageID'' metadata of
        JStr s \<Rightarrow> if s = [] then None else Some s
      | _ \<Rightarrow> None)"

definition extract_digest :: "(string \<times> json) list \<Rightarrow> string option" where
  "extract_digest metadata =
     (case jget ''RepoDigests'' metadata of
        JList entries \<Rightarrow>
          (case first_repo_digest entries of
             Some d \<Rightarrow> Some d
           | None \<Rightarrow> image_id_digest metadata)
      | _ \<Rightarrow> image_id_digest metadata)"

definition clean :: "json \<Rightarrow> string option" where
  "clean value =
     (case value of
        JStr s \<Rightarrow> if strip s = [] then None else Some (strip s)
      | _ \<Rightarrow> None)"

section \<open>The report\<close>

text \<open>The body of the inner loop up to the finding it builds; \<open>Inr None\<close> is its
  \<open>continue\<close>.\<close>

definition parse_vulnerability :: "stdlib \<Rightarrow> string \<Rightarrow> json \<Rightarrow> exn + parsed_finding option" where
  "parse_vulnerability lib package_type vulnerability =
     (case vulnerability of
        JObj v \<Rightarrow>
          (case (clean (jget ''VulnerabilityID'' v), clean (jget ''PkgName'' v)) of
             (Some cve_id, Some package_name) \<Rightarrow>
               (case parse_severity (jget ''Severity'' v) of
                  None \<Rightarrow> Inl (no_attribute (jget ''Severity'' v) ''strip'')
                | Some sev \<Rightarrow> Inr (Some
                    \<lparr>pf_cve_id = cve_id, pf_package_name = package_name,
                     pf_package_version = str_or (clean (jget ''InstalledVersion'' v)) ''unknown'',
                     pf_package_type = package_type, pf_severity = sev,
                     pf_fixed_version = clean (jget ''FixedVersion'' v),
                     pf_title = clean (jget ''Title'' v),
                     pf_description = clean (jget ''Description'' v),
                     pf_published_at = parse_datetime lib (jget ''PublishedDate'' v),
                     pf_last_modified_at = parse_datetime lib (jget ''LastModifiedDate'' v)\<rparr>))
           | _ \<Rightarrow> Inr None)
      | _ \<Rightarrow> Inr None)"

type_synonym dedup = "(pf_key_type \<times> parsed_finding) list"

definition keep_finding :: "parsed_finding \<Rightarrow> dedup \<Rightarrow> dedup" where
  "keep_finding f deduped =
     (case map_of deduped (pf_key f) of
        None \<Rightarrow> dict_set (pf_key f) f deduped
      | Some existing \<Rightarrow>
          if rank (pf_severity f) > rank (pf_severity existing) then dict_set (pf_key f) f deduped
          else deduped)"

fun add_vulnerabilities :: "stdlib \<Rightarrow> string \<Rightarrow> json list \<Rightarrow> dedup \<Rightarrow> exn + dedup" where
  "add_vulnerabilities lib t [] deduped = Inr deduped"
| "add_vulnerabilities lib t (v # vs) deduped =
     (case parse_vulnerability lib t v of
        Inl e \<Rightarrow> Inl e
      | Inr None \<Rightarrow> add_vulnerabilities lib t vs deduped
      | Inr (Some f) \<Rightarrow> add_vulnerabilities lib t vs (keep_finding f deduped))"

definition package_type_of :: "(string \<times> json) list \<Rightarrow> string" where
  "package_type_of result = str_or (clean (jget ''Type'' result)) ''unknown''"

text \<open>\<open>result.get("Vulnerabilities") or []\<close>, the empty list when it is not a list (the
  loop then does nothing, as the \<open>continue\<close>).\<close>

definition vulnerabilities_of :: "(string \<times> json) list \<Rightarrow> json list" where
  "vulnerabilities_of result =
     (case jget ''Vulnerabilities'' result of JList vs \<Rightarrow> vs | _ \<Rightarrow> [])"

fun add_results :: "stdlib \<Rightarrow> json list \<Rightarrow> dedup \<Rightarrow> exn + dedup" where
  "add_results lib [] deduped = Inr deduped"
| "add_results lib (result # results) deduped =
     (case result of
        JObj r \<Rightarrow>
          (case add_vulnerabilities lib (package_type_of r) (vulnerabilities_of r) deduped of
             Inl e \<Rightarrow> Inl e
           | Inr deduped' \<Rightarrow> add_results lib results deduped')
      | _ \<Rightarrow> add_results lib results deduped)"

definition parse_document :: "stdlib \<Rightarrow> (string \<times> json) list \<Rightarrow> exn + parsed_report" where
  "parse_document lib document =
     (let metadata = (case jget ''Metadata'' document of JObj m \<Rightarrow> m | _ \<Rightarrow> []);
          results = (if truthy (jget ''Results'' document) then jget ''Results'' document else JList [])
      in case results of
           JList rs \<Rightarrow>
             (case add_results lib rs [] of
                Inl e \<Rightarrow> Inl e
              | Inr deduped \<Rightarrow> Inr
                  \<lparr>pr_digest = extract_digest metadata,
                   pr_artifact_name = clean (jget ''ArtifactName'' document),
                   pr_findings = map snd deduped\<rparr>)
         | _ \<Rightarrow> Inl (TrivyReportError ''Trivy Results is not a list''))"

definition parse_report :: "stdlib \<Rightarrow> string \<Rightarrow> exn + parsed_report" where
  "parse_report lib raw =
     (if strip raw = [] then Inl (TrivyReportError ''Trivy produced no output'')
      else case json_loads raw of
             None \<Rightarrow> Inl (TrivyReportError (''Trivy output is not valid JSON: '' @ json_error lib raw))
           | Some (JObj document) \<Rightarrow> parse_document lib document
           | Some _ \<Rightarrow> Inl (TrivyReportError ''Trivy output is not a JSON object''))"

section \<open>The findings as one list\<close>

text \<open>Specification of the two loops: all the findings of the report in reading order (or the
  first error), then \<open>dedupe\<close> folds them into the dictionary.\<close>

fun sum_list_map :: "('a \<Rightarrow> 'e + 'b list) \<Rightarrow> 'a list \<Rightarrow> 'e + 'b list" where
  "sum_list_map f [] = Inr []"
| "sum_list_map f (x # xs) =
     (case f x of
        Inl e \<Rightarrow> Inl e
      | Inr ys \<Rightarrow> (case sum_list_map f xs of Inl e \<Rightarrow> Inl e | Inr zs \<Rightarrow> Inr (ys @ zs)))"

definition vulnerability_entries :: "stdlib \<Rightarrow> string \<Rightarrow> json \<Rightarrow> exn + parsed_finding list" where
  "vulnerability_entries lib t v =
     (case parse_vulnerability lib t v of
        Inl e \<Rightarrow> Inl e | Inr None \<Rightarrow> Inr [] | Inr (Some f) \<Rightarrow> Inr [f])"

definition entries_of_result :: "stdlib \<Rightarrow> json \<Rightarrow> exn + parsed_finding list" where
  "entries_of_result lib result =
     (case result of
        JObj r \<Rightarrow> sum_list_map (vulnerability_entries lib (package_type_of r)) (vulnerabilities_of r)
      | _ \<Rightarrow> Inr [])"

definition report_entries :: "stdlib \<Rightarrow> json list \<Rightarrow> exn + parsed_finding list" where
  "report_entries lib results = sum_list_map (entries_of_result lib) results"

definition dedupe_from :: "dedup \<Rightarrow> parsed_finding list \<Rightarrow> dedup" where
  "dedupe_from = foldl (\<lambda>d f. keep_finding f d)"

lemma dedupe_from_simps [simp]:
  "dedupe_from d [] = d"
  "dedupe_from d (f # fs) = dedupe_from (keep_finding f d) fs"
  "dedupe_from d (fs @ gs) = dedupe_from (dedupe_from d fs) gs"
  by (simp_all add: dedupe_from_def)

lemma add_vulnerabilities_entries:
  "add_vulnerabilities lib t vs d =
     map_sum id (dedupe_from d) (sum_list_map (vulnerability_entries lib t) vs)"
  by (induction vs arbitrary: d) (auto simp: vulnerability_entries_def split: sum.splits option.splits)

lemma add_results_entries:
  "add_results lib rs d = map_sum id (dedupe_from d) (report_entries lib rs)"
  by (induction rs arbitrary: d)
     (auto simp: report_entries_def entries_of_result_def add_vulnerabilities_entries split: json.splits sum.splits)

section \<open>What the dictionary holds\<close>

text \<open>The keys in order of first occurrence, and for each the first of highest severity.\<close>

definition first_occurrences :: "'a list \<Rightarrow> 'a list" where
  "first_occurrences ks = rev (remdups (rev ks))"

definition best_for :: "parsed_finding list \<Rightarrow> pf_key_type \<Rightarrow> parsed_finding option" where
  "best_for fs k = (case filter (\<lambda>f. pf_key f = k) fs of
     [] \<Rightarrow> None | f # gs \<Rightarrow> Some (max_by (\<lambda>f. rank (pf_severity f)) f gs))"

lemma first_occurrences_simps [simp]:
  "first_occurrences [] = []"
  "first_occurrences (ks @ [k]) = (if k \<in> set ks then first_occurrences ks else first_occurrences ks @ [k])"
  by (simp_all add: first_occurrences_def)

lemma set_first_occurrences [simp]: "set (first_occurrences ks) = set ks"
  by (simp add: first_occurrences_def)

lemma distinct_first_occurrences [simp]: "distinct (first_occurrences ks)"
  by (simp add: first_occurrences_def)

lemma max_by_snoc: "max_by f m (xs @ [x]) = (if f (max_by f m xs) < f x then x else max_by f m xs)"
  by (induction xs arbitrary: m) auto

lemma best_for_snoc:
  "best_for (fs @ [f]) k =
     (if pf_key f = k then
        (case best_for fs k of None \<Rightarrow> Some f
         | Some g \<Rightarrow> Some (if rank (pf_severity g) < rank (pf_severity f) then f else g))
      else best_for fs k)"
  by (auto simp: best_for_def max_by_snoc split: list.splits)

lemma best_for_None_iff: "best_for fs k = None \<longleftrightarrow> k \<notin> pf_key ` set fs"
  by (cases "filter (\<lambda>f. pf_key f = k) fs")
     (auto simp: best_for_def filter_empty_conv filter_eq_Cons_iff)

lemma map_fst_dict_set:
  "map fst (dict_set k v d) = (if k \<in> fst ` set d then map fst d else map fst d @ [k])"
proof (induction d)
  case (Cons kv d)
  then show ?case by (cases kv) auto
qed simp

lemma dedupe_spec:
  "map fst (dedupe_from [] fs) = first_occurrences (map pf_key fs) \<and>
   map_of (dedupe_from [] fs) = best_for fs"
proof (induction fs rule: rev_induct)
  case Nil
  show ?case by (simp add: best_for_def fun_eq_iff)
next
  case (snoc f fs)
  let ?d = "dedupe_from [] fs"
  have keys: "fst ` set ?d = pf_key ` set fs"
    using arg_cong [OF snoc [THEN conjunct1], of set] by simp
  have of: "map_of ?d = best_for fs" using snoc by simp
  have "map fst (keep_finding f ?d) = first_occurrences (map pf_key (fs @ [f]))"
    using snoc keys best_for_None_iff [of fs "pf_key f"]
    by (auto simp: keep_finding_def of map_fst_dict_set split: option.splits)
  moreover have "map_of (keep_finding f ?d) k = best_for (fs @ [f]) k" for k
    by (auto simp: keep_finding_def of best_for_snoc split: option.splits)
  ultimately show ?case by auto
qed

lemma dedupe_values:
  "map snd (dedupe_from [] fs) = map (the \<circ> best_for fs) (first_occurrences (map pf_key fs))"
proof -
  have d: "distinct (map fst (dedupe_from [] fs))" by (simp add: dedupe_spec)
  have "map (the \<circ> best_for fs) (map fst (dedupe_from [] fs)) = map snd (dedupe_from [] fs)"
    using map_of_is_SomeI [OF d] by (auto simp: dedupe_spec [THEN conjunct2, symmetric])
  then show ?thesis by (simp add: dedupe_spec)
qed

lemma best_for_SomeD:
  assumes "best_for fs k = Some f"
  shows "f \<in> set fs" "pf_key f = k"
    "\<And>g. g \<in> set fs \<Longrightarrow> pf_key g = k \<Longrightarrow> rank (pf_severity g) \<le> rank (pf_severity f)"
proof -
  from assms obtain g gs where g: "filter (\<lambda>f. pf_key f = k) fs = g # gs"
    and f: "f = max_by (\<lambda>f. rank (pf_severity f)) g gs"
    by (auto simp: best_for_def split: list.splits)
  have "f \<in> set (filter (\<lambda>f. pf_key f = k) fs)"
    using max_by_in [of "\<lambda>f. rank (pf_severity f)" g gs] by (simp only: f g)
  then show "f \<in> set fs" "pf_key f = k" by auto
  show "rank (pf_severity h) \<le> rank (pf_severity f)" if "h \<in> set fs" "pf_key h = k" for h
  proof -
    have "h \<in> set (filter (\<lambda>f. pf_key f = k) fs)" using that by simp
    then show ?thesis
      using max_by_ge [of h g gs "\<lambda>f. rank (pf_severity f)"] by (simp only: f g)
  qed
qed

definition deduped_findings :: "parsed_finding list \<Rightarrow> parsed_finding list" where
  "deduped_findings fs = map (the \<circ> best_for fs) (first_occurrences (map pf_key fs))"

lemma best_for_exists: "k \<in> pf_key ` set fs \<Longrightarrow> \<exists>f. best_for fs k = Some f \<and> pf_key f = k"
  using best_for_None_iff [of fs k] best_for_SomeD(2) [of fs k] by (cases "best_for fs k") auto

lemma deduped_keys: "map pf_key (deduped_findings fs) = first_occurrences (map pf_key fs)"
proof -
  have "pf_key (the (best_for fs k)) = k" if "k \<in> set (first_occurrences (map pf_key fs))" for k
    using best_for_exists [of k fs] that by auto
  then have "map (pf_key \<circ> (the \<circ> best_for fs)) (first_occurrences (map pf_key fs))
      = first_occurrences (map pf_key fs)"
    by (intro map_idI) simp
  then show ?thesis by (simp add: deduped_findings_def)
qed

lemma deduped_best: "f \<in> set (deduped_findings fs) \<Longrightarrow> best_for fs (pf_key f) = Some f"
  using best_for_exists [of _ fs] by (force simp: deduped_findings_def)

lemma parse_document_list:
  assumes "jget ''Results'' document = JList results"
  shows "parse_document lib document =
    map_sum id (\<lambda>deduped.
      \<lparr>pr_digest = extract_digest (case jget ''Metadata'' document of JObj m \<Rightarrow> m | _ \<Rightarrow> []),
       pr_artifact_name = clean (jget ''ArtifactName'' document),
       pr_findings = map snd deduped\<rparr>) (add_results lib results [])"
proof -
  have "(if truthy (jget ''Results'' document) then jget ''Results'' document else JList []) = JList results"
    by (simp add: assms)
  then show ?thesis
    by (simp add: parse_document_def Let_def split: sum.split)
qed

section \<open>Errors and fields\<close>

text \<open>A vulnerability that has both identifiers but a severity that is truthy and no string.\<close>

definition bad_severity :: "json \<Rightarrow> bool" where
  "bad_severity vulnerability =
     (case vulnerability of
        JObj v \<Rightarrow> clean (jget ''VulnerabilityID'' v) \<noteq> None \<and> clean (jget ''PkgName'' v) \<noteq> None \<and>
          parse_severity (jget ''Severity'' v) = None
      | _ \<Rightarrow> False)"

definition result_vulnerabilities :: "json \<Rightarrow> json list" where
  "result_vulnerabilities result = (case result of JObj r \<Rightarrow> vulnerabilities_of r | _ \<Rightarrow> [])"

lemma sum_list_map_Inl:
  "sum_list_map f xs = Inl e \<Longrightarrow> \<exists>x \<in> set xs. f x = Inl e"
  by (induction xs) (auto split: sum.splits)

lemma sum_list_map_Inr:
  "(\<forall>x \<in> set xs. \<exists>ys. f x = Inr ys) \<Longrightarrow> \<exists>ys. sum_list_map f xs = Inr ys"
  by (induction xs) (auto split: sum.splits)

lemma sum_list_map_in:
  "sum_list_map f xs = Inr ys \<Longrightarrow> y \<in> set ys \<Longrightarrow> \<exists>x \<in> set xs. \<exists>zs. f x = Inr zs \<and> y \<in> set zs"
  by (induction xs arbitrary: ys) (auto split: sum.splits)

lemma parse_vulnerability_Inl:
  "parse_vulnerability lib t v = Inl e \<Longrightarrow> bad_severity v \<and> exn_name e = ''AttributeError''"
  by (auto simp: parse_vulnerability_def bad_severity_def no_attribute_def split: json.splits option.splits)

lemma parse_vulnerability_bad: "bad_severity v \<Longrightarrow> \<exists>e. parse_vulnerability lib t v = Inl e"
  by (auto simp: parse_vulnerability_def bad_severity_def split: json.splits option.splits)

lemma report_entries_Inl:
  assumes "report_entries lib results = Inl e"
  shows "exn_name e = ''AttributeError'' \<and> (\<exists>r \<in> set results. \<exists>v \<in> set (result_vulnerabilities r). bad_severity v)"
proof -
  from sum_list_map_Inl [OF assms [unfolded report_entries_def]]
  obtain r where r: "r \<in> set results" "entries_of_result lib r = Inl e" by blast
  from r(2) r(1) obtain kvs where k: "r = JObj kvs"
    by (simp add: entries_of_result_def split: json.splits)
  with r obtain v where v: "v \<in> set (vulnerabilities_of kvs)"
    "vulnerability_entries lib (package_type_of kvs) v = Inl e"
    using sum_list_map_Inl [of "vulnerability_entries lib (package_type_of kvs)" "vulnerabilities_of kvs" e]
    by (auto simp: entries_of_result_def)
  then have "bad_severity v \<and> exn_name e = ''AttributeError''"
    by (intro parse_vulnerability_Inl [of lib "package_type_of kvs"])
      (simp add: vulnerability_entries_def split: sum.splits option.splits)
  with r k v show ?thesis
    by (auto simp: result_vulnerabilities_def)
qed

lemma report_entries_bad:
  assumes "r \<in> set results" "v \<in> set (result_vulnerabilities r)" "bad_severity v"
  shows "\<exists>e. report_entries lib results = Inl e"
proof -
  have err: "\<exists>e. sum_list_map f xs = Inl e" if "x \<in> set xs" "f x = Inl e'" for f and xs :: "json list" and x and e' :: exn
    using that by (induction xs) (auto split: sum.splits)
  obtain kvs where k: "r = JObj kvs" "v \<in> set (vulnerabilities_of kvs)"
    using assms(2) by (auto simp: result_vulnerabilities_def split: json.splits)
  obtain e where "vulnerability_entries lib (package_type_of kvs) v = Inl e"
    using parse_vulnerability_bad [OF assms(3), of lib "package_type_of kvs"]
    by (auto simp: vulnerability_entries_def)
  from err [of v "vulnerabilities_of kvs" "vulnerability_entries lib (package_type_of kvs)", OF k(2) this]
  obtain e2 where "entries_of_result lib r = Inl e2"
    by (auto simp: entries_of_result_def k(1))
  from err [of r results "entries_of_result lib", OF assms(1) this] show ?thesis
    by (simp add: report_entries_def)
qed

text \<open>What every parsed finding looks like.\<close>

definition clean_text :: "string \<Rightarrow> bool" where
  "clean_text s \<longleftrightarrow> s \<noteq> [] \<and> strip s = s"

definition well_formed :: "parsed_finding \<Rightarrow> bool" where
  "well_formed f \<longleftrightarrow>
     clean_text (pf_cve_id f) \<and> clean_text (pf_package_name f) \<and>
     clean_text (pf_package_version f) \<and> clean_text (pf_package_type f) \<and>
     pred_option clean_text (pf_fixed_version f) \<and> pred_option clean_text (pf_title f) \<and>
     pred_option clean_text (pf_description f)"

lemma clean_SomeD: "clean v = Some s \<Longrightarrow> clean_text s"
  by (auto simp: clean_def clean_text_def split: json.splits if_splits)

lemma clean_pred [simp]: "pred_option clean_text (clean v)"
  by (cases "clean v") (auto dest: clean_SomeD)

lemma clean_or_unknown [simp]: "clean_text (str_or (clean v) ''unknown'')"
proof -
  have "strip ''unknown'' = ''unknown''" by code_simp
  then show ?thesis
    by (cases "clean v") (auto simp: clean_text_def dest: clean_SomeD)
qed

lemma parse_vulnerability_well_formed:
  "parse_vulnerability lib (package_type_of r) v = Inr (Some f) \<Longrightarrow> well_formed f"
  by (auto simp: parse_vulnerability_def well_formed_def package_type_of_def
      split: json.splits option.splits dest: clean_SomeD)

lemma report_entries_well_formed:
  assumes "report_entries lib results = Inr entries" "f \<in> set entries"
  shows "well_formed f"
proof -
  from sum_list_map_in [OF assms(1) [unfolded report_entries_def] assms(2)]
  obtain r zs where r: "entries_of_result lib r = Inr zs" "f \<in> set zs" by blast
  from r obtain kvs where k: "r = JObj kvs"
    by (auto simp: entries_of_result_def split: json.splits)
  with r sum_list_map_in [of "vulnerability_entries lib (package_type_of kvs)" "vulnerabilities_of kvs" zs f]
  obtain v ys where "vulnerability_entries lib (package_type_of kvs) v = Inr ys" "f \<in> set ys"
    by (auto simp: entries_of_result_def)
  then have "parse_vulnerability lib (package_type_of kvs) v = Inr (Some f)"
    by (auto simp: vulnerability_entries_def split: sum.splits option.splits)
  then show ?thesis by (rule parse_vulnerability_well_formed)
qed

end
