(* ===== verification/Config.thy ===== *)
theory Config
  imports Pystring
begin

text \<open>
  The settings of src/app/config.py with their defaults, the startup validator and the
  connection strings.
\<close>

datatype log_format_kind = LOG_JSON | LOG_TEXT

record settings =
  postgres_host :: string
  postgres_port :: int
  postgres_user :: string
  postgres_password :: string
  postgres_db :: string
  default_scan_interval_seconds :: int
  scheduler_tick_seconds :: int
  max_failure_backoff_seconds :: int
  worker_poll_seconds :: int
  lease_seconds :: int
  max_attempts :: int
  backoff_base_seconds :: int
  backoff_max_seconds :: int
  trivy_bin :: string
  trivy_cache_dir :: string
  trivy_db_dir :: string
  trivy_timeout_seconds :: int
  trivy_server_url :: "string option"
  log_level :: string
  log_format :: log_format_kind
  page_size_default :: int
  page_size_max :: int

definition default_settings :: settings where
  "default_settings = \<lparr>
     postgres_host = ''postgres'', postgres_port = 5432, postgres_user = ''scanner'',
     postgres_password = ''scanner'', postgres_db = ''scanner'',
     default_scan_interval_seconds = 900, scheduler_tick_seconds = 10,
     max_failure_backoff_seconds = 86400, worker_poll_seconds = 5,
     lease_seconds = 1200, max_attempts = 5, backoff_base_seconds = 30,
     backoff_max_seconds = 3600, trivy_bin = ''trivy'', trivy_cache_dir = ''/trivy-cache'',
     trivy_db_dir = ''/trivy-db'', trivy_timeout_seconds = 900, trivy_server_url = None,
     log_level = ''INFO'', log_format = LOG_JSON, page_size_default = 100, page_size_max = 1000\<rparr>"

text \<open>The model validator, run on every construction: the settings or the ValueError's text.\<close>

definition lease_outlives_a_scan :: "settings \<Rightarrow> string + settings" where
  "lease_outlives_a_scan s =
     (if lease_seconds s \<le> trivy_timeout_seconds s
      then Inl (''lease_seconds ('' @ str_of_int (lease_seconds s) @ '') must exceed trivy_timeout_seconds (''
        @ str_of_int (trivy_timeout_seconds s) @ ''), otherwise a slow scan loses its lease ''
        @ ''mid-flight and a second worker starts the same scan.'')
      else Inr s)"

definition dsn_tail :: "settings \<Rightarrow> string" where
  "dsn_tail s = postgres_user s @ '':'' @ postgres_password s @ ''@'' @ postgres_host s @ '':''
     @ str_of_int (postgres_port s) @ ''/'' @ postgres_db s"

definition sync_dsn :: "settings \<Rightarrow> string" where
  "sync_dsn s = ''postgresql+psycopg://'' @ dsn_tail s"

definition async_dsn :: "settings \<Rightarrow> string" where
  "async_dsn s = ''postgresql+asyncpg://'' @ dsn_tail s"

text \<open>The parts of a DSN are not quoted, so it does not determine the settings.\<close>

lemma dsn_not_injective:
  "sync_dsn (default_settings\<lparr>postgres_user := ''a:b'', postgres_password := ''c''\<rparr>)
     = sync_dsn (default_settings\<lparr>postgres_user := ''a'', postgres_password := ''b:c''\<rparr>)"
  by (simp add: sync_dsn_def dsn_tail_def)

lemma lease_validator_iff:
  "lease_outlives_a_scan s = Inr t \<longleftrightarrow> t = s \<and> trivy_timeout_seconds s < lease_seconds s"
  by (auto simp: lease_outlives_a_scan_def)

end
