(* ===== verification/Trivy.thy ===== *)
theory Trivy
  imports Report_Parser Config
begin

text \<open>
  The subprocess plumbing (src/app/scanner/trivy.py): the flags of a scan and their hash, the
  command lines, the classification of how a process ended, and the two version probes. How
  a process ends and what a file holds are parameters.
\<close>

text \<open>What \<open>subprocess.run\<close> does on a command line and a timeout.\<close>

datatype process_result =
    Binary_missing
  | Timed_out
  | Spawn_failed exn
  | Completed int string string

type_synonym spawn = "string list \<Rightarrow> int \<Rightarrow> process_result"

text \<open>What reading a file as UTF-8 text does; a path is its components.\<close>

datatype file_result =
    OS_error
  | Undecodable exn
  | File_text string

type_synonym file_system = "string list \<Rightarrow> file_result"

section \<open>Command lines\<close>

text \<open>\<open>if settings.trivy_server_url\<close>: None and the empty string are both standalone mode.\<close>

definition scan_flags :: "settings \<Rightarrow> string list" where
  "scan_flags s =
     [''--format'', ''json'', ''--quiet'', ''--scanners'', ''vuln'', ''--image-src'', ''remote''] @
     (if str_or (trivy_server_url s) [] \<noteq> [] then [''--server'', str_or (trivy_server_url s) []]
      else [''--skip-db-update''])"

definition scan_flags_hash :: "stdlib \<Rightarrow> settings \<Rightarrow> string" where
  "scan_flags_hash lib s = take 32 (sha256_hex lib (json_dumps (scan_flags s)))"

definition build_argv :: "string \<Rightarrow> settings \<Rightarrow> string list" where
  "build_argv image_ref s =
     [trivy_bin s, ''image'', ''--cache-dir'', trivy_cache_dir s] @ scan_flags s @ [image_ref]"

section \<open>Running a process\<close>

text \<open>The detail of a failure: stderr, or stdout when stderr is empty, stripped and cut.\<close>

definition failure_detail :: "string \<Rightarrow> string \<Rightarrow> string" where
  "failure_detail stdout stderr = take 2000 (strip (if stderr \<noteq> [] then stderr else stdout))"

definition run_process :: "spawn \<Rightarrow> string list \<Rightarrow> int \<Rightarrow> exn + string" where
  "run_process spawn argv timeout =
     (case spawn argv timeout of
        Binary_missing \<Rightarrow> Inl (TrivyError (''trivy binary not found: '' @ hd argv))
      | Timed_out \<Rightarrow> Inl (TrivyTimeout (''trivy timed out after '' @ str_of_int timeout @ ''s''))
      | Spawn_failed e \<Rightarrow> Inl e
      | Completed returncode stdout stderr \<Rightarrow>
          if returncode \<noteq> 0 then
            (let detail = failure_detail stdout stderr;
                 message = ''trivy exited '' @ str_of_int returncode @ '': '' @ detail
             in if is_rate_limit_error (Some detail) then Inl (TrivyRateLimited message)
                else Inl (TrivyError message))
          else Inr stdout)"

definition run_scan :: "spawn \<Rightarrow> string \<Rightarrow> settings \<Rightarrow> exn + string" where
  "run_scan spawn image_ref s = run_process spawn (build_argv image_ref s) (trivy_timeout_seconds s)"

section \<open>Version probes\<close>

text \<open>\<open>payload.get(k)\<close> raises on a document that is not an object.\<close>

definition db_version :: "stdlib \<Rightarrow> file_system \<Rightarrow> settings \<Rightarrow> exn + string" where
  "db_version lib fs s =
     (case fs [trivy_db_dir s, ''db'', ''metadata.json''] of
        OS_error \<Rightarrow> Inr ''unknown''
      | Undecodable e \<Rightarrow> Inl e
      | File_text t \<Rightarrow>
          (case json_loads t of
             None \<Rightarrow> Inr ''unknown''
           | Some (JObj payload) \<Rightarrow>
               Inr (py_str lib
                 (if truthy (jget ''UpdatedAt'' payload) then jget ''UpdatedAt'' payload
                  else if truthy (jget ''Version'' payload) then jget ''Version'' payload
                  else JStr ''unknown''))
           | Some v \<Rightarrow> Inl (no_attribute v ''get'')))"

definition probe_versions :: "stdlib \<Rightarrow> spawn \<Rightarrow> file_system \<Rightarrow> settings \<Rightarrow> exn + (string \<times> string)" where
  "probe_versions lib spawn fs s =
     (case run_process spawn [trivy_bin s, ''--version'', ''--format'', ''json''] 60 of
        Inl e \<Rightarrow> Inl e
      | Inr raw \<Rightarrow>
          (case json_loads raw of
             None \<Rightarrow> Inl (TrivyError (''could not parse trivy --version output: '' @ json_error lib raw))
           | Some (JObj payload) \<Rightarrow>
               (case db_version lib fs s of
                  Inl e \<Rightarrow> Inl e
                | Inr db_v \<Rightarrow>
                    Inr (py_str lib (if truthy (jget ''Version'' payload) then jget ''Version'' payload
                                     else JStr ''unknown''), db_v))
           | Some v \<Rightarrow> Inl (no_attribute v ''get'')))"

section \<open>Lemmas\<close>

lemma scan_flags_eq_iff:
  "scan_flags s = scan_flags t \<longleftrightarrow> str_or (trivy_server_url s) [] = str_or (trivy_server_url t) []"
  by (auto simp: scan_flags_def)

lemma run_process_failed:
  "spawn argv timeout = Completed rc out err \<Longrightarrow> rc \<noteq> 0 \<Longrightarrow>
   run_process spawn argv timeout =
     Inl ((if is_rate_limit_error (Some (failure_detail out err)) then TrivyRateLimited else TrivyError)
       (''trivy exited '' @ str_of_int rc @ '': '' @ failure_detail out err))"
  by (simp add: run_process_def Let_def)

text \<open>A failure that is not an exception of the spawn itself is always one of Trivy's.\<close>

lemma run_process_errors:
  "run_process spawn argv timeout = Inl e \<Longrightarrow> (\<forall>x. spawn argv timeout \<noteq> Spawn_failed x) \<Longrightarrow> is_trivy_error e"
  by (auto simp: run_process_def Let_def split: process_result.splits if_splits)

end
