(* ===== verification/Report_Props.thy ===== *)
theory Report_Props
  imports Trivy Registry_Props
begin

text \<open>
  The properties of the report parser and of the Trivy plumbing: which findings a report
  yields, which documents it refuses, how a failed process is classified, and what the flags
  hash identifies.
\<close>

section \<open>A concrete report\<close>

text \<open>A document written with back-quotes for its double quotes.\<close>

definition quoted :: "string \<Rightarrow> string" where
  "quoted s = map (\<lambda>c. if c = CHR ''`'' then CHR 0x22 else c) s"

definition sample_raw :: string where
  "sample_raw = quoted (''{`Results`:[{`Type`:`deb`,`Vulnerabilities`:['' @
     ''{`VulnerabilityID`:`C1`,`PkgName`:`z`,`Severity`:`LOW`},'' @
     ''{`VulnerabilityID`:`C2`,`PkgName`:`z`},'' @
     ''{`VulnerabilityID`:` C1 `,`PkgName`:`z`,`Severity`:`high`}]},7]}'')"

definition sample_vulnerabilities :: "json list" where
  "sample_vulnerabilities =
     [JObj [(''VulnerabilityID'', JStr ''C1''), (''PkgName'', JStr ''z''), (''Severity'', JStr ''LOW'')],
      JObj [(''VulnerabilityID'', JStr ''C2''), (''PkgName'', JStr ''z'')],
      JObj [(''VulnerabilityID'', JStr '' C1 ''), (''PkgName'', JStr ''z''), (''Severity'', JStr ''high'')]]"

definition sample_results :: "json list" where
  "sample_results = [JObj [(''Type'', JStr ''deb''), (''Vulnerabilities'', JList sample_vulnerabilities)], JInt 7]"

definition sample_entry :: "string \<Rightarrow> severity \<Rightarrow> parsed_finding" where
  "sample_entry cid sev = \<lparr>pf_cve_id = cid, pf_package_name = ''z'', pf_package_version = ''unknown'',
     pf_package_type = ''deb'', pf_severity = sev, pf_fixed_version = None, pf_title = None,
     pf_description = None, pf_published_at = None, pf_last_modified_at = None\<rparr>"

lemma sample_raw_loads: "json_loads sample_raw = Some (JObj [(''Results'', JList sample_results)])"
  by code_simp

lemma sample_raw_strip: "strip sample_raw \<noteq> []"
  by code_simp

lemma sample_entries:
  "report_entries sample_lib sample_results
     = Inr [sample_entry ''C1'' LOW, sample_entry ''C2'' UNKNOWN, sample_entry ''C1'' HIGH]"
  by code_simp

section \<open>The report\<close>

text \<open>C13. The findings of a report. When parsing succeeds, the findings are exactly one per
  (CVE, package, version, type), in the order in which these keys first occur among the
  vulnerabilities of all results, and each is the first of the highest severity among the
  vulnerabilities with its key; no key that occurs is missing and none occurs twice.\<close>

theorem report_keeps_highest_severity:
  assumes "json_loads raw = Some (JObj document)" and "strip raw \<noteq> []"
    and "jget ''Results'' document = JList results"
    and "report_entries lib results = Inr entries"
  shows "\<exists>r. parse_report lib raw = Inr r \<and>
    map pf_key (pr_findings r) = first_occurrences (map pf_key entries) \<and>
    (\<forall>f \<in> set (pr_findings r). best_for entries (pf_key f) = Some f \<and> f \<in> set entries \<and>
       (\<forall>g \<in> set entries. pf_key g = pf_key f \<longrightarrow> pf_severity g \<le> pf_severity f))"
proof -
  have "add_results lib results [] = Inr (dedupe_from [] entries)"
    using assms(4) by (simp add: add_results_entries)
  then have "\<exists>r. parse_report lib raw = Inr r \<and> pr_findings r = deduped_findings entries"
    using assms(1-2) parse_document_list [OF assms(3)]
    by (simp add: parse_report_def dedupe_values deduped_findings_def)
  then obtain r where "parse_report lib raw = Inr r" "pr_findings r = deduped_findings entries"
    by blast
  moreover have "best_for entries (pf_key f) = Some f \<and> f \<in> set entries \<and>
      (\<forall>g \<in> set entries. pf_key g = pf_key f \<longrightarrow> pf_severity g \<le> pf_severity f)"
    if "f \<in> set (deduped_findings entries)" for f
    using best_for_SomeD [OF deduped_best [OF that]] deduped_best [OF that]
    by (simp add: less_eq_severity_def)
  ultimately show ?thesis by (auto simp: deduped_keys)
qed

theorem report_keeps_highest_severity_witness:
  "\<exists>r. parse_report sample_lib sample_raw = Inr r \<and>
    map pf_cve_id (pr_findings r) = [''C1'', ''C2''] \<and> sample_entry ''C1'' HIGH \<in> set (pr_findings r)"
proof -
  let ?es = "[sample_entry ''C1'' LOW, sample_entry ''C2'' UNKNOWN, sample_entry ''C1'' HIGH]"
  have R: "jget ''Results'' [(''Results'', JList sample_results)] = JList sample_results"
    by (simp add: jget_def)
  from report_keeps_highest_severity [OF sample_raw_loads sample_raw_strip R sample_entries]
  obtain r where r: "parse_report sample_lib sample_raw = Inr r"
    "map pf_key (pr_findings r) = first_occurrences (map pf_key ?es)"
    "\<forall>f \<in> set (pr_findings r). best_for ?es (pf_key f) = Some f" by blast
  have "first_occurrences (map pf_key ?es)
      = [(''C1'', ''z'', ''unknown'', ''deb''), (''C2'', ''z'', ''unknown'', ''deb'')]"
    by (simp add: first_occurrences_def pf_key_def sample_entry_def)
  then obtain f g where fg: "pr_findings r = [f, g]" "pf_key f = (''C1'', ''z'', ''unknown'', ''deb'')"
    "pf_key g = (''C2'', ''z'', ''unknown'', ''deb'')"
    using r(2) by (auto simp: map_eq_Cons_conv)
  with r(3) have "best_for ?es (''C1'', ''z'', ''unknown'', ''deb'') = Some f" by simp
  then have "f = sample_entry ''C1'' HIGH"
    by (simp add: best_for_def pf_key_def sample_entry_def rank_def)
  with fg r(1) show ?thesis by (auto simp: pf_key_def)
qed

definition report_refused :: "string \<Rightarrow> bool" where
  "report_refused raw =
     (strip raw = [] \<or>
      (case json_loads raw of
         Some (JObj d) \<Rightarrow> truthy (jget ''Results'' d) \<and> (\<nexists>rs. jget ''Results'' d = JList rs)
       | _ \<Rightarrow> True))"

lemma parse_report_refused:
  "report_refused raw \<Longrightarrow> \<exists>m. parse_report lib raw = Inl (TrivyReportError m)"
  by (auto simp: report_refused_def parse_report_def parse_document_def Let_def
      split: option.splits json.splits)

lemma parse_report_accepted:
  assumes "\<not> report_refused raw"
  shows "\<exists>d rs. json_loads raw = Some (JObj d) \<and> (jget ''Results'' d = JList rs \<or> \<not> truthy (jget ''Results'' d) \<and> rs = []) \<and>
    (case report_entries lib rs of
       Inl e \<Rightarrow> parse_report lib raw = Inl e
     | Inr es \<Rightarrow> \<exists>r. parse_report lib raw = Inr r \<and> pr_findings r = deduped_findings es)"
proof -
  from assms obtain d where d: "json_loads raw = Some (JObj d)" "strip raw \<noteq> []"
    "truthy (jget ''Results'' d) \<longrightarrow> (\<exists>rs. jget ''Results'' d = JList rs)"
    by (auto simp: report_refused_def split: option.splits json.splits)
  show ?thesis
  proof (cases "\<exists>rs. jget ''Results'' d = JList rs")
    case True
    then obtain rs where rs: "jget ''Results'' d = JList rs" by blast
    have "parse_report lib raw = parse_document lib d" using d by (simp add: parse_report_def)
    then show ?thesis
      using d(1) rs parse_document_list [OF rs, of lib]
      by (auto simp: add_results_entries dedupe_values deduped_findings_def split: sum.splits)
  next
    case False
    with d(3) have "\<not> truthy (jget ''Results'' d)" by blast
    then have "\<exists>r. parse_report lib raw = Inr r \<and> pr_findings r = []"
      using d by (simp add: parse_report_def parse_document_def Let_def)
    with d(1) \<open>\<not> truthy _\<close> show ?thesis
      by (auto simp: report_entries_def deduped_findings_def intro!: exI [of _ d] exI [of _ "[]"])
  qed
qed

lemma parse_report_distinct:
  assumes "parse_report lib raw = Inr r"
  shows "distinct (map pf_key (pr_findings r))"
proof -
  have "\<not> report_refused raw" using assms parse_report_refused [of raw lib] by auto
  from parse_report_accepted [OF this, of lib] obtain rs where
    "case report_entries lib rs of Inl e \<Rightarrow> parse_report lib raw = Inl e
      | Inr es \<Rightarrow> \<exists>r. parse_report lib raw = Inr r \<and> pr_findings r = deduped_findings es" by blast
  then obtain es where "pr_findings r = deduped_findings es"
    using assms by (cases "report_entries lib rs") auto
  then show ?thesis by (simp add: deduped_keys)
qed

text \<open>C29. Which documents are refused, and how. Parsing raises TrivyReportError exactly when the
  output is blank, is not JSON, is not an object, or has a Results that is neither falsy nor
  a list; absent, null or otherwise falsy Results are a report without findings. The only other
  failure is the AttributeError of a vulnerability that can be keyed but whose Severity is
  truthy and not a string, and one such vulnerability anywhere fails the whole report.\<close>

theorem report_errors:
  "((\<exists>m. parse_report lib raw = Inl (TrivyReportError m)) \<longleftrightarrow> report_refused raw) \<and>
   (\<not> report_refused raw \<longrightarrow> (\<exists>d. json_loads raw = Some (JObj d) \<and>
      (\<not> truthy (jget ''Results'' d) \<longrightarrow> (\<exists>r. parse_report lib raw = Inr r \<and> pr_findings r = [])) \<and>
      (\<forall>rs. jget ''Results'' d = JList rs \<longrightarrow>
         (if \<exists>r \<in> set rs. \<exists>v \<in> set (result_vulnerabilities r). bad_severity v
          then \<exists>e. parse_report lib raw = Inl e \<and> exn_name e = ''AttributeError''
          else \<exists>r. parse_report lib raw = Inr r))))"
proof (cases "report_refused raw")
  case True
  with parse_report_refused [OF True] show ?thesis by simp
next
  case False
  from parse_report_accepted [OF False, of lib] obtain d rs where
    d: "json_loads raw = Some (JObj d)" and rs: "jget ''Results'' d = JList rs \<or> \<not> truthy (jget ''Results'' d) \<and> rs = []"
    and p: "case report_entries lib rs of Inl e \<Rightarrow> parse_report lib raw = Inl e
      | Inr es \<Rightarrow> \<exists>r. parse_report lib raw = Inr r \<and> pr_findings r = deduped_findings es"
    by blast
  let ?bad = "\<exists>r \<in> set rs. \<exists>v \<in> set (result_vulnerabilities r). bad_severity v"
  have err: "if ?bad then \<exists>e. parse_report lib raw = Inl e \<and> exn_name e = ''AttributeError''
      else \<exists>r. parse_report lib raw = Inr r"
  proof (cases "report_entries lib rs")
    case (Inl e)
    with p report_entries_Inl [OF Inl] show ?thesis by auto
  next
    case (Inr es)
    then have "\<not> ?bad" using report_entries_bad [of _ rs _ lib] by force
    with p Inr show ?thesis by auto
  qed
  have "parse_report lib raw \<noteq> Inl (TrivyReportError m)" for m
    using err by (auto split: if_splits)
  moreover have "\<exists>r. parse_report lib raw = Inr r \<and> pr_findings r = []" if "\<not> truthy (jget ''Results'' d)"
    using that rs p by (auto simp: report_entries_def deduped_findings_def)
  moreover have "rs' = rs" if "jget ''Results'' d = JList rs'" for rs'
    using that rs by auto
  ultimately show ?thesis
    using False d err by auto
qed

theorem report_errors_witness:
  "\<exists>r. parse_report sample_lib sample_raw = Inr r"
proof -
  have raw: "\<not> report_refused sample_raw"
    by (simp add: report_refused_def sample_raw_loads sample_raw_strip jget_def)
  have R: "jget ''Results'' [(''Results'', JList sample_results)] = JList sample_results"
    by (simp add: jget_def)
  have ok: "\<not> (\<exists>r \<in> set sample_results. \<exists>v \<in> set (result_vulnerabilities r). bad_severity v)"
    by code_simp
  from report_errors [of sample_lib sample_raw, THEN conjunct2, rule_format, OF raw] R ok show ?thesis
    by (auto simp: sample_raw_loads)
qed

text \<open>C40. What a finding of a parsed report looks like: its CVE, package, version and type are
  non-empty and carry no surrounding white space, and so are its fixed version, title and
  description when they are present.\<close>

theorem report_findings_clean:
  assumes "parse_report lib raw = Inr r" and "f \<in> set (pr_findings r)"
  shows "well_formed f"
proof -
  have "\<not> report_refused raw"
    using assms(1) parse_report_refused [of raw lib] by auto
  from parse_report_accepted [OF this, of lib] obtain rs where
    "case report_entries lib rs of Inl e \<Rightarrow> parse_report lib raw = Inl e
      | Inr es \<Rightarrow> \<exists>r. parse_report lib raw = Inr r \<and> pr_findings r = deduped_findings es" by blast
  then obtain es where es: "report_entries lib rs = Inr es" "pr_findings r = deduped_findings es"
    using assms(1) by (auto split: sum.splits)
  then have "f \<in> set es"
    using assms(2) best_for_SomeD(1) [OF deduped_best] by simp
  with es(1) show ?thesis by (rule report_entries_well_formed)
qed

theorem report_findings_clean_witness:
  "\<exists>r. parse_report sample_lib sample_raw = Inr r \<and> (\<forall>f \<in> set (pr_findings r). well_formed f)"
proof -
  have "\<not> report_refused sample_raw"
    by (simp add: report_refused_def sample_raw_loads sample_raw_strip jget_def)
  moreover have "sample_results \<noteq> []" by (simp add: sample_results_def)
  ultimately obtain r where "parse_report sample_lib sample_raw = Inr r"
    using parse_report_accepted [of sample_raw sample_lib]
    by (auto simp: sample_raw_loads jget_def sample_entries)
  with report_findings_clean [OF this] show ?thesis by blast
qed

section \<open>The scanner process\<close>

text \<open>C30. How a scan process that exits non-zero is classified. Whatever the letter case, a
  throttling marker that lies within the first 2000 characters of the stripped diagnostics
  (stderr, or stdout when stderr is empty) makes the failure backpressure; without a marker
  there it is a plain TrivyError. Either way the exit code and these characters are the
  message.\<close>

theorem failed_scan_classified:
  assumes "spawn (build_argv image_ref s) (trivy_timeout_seconds s) = Completed rc out err" "rc \<noteq> 0"
    and "strip (if err \<noteq> [] then err else out) = a @ m @ b"
  shows "(lower m \<in> set RATE_LIMIT_MARKERS \<and> length (a @ m) \<le> 2000 \<longrightarrow>
      run_scan spawn image_ref s =
        Inl (TrivyRateLimited (''trivy exited '' @ str_of_int rc @ '': '' @ failure_detail out err))) \<and>
    ((\<forall>x mk y. lower (failure_detail out err) = x @ mk @ y \<longrightarrow> mk \<notin> set RATE_LIMIT_MARKERS) \<longrightarrow>
      run_scan spawn image_ref s =
        Inl (TrivyError (''trivy exited '' @ str_of_int rc @ '': '' @ failure_detail out err)))"
proof -
  have run: "run_scan spawn image_ref s =
      Inl ((if is_rate_limit_error (Some (failure_detail out err)) then TrivyRateLimited else TrivyError)
        (''trivy exited '' @ str_of_int rc @ '': '' @ failure_detail out err))"
    unfolding run_scan_def
    by (rule run_process_failed [where argv = "build_argv image_ref s" and timeout = "trivy_timeout_seconds s"])
       (fact assms)+
  have "is_rate_limit_error (Some (failure_detail out err))"
    if m: "lower m \<in> set RATE_LIMIT_MARKERS" "length (a @ m) \<le> 2000"
  proof -
    have "failure_detail out err = a @ m @ take (2000 - length (a @ m)) b"
      using m(2) by (simp add: failure_detail_def assms(3))
    then have c: "contains (lower m) (lower (failure_detail out err))"
      by (simp add: lower_append contains_append)
    have "m \<noteq> []" using m(1) by (auto simp: RATE_LIMIT_MARKERS_def lower_def)
    with c m(1) \<open>failure_detail out err = _\<close> show ?thesis
      by (auto simp: is_rate_limit_error_def list_ex_iff)
  qed
  moreover have "\<not> is_rate_limit_error (Some (failure_detail out err))"
    if "\<forall>x mk y. lower (failure_detail out err) = x @ mk @ y \<longrightarrow> mk \<notin> set RATE_LIMIT_MARKERS"
    using that by (auto simp: is_rate_limit_error_def list_ex_iff contains_iff)
  ultimately show ?thesis by (simp add: run)
qed

theorem failed_scan_classified_witness:
  "run_scan (\<lambda>_ _. Completed 1 [] '' TOOMANYREQUESTS: slow down'') ''nginx:1'' default_settings
    = Inl (TrivyRateLimited ''trivy exited 1: TOOMANYREQUESTS: slow down'')"
proof -
  let ?err = "'' TOOMANYREQUESTS: slow down''"
  have s: "strip ?err = [] @ ''TOOMANYREQUESTS'' @ '': slow down''" by code_simp
  have m: "lower ''TOOMANYREQUESTS'' \<in> set RATE_LIMIT_MARKERS" by code_simp
  have d: "failure_detail [] ?err = ''TOOMANYREQUESTS: slow down''"
    using s by (simp add: failure_detail_def)
  have "str_of_int 1 = ''1''" by code_simp
  then show ?thesis
    using failed_scan_classified [of "\<lambda>_ _. Completed 1 [] ?err" "''nginx:1''" default_settings 1 "[]" ?err
        "[]" "''TOOMANYREQUESTS''" "'': slow down''"] s m d
    by simp
qed

text \<open>What the flags hash identifies. As long as SHA-256, cut to 32 hex digits, does not
  collide on the two flag lists, two configurations have the same hash exactly when they scan
  through the same server (an empty URL counting as none), so that pointing the scanner at
  another server, or at none, invalidates every previous result and nothing else does.\<close>

theorem flags_hash_identifies_server:
  assumes "take 32 (sha256_hex lib (json_dumps (scan_flags s))) = take 32 (sha256_hex lib (json_dumps (scan_flags t)))
    \<Longrightarrow> json_dumps (scan_flags s) = json_dumps (scan_flags t)"
  shows "scan_flags_hash lib s = scan_flags_hash lib t \<longleftrightarrow>
    str_or (trivy_server_url s) [] = str_or (trivy_server_url t) []"
  using assms scan_flags_eq_iff [of s t] json_dumps_inject [of "scan_flags s" "scan_flags t"]
  by (auto simp: scan_flags_hash_def)

theorem flags_hash_identifies_server_witness:
  "scan_flags_hash (sample_lib\<lparr>sha256_hex := rev\<rparr>) default_settings
    \<noteq> scan_flags_hash (sample_lib\<lparr>sha256_hex := rev\<rparr>) (default_settings\<lparr>trivy_server_url := Some ''http://t:4954''\<rparr>)"
proof -
  let ?l = "sample_lib\<lparr>sha256_hex := rev\<rparr>" and ?t = "default_settings\<lparr>trivy_server_url := Some ''http://t:4954''\<rparr>"
  have "take 32 (sha256_hex ?l (json_dumps (scan_flags default_settings)))
      \<noteq> take 32 (sha256_hex ?l (json_dumps (scan_flags ?t)))"
    by code_simp
  then show ?thesis
    using flags_hash_identifies_server [of ?l default_settings ?t] by (simp add: default_settings_def)
qed

end
