(* ===== verification/Persist.thy ===== *)
theory Persist
  imports Queue Report_Parser
begin

text \<open>
  Writing a scan result (src/app/scanner/persist.py). Everything runs in the caller's
  transaction; a statement or flush that the database refuses is a \<open>sql_error\<close> and the
  transaction is lost. The image is an ORM object the caller loaded earlier: \<open>save_image\<close>
  flushes its changed columns to the row with its id. An INSERT ... ON CONFLICT is
  \<open>upsert_rows\<close>.
\<close>

section \<open>Runs\<close>

record run_metadata =
  m_digest :: "string option"
  m_trivy_version :: "string option"
  m_trivy_db_version :: "string option"
  m_scan_flags_hash :: "string option"
  m_started_at :: time
  m_completed_at :: time

definition duration_ms :: "run_metadata \<Rightarrow> int" where
  "duration_ms meta = trunc_millis (m_completed_at meta - m_started_at meta)"

definition new_run :: "image \<Rightarrow> scan_job option \<Rightarrow> run_status \<Rightarrow> run_metadata \<Rightarrow> string option \<Rightarrow> int \<Rightarrow> scan_run" where
  "new_run img job status meta error k =
     \<lparr>r_id = k, r_image_id = i_id img, r_scan_job_id = map_option j_id job,
      r_started_at = m_started_at meta, r_completed_at = Some (m_completed_at meta),
      r_status = status, r_digest = m_digest meta, r_trivy_version = m_trivy_version meta,
      r_trivy_db_version = m_trivy_db_version meta, r_scan_flags_hash = m_scan_flags_hash meta,
      r_duration_ms = Some (duration_ms meta), r_error = error,
      r_finding_count_critical = None, r_finding_count_high = None, r_finding_count_medium = None,
      r_finding_count_low = None, r_finding_count_unknown = None\<rparr>"

text \<open>The columns of a run that are bounded strings.\<close>

definition run_fits :: "run_metadata \<Rightarrow> bool" where
  "run_fits meta \<longleftrightarrow> varchar_opt 128 (m_digest meta) \<and> varchar_opt 64 (m_trivy_version meta) \<and>
     varchar_opt 64 (m_trivy_db_version meta) \<and> varchar_opt 64 (m_scan_flags_hash meta)"

text \<open>\<open>session.add(run); session.flush()\<close>.\<close>

definition insert_run ::
    "image \<Rightarrow> scan_job option \<Rightarrow> run_status \<Rightarrow> run_metadata \<Rightarrow> string option \<Rightarrow> db \<Rightarrow> sql_error + (db \<times> scan_run)" where
  "insert_run img job status meta error d =
     (let k = next_run_id d; run = new_run img job status meta error k
      in if \<not> run_fits meta then Inl DataError
         else if i_id img \<notin> i_id ` set (images d) then Inl ForeignKeyViolation
         else Inr (d\<lparr>scan_runs := scan_runs d @ [run], next_run_id := k + 1\<rparr>, run))"

text \<open>The flush of a changed image object: only columns that differ from the loaded value.\<close>

definition merge_image :: "image \<Rightarrow> image \<Rightarrow> image \<Rightarrow> image" where
  "merge_image loaded new row = row\<lparr>
     i_current_scan_run_id := pick (i_current_scan_run_id loaded) (i_current_scan_run_id new) (i_current_scan_run_id row),
     i_consecutive_failures := pick (i_consecutive_failures loaded) (i_consecutive_failures new) (i_consecutive_failures row),
     i_last_scan_at := pick (i_last_scan_at loaded) (i_last_scan_at new) (i_last_scan_at row),
     i_last_scan_status := pick (i_last_scan_status loaded) (i_last_scan_status new) (i_last_scan_status row)\<rparr>"

definition save_image :: "image \<Rightarrow> image \<Rightarrow> db \<Rightarrow> sql_error + db" where
  "save_image loaded new d =
     (if new = loaded then Inr d
      else if i_id loaded \<notin> i_id ` set (images d) then Inl StaleDataError
      else Inr (d\<lparr>images := update_rows (\<lambda>i. i_id i = i_id loaded) (merge_image loaded new) (images d)\<rparr>))"

section \<open>Bind parameters\<close>

text \<open>The multi-row INSERTs pass every value as a parameter of its own, and the wire protocol
  counts the parameters of a statement in 16 bits: the driver refuses to send more than
  \<open>MAX_BIND_PARAMETERS\<close> (an OperationalError), before the server sees the statement.\<close>

definition MAX_BIND_PARAMETERS :: int where
  "MAX_BIND_PARAMETERS = 65535"

definition bindable :: "int \<Rightarrow> 'a list \<Rightarrow> bool" where
  "bindable columns rows \<longleftrightarrow> columns * int (length rows) \<le> MAX_BIND_PARAMETERS"

section \<open>Packages\<close>

definition finding_package :: "parsed_finding \<Rightarrow> string \<times> string \<times> string" where
  "finding_package f = (pf_package_name f, pf_package_version f, pf_package_type f)"

definition package_keys :: "parsed_report \<Rightarrow> (string \<times> string \<times> string) list" where
  "package_keys report = sort (remdups (map finding_package (pr_findings report)))"

fun package_fits :: "string \<times> string \<times> string \<Rightarrow> bool" where
  "package_fits (n, v, t) = (varchar 255 n \<and> varchar 255 v \<and> varchar 64 t)"

fun make_package :: "int \<Rightarrow> string \<times> string \<times> string \<Rightarrow> package" where
  "make_package k (n, v, t) = \<lparr>p_id = k, p_name = n, p_version = v, p_type = t\<rparr>"

definition insert_packages :: "(string \<times> string \<times> string) list \<Rightarrow> db \<Rightarrow> db" where
  "insert_packages keys d =
     d\<lparr>packages := upsert_rows package_key id make_package (\<lambda>_ p. p) (next_package_id d) keys (packages d),
       next_package_id := next_package_id d + int (length keys)\<rparr>"

text \<open>The INSERT, then the ids of all the keys, old and new.\<close>

definition upsert_packages ::
    "parsed_report \<Rightarrow> db \<Rightarrow> sql_error + (db \<times> ((string \<times> string \<times> string) \<times> int) list)" where
  "upsert_packages report d =
     (let keys = package_keys report
      in if keys = [] then Inr (d, [])
         else if \<not> bindable 3 keys then Inl TooManyParameters
         else if \<not> list_all package_fits keys then Inl DataError
         else (let d' = insert_packages keys d
               in Inr (d', map (\<lambda>p. (package_key p, p_id p))
                             (filter (\<lambda>p. package_key p \<in> set keys) (packages d')))))"

section \<open>CVEs\<close>

record cve_row =
  cr_id :: string
  cr_title :: "string option"
  cr_description :: "string option"
  cr_published_at :: "time option"
  cr_last_modified_at :: "time option"

text \<open>COALESCE(a, b).\<close>

fun coalesce :: "'a option \<Rightarrow> 'a option \<Rightarrow> 'a option" where
  "coalesce None b = b"
| "coalesce (Some a) b = Some a"

definition add_cve_row :: "parsed_finding \<Rightarrow> (string \<times> cve_row) list \<Rightarrow> (string \<times> cve_row) list" where
  "add_cve_row f by_id =
     (let cid = pf_cve_id f;
          cur = (case map_of by_id cid of
                   None \<Rightarrow> \<lparr>cr_id = cid, cr_title = None, cr_description = None,
                            cr_published_at = None, cr_last_modified_at = None\<rparr>
                 | Some row \<Rightarrow> row)
      in dict_set cid
           (cur\<lparr>cr_title := coalesce (cr_title cur) (pf_title f),
                cr_description := coalesce (cr_description cur) (pf_description f),
                cr_published_at := coalesce (cr_published_at cur) (pf_published_at f),
                cr_last_modified_at := coalesce (cr_last_modified_at cur) (pf_last_modified_at f)\<rparr>) by_id)"

definition cve_rows :: "parsed_report \<Rightarrow> cve_row list" where
  "cve_rows report = map snd (foldl (\<lambda>by_id f. add_cve_row f by_id) [] (pr_findings report))"

text \<open>A new row, with the column defaults of the rollup.\<close>

definition make_cve :: "int \<Rightarrow> cve_row \<Rightarrow> cve" where
  "make_cve _ n = \<lparr>c_id = cr_id n, c_title = cr_title n, c_description = cr_description n,
     c_max_severity = UNKNOWN, c_max_severity_rank = 0, c_affected_image_count = 0,
     c_published_at = cr_published_at n, c_last_modified_at = cr_last_modified_at n\<rparr>"

text \<open>DO UPDATE SET each descriptive field to COALESCE(excluded, old), WHERE the new row fills a
  field the old one lacks.\<close>

definition fills_a_gap :: "cve_row \<Rightarrow> cve \<Rightarrow> bool" where
  "fills_a_gap n c \<longleftrightarrow>
     (c_title c = None \<and> cr_title n \<noteq> None) \<or>
     (c_description c = None \<and> cr_description n \<noteq> None) \<or>
     (c_published_at c = None \<and> cr_published_at n \<noteq> None) \<or>
     (c_last_modified_at c = None \<and> cr_last_modified_at n \<noteq> None)"

definition merge_cve :: "cve_row \<Rightarrow> cve \<Rightarrow> cve" where
  "merge_cve n c =
     (if fills_a_gap n c
      then c\<lparr>c_title := coalesce (cr_title n) (c_title c),
             c_description := coalesce (cr_description n) (c_description c),
             c_published_at := coalesce (cr_published_at n) (c_published_at c),
             c_last_modified_at := coalesce (cr_last_modified_at n) (c_last_modified_at c)\<rparr>
      else c)"

definition upsert_cves :: "parsed_report \<Rightarrow> db \<Rightarrow> sql_error + db" where
  "upsert_cves report d =
     (let rows = cve_rows report
      in if rows = [] then Inr d
         else if \<not> bindable 5 rows then Inl TooManyParameters
         else if \<not> list_all (\<lambda>n. varchar 64 (cr_id n)) rows then Inl DataError
         else Inr (d\<lparr>cves := upsert_rows c_id cr_id make_cve merge_cve 0 rows (cves d)\<rparr>))"

section \<open>Findings\<close>

record finding_row =
  fr_image_id :: int
  fr_cve_id :: string
  fr_package_id :: int
  fr_fixed_version :: "string option"
  fr_severity :: severity
  fr_run_id :: int

definition finding_row_of ::
    "int \<Rightarrow> ((string \<times> string \<times> string) \<times> int) list \<Rightarrow> int \<Rightarrow> parsed_finding \<Rightarrow> finding_row option" where
  "finding_row_of image_id package_ids run_id f =
     (case map_of package_ids (finding_package f) of
        None \<Rightarrow> None
      | Some package_id \<Rightarrow> Some
          \<lparr>fr_image_id = image_id, fr_cve_id = pf_cve_id f, fr_package_id = package_id,
           fr_fixed_version = pf_fixed_version f, fr_severity = pf_severity f, fr_run_id = run_id\<rparr>)"

definition finding_row_key :: "finding_row \<Rightarrow> int \<times> string \<times> int" where
  "finding_row_key n = (fr_image_id n, fr_cve_id n, fr_package_id n)"

definition make_finding :: "int \<Rightarrow> finding_row \<Rightarrow> finding" where
  "make_finding k n = \<lparr>f_id = k, f_image_id = fr_image_id n, f_cve_id = fr_cve_id n,
     f_package_id = fr_package_id n, f_fixed_version = fr_fixed_version n,
     f_severity = fr_severity n, f_severity_rank = rank (fr_severity n),
     f_first_seen_run_id = fr_run_id n, f_last_seen_run_id = fr_run_id n\<rparr>"

definition merge_finding :: "finding_row \<Rightarrow> finding \<Rightarrow> finding" where
  "merge_finding n f = f\<lparr>f_fixed_version := fr_fixed_version n, f_severity := fr_severity n,
     f_severity_rank := rank (fr_severity n), f_last_seen_run_id := fr_run_id n\<rparr>"

definition count_severity :: "finding_row list \<Rightarrow> severity \<Rightarrow> int" where
  "count_severity rows sev = int (length (filter (\<lambda>n. fr_severity n = sev) rows))"

definition upsert_findings ::
    "image \<Rightarrow> parsed_report \<Rightarrow> ((string \<times> string \<times> string) \<times> int) list \<Rightarrow> int \<Rightarrow> db \<Rightarrow>
     sql_error + (db \<times> (severity \<Rightarrow> int))" where
  "upsert_findings img report package_ids run_id d =
     (let rows = List.map_filter (finding_row_of (i_id img) package_ids run_id) (pr_findings report)
      in if rows = [] then Inr (d, count_severity rows)
         else if \<not> bindable 8 rows then Inl TooManyParameters
         else if \<not> list_all (\<lambda>n. varchar_opt 255 (fr_fixed_version n)) rows then Inl DataError
         else if \<not> distinct (map finding_row_key rows) then Inl CardinalityViolation
         else if \<not> list_all (\<lambda>n. fr_image_id n \<in> i_id ` set (images d) \<and>
                   fr_cve_id n \<in> c_id ` set (cves d) \<and> fr_package_id n \<in> p_id ` set (packages d)) rows
              then Inl ForeignKeyViolation
         else Inr (d\<lparr>findings := upsert_rows finding_key finding_row_key make_finding merge_finding
                       (next_finding_id d) rows (findings d),
                     next_finding_id := next_finding_id d + int (length rows)\<rparr>,
                   count_severity rows))"

section \<open>The rollup\<close>

text \<open>MAX(severity_rank) of the group of a CVE, NULL for an empty group.\<close>

definition group_rank :: "db \<Rightarrow> string \<Rightarrow> int option" where
  "group_rank d cid =
     (case map f_severity_rank (findings_of_cve d cid) of
        [] \<Rightarrow> None
      | r # rs \<Rightarrow> Some (foldl max r rs))"

definition coalesce_int :: "int option \<Rightarrow> int \<Rightarrow> int" where
  "coalesce_int x b = (case x of None \<Rightarrow> b | Some v \<Rightarrow> v)"

definition rank_name :: "int \<Rightarrow> severity" where
  "rank_name r = (case RANK_TO_SEVERITY r of None \<Rightarrow> UNKNOWN | Some s \<Rightarrow> s)"

definition rollup_differs :: "db \<Rightarrow> cve \<Rightarrow> bool" where
  "rollup_differs d c \<longleftrightarrow>
     c_max_severity_rank c \<noteq> coalesce_int (group_rank d (c_id c)) 0 \<or>
     c_affected_image_count c \<noteq> current_image_count d (c_id c)"

definition rolled_up :: "db \<Rightarrow> cve \<Rightarrow> cve" where
  "rolled_up d c = c\<lparr>c_max_severity_rank := coalesce_int (group_rank d (c_id c)) 0,
     c_max_severity := rank_name (coalesce_int (group_rank d (c_id c)) 0),
     c_affected_image_count := current_image_count d (c_id c)\<rparr>"

definition recompute_cve_rollup :: "string list \<Rightarrow> db \<Rightarrow> db" where
  "recompute_cve_rollup cve_ids d =
     (if cve_ids = [] then d
      else d\<lparr>cves := update_rows (\<lambda>c. c_id c \<in> set cve_ids \<and> rollup_differs d c) (rolled_up d) (cves d)\<rparr>)"

section \<open>Recording a run\<close>

definition current_cve_ids :: "image \<Rightarrow> db \<Rightarrow> string list" where
  "current_cve_ids img d =
     (case i_current_scan_run_id img of
        None \<Rightarrow> []
      | Some k \<Rightarrow> map f_cve_id
          (filter (\<lambda>f. f_image_id f = i_id img \<and> f_last_seen_run_id f = k) (findings d)))"

definition set_counts :: "(severity \<Rightarrow> int) \<Rightarrow> scan_run \<Rightarrow> scan_run" where
  "set_counts counts run = run\<lparr>
     r_finding_count_critical := Some (counts CRITICAL), r_finding_count_high := Some (counts HIGH),
     r_finding_count_medium := Some (counts MEDIUM), r_finding_count_low := Some (counts LOW),
     r_finding_count_unknown := Some (counts UNKNOWN)\<rparr>"

definition save_counts :: "int \<Rightarrow> (severity \<Rightarrow> int) \<Rightarrow> db \<Rightarrow> db" where
  "save_counts run_id counts d =
     d\<lparr>scan_runs := update_rows (\<lambda>r. r_id r = run_id) (set_counts counts) (scan_runs d)\<rparr>"

definition affected_cves :: "image \<Rightarrow> parsed_report \<Rightarrow> db \<Rightarrow> string list" where
  "affected_cves img report d = current_cve_ids img d @ map pf_cve_id (pr_findings report)"

definition succeeded_image :: "int \<Rightarrow> run_metadata \<Rightarrow> image \<Rightarrow> image" where
  "succeeded_image run_id meta img = img\<lparr>i_current_scan_run_id := Some run_id,
     i_last_scan_at := Some (m_completed_at meta), i_last_scan_status := Some SUCCESS,
     i_consecutive_failures := 0\<rparr>"

definition record_success ::
    "image \<Rightarrow> scan_job option \<Rightarrow> parsed_report \<Rightarrow> run_metadata \<Rightarrow> db \<Rightarrow> sql_error + (db \<times> int)" where
  "record_success img job report meta d =
     (let affected = affected_cves img report d
      in case insert_run img job SUCCESS meta None d of
           Inl e \<Rightarrow> Inl e
         | Inr (d1, run) \<Rightarrow>
             (case upsert_packages report d1 of
                Inl e \<Rightarrow> Inl e
              | Inr (d2, package_ids) \<Rightarrow>
                  (case upsert_cves report d2 of
                     Inl e \<Rightarrow> Inl e
                   | Inr d3 \<Rightarrow>
                       (case upsert_findings img report package_ids (r_id run) d3 of
                          Inl e \<Rightarrow> Inl e
                        | Inr (d4, counts) \<Rightarrow>
                            (case save_image img (succeeded_image (r_id run) meta img)
                                    (save_counts (r_id run) counts d4) of
                               Inl e \<Rightarrow> Inl e
                             | Inr d5 \<Rightarrow> Inr (recompute_cve_rollup affected d5, r_id run))))))"

definition skipped_image :: "run_metadata \<Rightarrow> image \<Rightarrow> image" where
  "skipped_image meta img = img\<lparr>i_last_scan_at := Some (m_completed_at meta),
     i_last_scan_status := Some SKIPPED, i_consecutive_failures := 0\<rparr>"

definition record_skip :: "image \<Rightarrow> scan_job option \<Rightarrow> run_metadata \<Rightarrow> db \<Rightarrow> sql_error + (db \<times> int)" where
  "record_skip img job meta d =
     (case insert_run img job SKIPPED meta None d of
        Inl e \<Rightarrow> Inl e
      | Inr (d1, run) \<Rightarrow>
          (case save_image img (skipped_image meta img) d1 of
             Inl e \<Rightarrow> Inl e
           | Inr d2 \<Rightarrow> Inr (d2, r_id run)))"

definition failed_image :: "run_metadata \<Rightarrow> bool \<Rightarrow> image \<Rightarrow> image" where
  "failed_image meta exhausted img = img\<lparr>i_last_scan_at := Some (m_completed_at meta),
     i_last_scan_status := Some RUN_FAILED,
     i_consecutive_failures := (if exhausted then i_consecutive_failures img + 1 else i_consecutive_failures img)\<rparr>"

definition record_failure ::
    "image \<Rightarrow> scan_job option \<Rightarrow> run_metadata \<Rightarrow> string \<Rightarrow> bool \<Rightarrow> db \<Rightarrow> sql_error + (db \<times> int)" where
  "record_failure img job meta error exhausted d =
     (case insert_run img job RUN_FAILED meta (Some (take 4000 error)) d of
        Inl e \<Rightarrow> Inl e
      | Inr (d1, run) \<Rightarrow>
          (case save_image img (failed_image meta exhausted img) d1 of
             Inl e \<Rightarrow> Inl e
           | Inr d2 \<Rightarrow> Inr (d2, r_id run)))"

end
