(* ===== verification/Persist_Lemmas.thy ===== *)
theory Persist_Lemmas
  imports Persist
begin

text \<open>
  Lemmas on writing a scan result: the upserts as instances of \<open>upsert_rows\<close>, the database
  a successful recording leaves behind (\<open>base_db\<close> before the rollup), which findings are
  current in it, and the preservation of every part of \<open>consistent\<close>.
\<close>

section \<open>The upserts are lawful\<close>

lemma package_laws: "upsert_laws package_key id make_package (\<lambda>_ p. p)"
  by (auto simp: upsert_laws_def package_key_def)

lemma cve_laws: "upsert_laws c_id cr_id make_cve merge_cve"
  by (auto simp: upsert_laws_def make_cve_def merge_cve_def)

lemma finding_laws: "upsert_laws finding_key finding_row_key make_finding merge_finding"
  by (auto simp: upsert_laws_def make_finding_def merge_finding_def finding_key_def finding_row_key_def)

lemmas upsert_defs = make_cve_def merge_cve_def make_finding_def merge_finding_def

section \<open>The rows of a report\<close>

lemma package_keys_set [simp]: "set (package_keys report) = finding_package ` set (pr_findings report)"
  by (simp add: package_keys_def)

lemma package_keys_distinct [simp]: "distinct (package_keys report)"
  by (simp add: package_keys_def)

lemma package_keys_Nil: "package_keys report = [] \<longleftrightarrow> pr_findings report = []"
  by (metis image_is_empty package_keys_set set_empty2)

lemma cve_rows_inv:
  "distinct (map fst (foldl (\<lambda>by_id f. add_cve_row f by_id) [] fs)) \<and>
   fst ` set (foldl (\<lambda>by_id f. add_cve_row f by_id) [] fs) = pf_cve_id ` set fs \<and>
   (\<forall>(k, row) \<in> set (foldl (\<lambda>by_id f. add_cve_row f by_id) [] fs). cr_id row = k)"
proof (induction fs rule: rev_induct)
  case (snoc f fs)
  let ?b = "foldl (\<lambda>by_id f. add_cve_row f by_id) [] fs"
  have vals: "(k, row) \<in> set (dict_set k' v b) \<Longrightarrow> (k, row) \<in> set b \<or> (k, row) = (k', v)"
    for k row k' v and b :: "(string \<times> cve_row) list"
    by (induction b) (auto split: if_splits)
  have cur: "map_of ?b (pf_cve_id f) = Some row \<Longrightarrow> cr_id row = pf_cve_id f" for row
    using snoc by (auto dest!: map_of_SomeD)
  have "\<forall>(k, row) \<in> set (add_cve_row f ?b). cr_id row = k"
    using snoc cur by (fastforce simp: add_cve_row_def Let_def dest!: vals split: option.splits)
  with snoc show ?case
    by (auto simp: add_cve_row_def Let_def distinct_dict_set set_keys_dict_set)
qed simp

lemma cve_rows_ids:
  "distinct (map cr_id (cve_rows report))" "cr_id ` set (cve_rows report) = pf_cve_id ` set (pr_findings report)"
proof -
  let ?b = "foldl (\<lambda>by_id f. add_cve_row f by_id) [] (pr_findings report)"
  have m: "map cr_id (map snd ?b) = map fst ?b"
    using cve_rows_inv [of "pr_findings report"] by auto
  show "distinct (map cr_id (cve_rows report))"
    unfolding cve_rows_def m using cve_rows_inv by blast
  have "set (map cr_id (cve_rows report)) = set (map fst ?b)"
    unfolding cve_rows_def m ..
  then show "cr_id ` set (cve_rows report) = pf_cve_id ` set (pr_findings report)"
    using cve_rows_inv [of "pr_findings report"] by simp
qed

lemma cve_rows_Nil: "cve_rows report = [] \<longleftrightarrow> pr_findings report = []"
  using cve_rows_ids(2) [of report] by (metis image_is_empty set_empty2)

section \<open>The database after a recording\<close>

abbreviation id_table :: "(string \<times> string \<times> string) list \<Rightarrow> package list \<Rightarrow> ((string \<times> string \<times> string) \<times> int) list" where
  "id_table keys ps \<equiv> map (\<lambda>p. (package_key p, p_id p)) (filter (\<lambda>p. package_key p \<in> set keys) ps)"

definition new_packages :: "parsed_report \<Rightarrow> db \<Rightarrow> package list" where
  "new_packages report d =
     upsert_rows package_key id make_package (\<lambda>_ p. p) (next_package_id d) (package_keys report) (packages d)"

definition written_rows :: "image \<Rightarrow> parsed_report \<Rightarrow> db \<Rightarrow> finding_row list" where
  "written_rows img report d =
     List.map_filter (finding_row_of (i_id img) (id_table (package_keys report) (new_packages report d)) (next_run_id d))
       (pr_findings report)"

definition base_db :: "image \<Rightarrow> scan_job option \<Rightarrow> parsed_report \<Rightarrow> run_metadata \<Rightarrow> db \<Rightarrow> db" where
  "base_db img job report meta d = d\<lparr>
     images := update_rows (\<lambda>i. i_id i = i_id img)
       (merge_image img (succeeded_image (next_run_id d) meta img)) (images d),
     scan_runs := update_rows (\<lambda>r. r_id r = next_run_id d) (set_counts (count_severity (written_rows img report d)))
       (scan_runs d @ [new_run img job SUCCESS meta None (next_run_id d)]),
     packages := new_packages report d,
     cves := upsert_rows c_id cr_id make_cve merge_cve 0 (cve_rows report) (cves d),
     findings := upsert_rows finding_key finding_row_key make_finding merge_finding (next_finding_id d)
       (written_rows img report d) (findings d),
     next_run_id := next_run_id d + 1,
     next_package_id := next_package_id d + int (length (package_keys report)),
     next_finding_id := next_finding_id d + int (length (written_rows img report d))\<rparr>"

lemma merge_image_same [simp]: "merge_image img img row = row"
  by (simp add: merge_image_def pick_def)

lemma save_image_Inr:
  "save_image loaded new d = Inr d' \<Longrightarrow>
   d' = d\<lparr>images := update_rows (\<lambda>i. i_id i = i_id loaded) (merge_image loaded new) (images d)\<rparr>"
proof -
  have "update_rows (\<lambda>i. i_id i = i_id loaded) (merge_image loaded loaded) (images d) = images d"
    by (rule update_rows_id) simp
  then show "save_image loaded new d = Inr d' \<Longrightarrow> ?thesis"
    by (auto simp: save_image_def split: if_splits)
qed

text \<open>The guards of the statements, in terms of the database before.\<close>

definition recordable :: "image \<Rightarrow> parsed_report \<Rightarrow> run_metadata \<Rightarrow> db \<Rightarrow> bool" where
  "recordable img report meta d \<longleftrightarrow>
     run_fits meta \<and> i_id img \<in> i_id ` set (images d) \<and>
     bindable 3 (package_keys report) \<and> list_all package_fits (package_keys report) \<and>
     bindable 5 (cve_rows report) \<and> list_all (\<lambda>n. varchar 64 (cr_id n)) (cve_rows report) \<and>
     bindable 8 (written_rows img report d) \<and>
     list_all (\<lambda>n. varchar_opt 255 (fr_fixed_version n)) (written_rows img report d) \<and>
     distinct (map finding_row_key (written_rows img report d))"

lemma new_packages_empty: "pr_findings report = [] \<Longrightarrow> new_packages report d = packages d"
  by (simp add: new_packages_def package_keys_Nil [THEN iffD2])

lemma written_rows_empty: "pr_findings report = [] \<Longrightarrow> written_rows img report d = []"
  by (simp add: written_rows_def List.map_filter_simps)

lemma finding_row_of_SomeD:
  "finding_row_of k ids rid f = Some n \<Longrightarrow> fr_image_id n = k \<and> fr_cve_id n = pf_cve_id f \<and> fr_run_id n = rid \<and>
     (finding_package f, fr_package_id n) \<in> set ids \<and> fr_severity n = pf_severity f \<and>
     fr_fixed_version n = pf_fixed_version f"
  by (auto simp: finding_row_of_def dest: map_of_SomeD split: option.splits)

lemma map_filter_memE:
  "y \<in> set (List.map_filter f xs) \<Longrightarrow> \<exists>x \<in> set xs. f x = Some y"
  by (induction xs) (auto simp: List.map_filter_simps split: option.splits)

lemma written_rowsD:
  assumes "n \<in> set (written_rows img report d)"
  shows "fr_image_id n = i_id img" "fr_run_id n = next_run_id d"
    "\<exists>f \<in> set (pr_findings report). fr_cve_id n = pf_cve_id f \<and> fr_severity n = pf_severity f \<and>
       fr_fixed_version n = pf_fixed_version f \<and>
       (\<exists>p \<in> set (new_packages report d). package_key p = finding_package f \<and> p_id p = fr_package_id n)"
  using map_filter_memE [OF assms [unfolded written_rows_def]]
  by (fastforce dest!: finding_row_of_SomeD)+

lemma bindable_Nil [simp]: "bindable k []"
  by (simp add: bindable_def MAX_BIND_PARAMETERS_def)

lemma bindable_shorter:
  "bindable m ys \<Longrightarrow> length xs \<le> length ys \<Longrightarrow> 0 \<le> k \<Longrightarrow> k \<le> m \<Longrightarrow> bindable k xs"
  using mult_mono [of k m "int (length xs)" "int (length ys)"] by (simp add: bindable_def)

text \<open>Each upsert as one conditional, the empty report included.\<close>

lemma upsert_packages_eq:
  "upsert_packages report d =
     (if \<not> bindable 3 (package_keys report) then Inl TooManyParameters
      else if list_all package_fits (package_keys report)
      then Inr (insert_packages (package_keys report) d,
                id_table (package_keys report) (packages (insert_packages (package_keys report) d)))
      else Inl DataError)"
proof -
  have "insert_packages [] d = d"
    by (rule db.equality) (simp_all add: insert_packages_def)
  then show ?thesis
    using package_keys_Nil [of report] by (auto simp: upsert_packages_def Let_def)
qed

lemma upsert_cves_eq:
  "upsert_cves report d =
     (if \<not> bindable 5 (cve_rows report) then Inl TooManyParameters
      else if list_all (\<lambda>n. varchar 64 (cr_id n)) (cve_rows report)
      then Inr (d\<lparr>cves := upsert_rows c_id cr_id make_cve merge_cve 0 (cve_rows report) (cves d)\<rparr>)
      else Inl DataError)"
  by (auto simp: upsert_cves_def Let_def)

lemma upsert_findings_eq:
  assumes "rows = List.map_filter (finding_row_of (i_id img) ids rid) (pr_findings report)"
  shows "upsert_findings img report ids rid d =
     (if \<not> bindable 8 rows then Inl TooManyParameters
      else if \<not> list_all (\<lambda>n. varchar_opt 255 (fr_fixed_version n)) rows then Inl DataError
      else if \<not> distinct (map finding_row_key rows) then Inl CardinalityViolation
      else if \<not> list_all (\<lambda>n. fr_image_id n \<in> i_id ` set (images d) \<and>
                fr_cve_id n \<in> c_id ` set (cves d) \<and> fr_package_id n \<in> p_id ` set (packages d)) rows
           then Inl ForeignKeyViolation
      else Inr (d\<lparr>findings := upsert_rows finding_key finding_row_key make_finding merge_finding
                    (next_finding_id d) rows (findings d),
                  next_finding_id := next_finding_id d + int (length rows)\<rparr>,
                count_severity rows))"
  by (auto simp: upsert_findings_def Let_def assms [symmetric] intro!: db.equality)

lemma save_image_eq:
  "i_id loaded \<in> i_id ` set (images d) \<Longrightarrow> save_image loaded new d =
     Inr (d\<lparr>images := update_rows (\<lambda>i. i_id i = i_id loaded) (merge_image loaded new) (images d)\<rparr>)"
proof -
  have "update_rows (\<lambda>i. i_id i = i_id loaded) (merge_image loaded loaded) (images d) = images d"
    by (rule update_rows_id) simp
  then show "i_id loaded \<in> i_id ` set (images d) \<Longrightarrow> ?thesis"
    by (auto simp: save_image_def)
qed

text \<open>No row can miss its CVE or package: both were upserted just before.\<close>

lemma written_rows_references:
  assumes "n \<in> set (written_rows img report d)"
  shows "fr_cve_id n \<in> c_id ` set (upsert_rows c_id cr_id make_cve merge_cve 0 (cve_rows report) (cves d))"
    and "fr_package_id n \<in> p_id ` set (new_packages report d)"
  using written_rowsD(3) [OF assms] upsert_keys [OF cve_laws, of 0 "cve_rows report" "cves d"] cve_rows_ids(2) [of report]
  by (auto intro: rev_image_eqI)

lemma record_success_eq:
  "record_success img job report meta d = Inr (d', rid) \<longleftrightarrow>
     recordable img report meta d \<and> rid = next_run_id d \<and>
     d' = recompute_cve_rollup (affected_cves img report d) (base_db img job report meta d)"
proof (cases "run_fits meta \<and> i_id img \<in> i_id ` set (images d) \<and>
    bindable 3 (package_keys report) \<and> list_all package_fits (package_keys report) \<and>
    bindable 5 (cve_rows report) \<and> list_all (\<lambda>n. varchar 64 (cr_id n)) (cve_rows report)")
  case False
  then show ?thesis
    by (auto simp: record_success_def Let_def recordable_def insert_run_def upsert_packages_eq upsert_cves_eq)
next
  case True
  let ?run = "new_run img job SUCCESS meta None (next_run_id d)"
  let ?d1 = "d\<lparr>scan_runs := scan_runs d @ [?run], next_run_id := next_run_id d + 1\<rparr>"
  let ?d2 = "insert_packages (package_keys report) ?d1"
  let ?d3 = "?d2\<lparr>cves := upsert_rows c_id cr_id make_cve merge_cve 0 (cve_rows report) (cves d)\<rparr>"
  let ?rows = "written_rows img report d"
  have run: "insert_run img job SUCCESS meta None d = Inr (?d1, ?run)" "r_id ?run = next_run_id d"
    using True by (simp_all add: insert_run_def Let_def new_run_def)
  have ps: "packages ?d2 = new_packages report d" "images ?d2 = images d" "cves ?d2 = cves d" "packages ?d3 = packages ?d2"
    "findings ?d3 = findings d" "next_finding_id ?d3 = next_finding_id d" "images ?d3 = images d"
    by (simp_all add: insert_packages_def new_packages_def)
  have rows: "?rows = List.map_filter (finding_row_of (i_id img) (id_table (package_keys report) (packages ?d2))
      (next_run_id d)) (pr_findings report)"
    by (simp add: written_rows_def ps(1))
  have fk: "list_all (\<lambda>n. fr_image_id n \<in> i_id ` set (images ?d3) \<and>
      fr_cve_id n \<in> c_id ` set (cves ?d3) \<and> fr_package_id n \<in> p_id ` set (packages ?d3)) ?rows"
    using True written_rows_references written_rowsD(1) by (auto simp: list_all_iff ps)
  have pk: "upsert_packages report ?d1 = Inr (?d2, id_table (package_keys report) (packages ?d2))"
    using True by (simp add: upsert_packages_eq)
  have cv: "upsert_cves report ?d2 = Inr ?d3"
    using True by (simp add: upsert_cves_eq ps)
  let ?d4 = "?d3\<lparr>findings := upsert_rows finding_key finding_row_key make_finding merge_finding
      (next_finding_id d) ?rows (findings d), next_finding_id := next_finding_id d + int (length ?rows)\<rparr>"
  have fi: "upsert_findings img report (id_table (package_keys report) (packages ?d2)) (next_run_id d) ?d3 =
      (if recordable img report meta d then Inr (?d4, count_severity ?rows)
       else Inl (if \<not> bindable 8 ?rows then TooManyParameters
                 else if list_all (\<lambda>n. varchar_opt 255 (fr_fixed_version n)) ?rows then CardinalityViolation
                 else DataError))"
    using True fk unfolding upsert_findings_eq [OF rows] by (simp add: recordable_def ps)
  have sv: "save_image img (succeeded_image (next_run_id d) meta img) (save_counts (next_run_id d) (count_severity ?rows) ?d4)
      = Inr (base_db img job report meta d)"
    using True
    by (subst save_image_eq)
       (auto simp: save_counts_def ps base_db_def insert_packages_def new_packages_def intro!: db.equality)
  show ?thesis
    unfolding record_success_def Let_def run sum.case prod.case run(2) pk cv fi
    using sv by (auto simp: run(2))
qed

section \<open>What is current after a recording\<close>

text \<open>A recording that goes through, on an image object as fresh as its row.\<close>

definition recording :: "image \<Rightarrow> parsed_report \<Rightarrow> run_metadata \<Rightarrow> db \<Rightarrow> bool" where
  "recording img report meta d \<longleftrightarrow> consistent d \<and> recordable img report meta d \<and> img \<in> set (images d)"

lemma recordingD:
  assumes "recording img report meta d"
  shows "consistent d" "recordable img report meta d" "img \<in> set (images d)"
    "keys_ok d" "sequences_ok d" "references_ok d" "pointers_ok d" "ranks_ok d"
    "distinct (map finding_row_key (written_rows img report d))"
  using assms by (simp_all add: recording_def consistent_def recordable_def)

text \<open>Run ids that are pointed at were drawn from the sequence.\<close>

lemma success_run_below: "sequences_ok d \<Longrightarrow> success_run_of d i k \<Longrightarrow> k < next_run_id d"
  by (auto simp: success_run_of_def sequences_ok_def)

lemma old_sighting_below:
  assumes "consistent d" "f \<in> set (findings d)"
  shows "f_last_seen_run_id f < next_run_id d" "f_first_seen_run_id f < next_run_id d"
  using assms success_run_below [of d]
  by (auto simp: consistent_def pointers_ok_def)

lemma image_by_id: "keys_ok d \<Longrightarrow> i \<in> set (images d) \<Longrightarrow> img \<in> set (images d) \<Longrightarrow> i_id i = i_id img \<Longrightarrow> i = img"
  using unique_onD [of i_id "images d" i img] by (simp add: keys_ok_def)

lemma base_images:
  assumes "recording img report meta d"
  shows "images (base_db img job report meta d)
    = update_rows (\<lambda>i. i_id i = i_id img) (\<lambda>_. succeeded_image (next_run_id d) meta img) (images d)"
proof -
  have "merge_image img (succeeded_image (next_run_id d) meta img) i = succeeded_image (next_run_id d) meta img"
    if "i \<in> set (images d)" "i_id i = i_id img" for i
  proof -
    have "i = img"
      using that recordingD(3,4) [OF assms] image_by_id by blast
    then show ?thesis
      by (intro image.equality) (simp_all add: merge_image_def succeeded_image_def pick_def)
  qed
  then show ?thesis
    by (simp add: base_db_def update_rows_def)
qed

lemma base_current_run:
  assumes "recording img report meta d"
  shows "current_run_of (base_db img job report meta d) k
    = (if k = i_id img then Some (next_run_id d) else current_run_of d k)"
proof -
  have "find_row i_id k (images (base_db img job report meta d))
      = map_option (\<lambda>i. if i_id i = i_id img then succeeded_image (next_run_id d) meta img else i) (find_row i_id k (images d))"
    unfolding base_images [OF assms]
    by (rule find_row_update_rows) (simp add: succeeded_image_def)
  moreover have "\<exists>i. find_row i_id (i_id img) (images d) = Some i"
    using find_row_unique [of i_id "images d" img] recordingD(3,4) [OF assms] by (simp add: keys_ok_def)
  ultimately show ?thesis
    by (auto simp: current_run_of_def succeeded_image_def split: option.splits dest: find_row_SomeD)
qed

text \<open>A finding after the recording is an old one the report does not mention, or a sighting.\<close>

lemma base_finding_cases:
  assumes "recording img report meta d" "f \<in> set (findings (base_db img job report meta d))"
  obtains (kept) "f \<in> set (findings d)" "finding_key f \<notin> finding_row_key ` set (written_rows img report d)"
  | (seen) n where "n \<in> set (written_rows img report d)" "finding_key f = finding_row_key n"
      "f_last_seen_run_id f = next_run_id d" "f_severity f = fr_severity n" "f_severity_rank f = rank (fr_severity n)"
      "f_fixed_version f = fr_fixed_version n"
      "(\<exists>f0 \<in> set (findings d). finding_key f0 = finding_key f \<and> f_first_seen_run_id f = f_first_seen_run_id f0 \<and> f_id f = f_id f0) \<or>
       (f_first_seen_run_id f = next_run_id d \<and> finding_key f \<notin> finding_key ` set (findings d))"
proof -
  from assms(2) have "f \<in> set (upsert_rows finding_key finding_row_key make_finding merge_finding
      (next_finding_id d) (written_rows img report d) (findings d))"
    by (simp add: base_db_def)
  from upsert_cases [OF finding_laws recordingD(9) [OF assms(1)] this]
  show ?thesis
  proof
    assume "f \<in> set (findings d) \<and> finding_key f \<notin> finding_row_key ` set (written_rows img report d)"
    then show ?thesis using kept by blast
  next
    assume "\<exists>n \<in> set (written_rows img report d). finding_key f = finding_row_key n \<and>
        ((\<exists>f0 \<in> set (findings d). finding_key f0 = finding_row_key n \<and> f = merge_finding n f0) \<or>
         (finding_row_key n \<notin> finding_key ` set (findings d) \<and>
          (\<exists>j \<ge> next_finding_id d. j < next_finding_id d + int (length (written_rows img report d)) \<and> f = make_finding j n)))"
    then obtain n where n: "n \<in> set (written_rows img report d)" "finding_key f = finding_row_key n"
      and or: "(\<exists>f0 \<in> set (findings d). finding_key f0 = finding_row_key n \<and> f = merge_finding n f0) \<or>
         (finding_row_key n \<notin> finding_key ` set (findings d) \<and> (\<exists>j. f = make_finding j n))"
      by blast
    have run: "fr_run_id n = next_run_id d" by (rule written_rowsD(2) [OF n(1)])
    from or show ?thesis
    proof
      assume "\<exists>f0 \<in> set (findings d). finding_key f0 = finding_row_key n \<and> f = merge_finding n f0"
      then obtain f0 where "f0 \<in> set (findings d)" "finding_key f0 = finding_row_key n" "f = merge_finding n f0"
        by blast
      then show ?thesis
        using seen [OF n] run n(2) by (force simp: merge_finding_def)
    next
      assume "finding_row_key n \<notin> finding_key ` set (findings d) \<and> (\<exists>j. f = make_finding j n)"
      then show ?thesis
        using seen [OF n] run n(2) by (auto simp: make_finding_def)
    qed
  qed
qed

text \<open>Current after the recording: for this image what the report mentions, elsewhere as before.\<close>

lemma base_is_current:
  assumes "recording img report meta d" "f \<in> set (findings (base_db img job report meta d))"
  shows "is_current (base_db img job report meta d) f \<longleftrightarrow>
    (if f_image_id f = i_id img then finding_key f \<in> finding_row_key ` set (written_rows img report d)
     else is_current d f)"
  using assms
proof (cases rule: base_finding_cases)
  case kept
  with old_sighting_below(1) [OF recordingD(1) [OF assms(1)], of f] show ?thesis
    by (auto simp: is_current_def base_current_run [OF assms(1)])
next
  case (seen n)
  then have "f_image_id f = i_id img"
    using written_rowsD(1) [OF seen(1)] by (simp add: finding_key_def finding_row_key_def)
  with seen show ?thesis
    by (auto simp: is_current_def base_current_run [OF assms(1)])
qed

text \<open>The findings of another image are untouched.\<close>

lemma base_other_findings:
  assumes "recording img report meta d" "f_image_id f \<noteq> i_id img"
  shows "f \<in> set (findings (base_db img job report meta d)) \<longleftrightarrow> f \<in> set (findings d)"
proof
  have nk: "finding_key f \<notin> finding_row_key ` set (written_rows img report d)"
    using assms(2) by (auto simp: finding_key_def finding_row_key_def dest!: written_rowsD(1))
  assume "f \<in> set (findings d)"
  from upsert_keep [of f _ finding_key finding_row_key, OF this nk]
  show "f \<in> set (findings (base_db img job report meta d))" by (simp add: base_db_def)
next
  have nk: "finding_key f \<notin> finding_row_key ` set (written_rows img report d)"
    using assms(2) by (auto simp: finding_key_def finding_row_key_def dest!: written_rowsD(1))
  assume f: "f \<in> set (findings (base_db img job report meta d))"
  from assms(1) f show "f \<in> set (findings d)"
  proof (cases rule: base_finding_cases)
    case (seen n)
    with nk show ?thesis by simp
  qed
qed

lemma base_other_current:
  assumes "recording img report meta d" "f_image_id f \<noteq> i_id img"
  shows "f \<in> set (current_findings (base_db img job report meta d)) \<longleftrightarrow> f \<in> set (current_findings d)"
  using assms base_other_findings [OF assms] base_is_current [OF assms(1), of f]
  by (auto simp: current_findings_def)

text \<open>Each row of the report is a current finding.\<close>

lemma base_finding_exists:
  assumes "recording img report meta d" "n \<in> set (written_rows img report d)"
  shows "\<exists>f \<in> set (findings (base_db img job report meta d)). finding_key f = finding_row_key n"
proof -
  have "finding_key ` set (findings (base_db img job report meta d))
      = finding_key ` set (findings d) \<union> finding_row_key ` set (written_rows img report d)"
    by (simp add: base_db_def upsert_keys [OF finding_laws])
  with assms(2) show ?thesis by (metis (no_types, lifting) Un_iff imageE imageI)
qed

section \<open>Every part of the consistency\<close>

lemma recompute_frame [simp]:
  "images (recompute_cve_rollup ids d) = images d" "scan_jobs (recompute_cve_rollup ids d) = scan_jobs d"
  "scan_runs (recompute_cve_rollup ids d) = scan_runs d" "packages (recompute_cve_rollup ids d) = packages d"
  "findings (recompute_cve_rollup ids d) = findings d"
  "next_image_id (recompute_cve_rollup ids d) = next_image_id d" "next_job_id (recompute_cve_rollup ids d) = next_job_id d"
  "next_run_id (recompute_cve_rollup ids d) = next_run_id d"
  "next_package_id (recompute_cve_rollup ids d) = next_package_id d"
  "next_finding_id (recompute_cve_rollup ids d) = next_finding_id d"
  by (simp_all add: recompute_cve_rollup_def)

lemma recompute_cve_ids [simp]: "map c_id (cves (recompute_cve_rollup ids d)) = map c_id (cves d)"
proof -
  have "map c_id (update_rows p (rolled_up d) (cves d)) = map c_id (cves d)" for p
    by (rule map_update_rows) (simp add: rolled_up_def)
  then show ?thesis by (simp add: recompute_cve_rollup_def)
qed

lemma recompute_cve_id_set [simp]: "c_id ` set (cves (recompute_cve_rollup ids d)) = c_id ` set (cves d)"
  by (metis recompute_cve_ids set_map)

lemma base_image_ids:
  assumes "recording img report meta d"
  shows "map i_id (images (base_db img job report meta d)) = map i_id (images d)"
    "map image_key (images (base_db img job report meta d)) = map image_key (images d)"
proof -
  have "i = img" if "i \<in> set (images d)" "i_id i = i_id img" for i
    using that recordingD(3,4) [OF assms] image_by_id by blast
  then show "map i_id (images (base_db img job report meta d)) = map i_id (images d)"
    "map image_key (images (base_db img job report meta d)) = map image_key (images d)"
    unfolding base_images [OF assms]
    by (intro map_update_rows; fastforce simp: succeeded_image_def image_key_def)+
qed

lemma base_run_ids:
  "map r_id (scan_runs (base_db img job report meta d)) = map r_id (scan_runs d) @ [next_run_id d]"
proof -
  have "map r_id (update_rows p (set_counts c) rs) = map r_id rs" for p c rs
    by (rule map_update_rows) (simp add: set_counts_def)
  then show ?thesis by (simp add: base_db_def new_run_def)
qed

lemma run_id_fresh: "sequences_ok d \<Longrightarrow> next_run_id d \<notin> r_id ` set (scan_runs d)"
  by (auto simp: sequences_ok_def)

lemma packages_unique_id:
  assumes "keys_ok d" "sequences_ok d"
  shows "unique_on p_id (new_packages report d) \<and>
    (\<forall>p \<in> set (new_packages report d). p_id p < next_package_id d + int (length (package_keys report)))"
proof -
  have mk: "p_id (make_package j n) = j" for j n by (cases n) simp
  show ?thesis
    unfolding new_packages_def using assms
    by (intro upsert_unique_id) (simp_all add: mk keys_ok_def sequences_ok_def)
qed

lemma findings_unique_id:
  assumes "keys_ok d" "sequences_ok d"
  shows "unique_on f_id (findings (base_db img job report meta d)) \<and>
    (\<forall>f \<in> set (findings (base_db img job report meta d)). f_id f < next_finding_id (base_db img job report meta d))"
proof -
  have "unique_on f_id (upsert_rows finding_key finding_row_key make_finding merge_finding (next_finding_id d) rows (findings d)) \<and>
    (\<forall>f \<in> set (upsert_rows finding_key finding_row_key make_finding merge_finding (next_finding_id d) rows (findings d)).
       f_id f < next_finding_id d + int (length rows))" for rows
    using assms
    by (intro upsert_unique_id) (simp_all add: make_finding_def merge_finding_def keys_ok_def sequences_ok_def)
  then show ?thesis by (simp add: base_db_def)
qed

lemma base_keys_ok:
  assumes "recording img report meta d"
  shows "keys_ok (base_db img job report meta d)"
proof -
  note k = keys_okD [OF recordingD(4) [OF assms]]
  have "unique_on package_key (new_packages report d)"
    unfolding new_packages_def by (rule upsert_unique_key [OF package_laws k(6)])
  moreover have "unique_on c_id (cves (base_db img job report meta d))"
    using upsert_unique_key [OF cve_laws k(7)] by (simp add: base_db_def)
  moreover have "unique_on finding_key (findings (base_db img job report meta d))"
    using upsert_unique_key [OF finding_laws k(9)] by (simp add: base_db_def)
  moreover have "unique_on r_id (scan_runs (base_db img job report meta d))"
    using k(4) run_id_fresh [OF recordingD(5) [OF assms]] by (simp add: base_run_ids)
  moreover have "packages (base_db img job report meta d) = new_packages report d"
    "scan_jobs (base_db img job report meta d) = scan_jobs d"
    by (simp_all add: base_db_def)
  ultimately show ?thesis
    using packages_unique_id [OF recordingD(4,5) [OF assms]] findings_unique_id [OF recordingD(4,5) [OF assms]] k
    by (simp add: keys_ok_def base_image_ids [OF assms])
qed

lemma base_sequences_ok:
  assumes "recording img report meta d"
  shows "sequences_ok (base_db img job report meta d)"
proof -
  let ?b = "base_db img job report meta d"
  have ids: "i_id ` set (images ?b) = i_id ` set (images d)"
    by (metis base_image_ids(1) [OF assms] set_map)
  have run_ids: "r_id ` set (scan_runs ?b) = insert (next_run_id d) (r_id ` set (scan_runs d))"
    using arg_cong [OF base_run_ids [of img job report meta d], of set] by simp
  have "\<forall>x \<in> i_id ` set (images ?b). x < next_image_id d" "\<forall>x \<in> r_id ` set (scan_runs ?b). x < next_run_id d + 1"
    unfolding ids run_ids using recordingD(5) [OF assms] by (auto simp: sequences_ok_def)
  moreover have "packages ?b = new_packages report d" "scan_jobs ?b = scan_jobs d" "next_image_id ?b = next_image_id d"
    "next_run_id ?b = next_run_id d + 1" "next_job_id ?b = next_job_id d"
    "next_package_id ?b = next_package_id d + int (length (package_keys report))"
    by (simp_all add: base_db_def)
  ultimately show ?thesis
    using packages_unique_id [OF recordingD(4,5) [OF assms], of report]
      findings_unique_id [OF recordingD(4,5) [OF assms], of img job report meta] recordingD(5) [OF assms]
    by (simp add: sequences_ok_def)
qed

lemma base_references_ok:
  assumes "recording img report meta d"
  shows "references_ok (base_db img job report meta d)"
proof -
  let ?b = "base_db img job report meta d"
  note r = recordingD(6) [OF assms, unfolded references_ok_def]
  have ids: "i_id ` set (images ?b) = i_id ` set (images d)"
    by (metis base_image_ids(1) [OF assms] set_map)
  have cs: "c_id ` set (cves d) \<subseteq> c_id ` set (cves ?b)"
    using upsert_keys [OF cve_laws, of 0 "cve_rows report" "cves d"] by (simp add: base_db_def)
  have ps: "p_id ` set (packages d) \<subseteq> p_id ` set (packages ?b)"
    by (simp add: base_db_def new_packages_def upsert_mono)
  have runs: "\<forall>r \<in> set (scan_runs ?b). r_image_id r \<in> i_id ` set (images d)"
    using r recordingD(3) [OF assms] by (auto simp: base_db_def set_update_rows set_counts_def new_run_def)
  have "f_image_id f \<in> i_id ` set (images d) \<and> f_cve_id f \<in> c_id ` set (cves ?b) \<and> f_package_id f \<in> p_id ` set (packages ?b)"
    if f: "f \<in> set (findings ?b)" for f
    using assms f
  proof (cases rule: base_finding_cases)
    case kept
    with r cs ps show ?thesis by blast
  next
    case (seen n)
    then have "f_image_id f = i_id img" "f_cve_id f = fr_cve_id n" "f_package_id f = fr_package_id n"
      using written_rowsD(1) [OF seen(1)] by (simp_all add: finding_key_def finding_row_key_def)
    with written_rows_references [OF seen(1)] recordingD(3) [OF assms] show ?thesis
      by (simp add: base_db_def)
  qed
  moreover have "scan_jobs ?b = scan_jobs d" by (simp add: base_db_def)
  ultimately show ?thesis
    using r runs by (simp add: references_ok_def ids)
qed

lemma base_success_runs:
  assumes "recording img report meta d"
  shows "success_run_of d k r \<Longrightarrow> success_run_of (base_db img job report meta d) k r"
    and "success_run_of (base_db img job report meta d) (i_id img) (next_run_id d)"
proof -
  let ?b = "base_db img job report meta d"
  let ?upd = "\<lambda>r. if r_id r = next_run_id d then set_counts (count_severity (written_rows img report d)) r else r"
  have mem: "?upd r \<in> set (scan_runs ?b)"
    if "r \<in> set (scan_runs d) \<or> r = new_run img job SUCCESS meta None (next_run_id d)" for r
    using that by (auto simp: base_db_def update_rows_def)
  have same: "r_id (?upd r) = r_id r" "r_image_id (?upd r) = r_image_id r" "r_status (?upd r) = r_status r" for r
    by (simp_all add: set_counts_def)
  show "success_run_of ?b k r" if "success_run_of d k r"
  proof -
    from that obtain row where row: "row \<in> set (scan_runs d)" "r_id row = r" "r_image_id row = k" "r_status row = SUCCESS"
      by (auto simp: success_run_of_def)
    with mem [of row] same [of row] show ?thesis
      unfolding success_run_of_def by (intro bexI [of _ "?upd row"]) (simp_all only: simp_thms)
  qed
  show "success_run_of ?b (i_id img) (next_run_id d)"
    using mem [of "new_run img job SUCCESS meta None (next_run_id d)"]
    unfolding success_run_of_def
    by (intro bexI [of _ "?upd (new_run img job SUCCESS meta None (next_run_id d))"])
       (simp_all add: set_counts_def new_run_def)
qed

lemma base_pointers_ok:
  assumes "recording img report meta d"
  shows "pointers_ok (base_db img job report meta d)"
proof -
  let ?b = "base_db img job report meta d"
  note p = recordingD(7) [OF assms, unfolded pointers_ok_def]
  note s = base_success_runs [OF assms]
  have "success_run_of ?b (i_id i) k" if i: "i \<in> set (images ?b)" "i_current_scan_run_id i = Some k" for i k
  proof -
    from i(1) obtain i0 where "i0 \<in> set (images d)"
      "i = (if i_id i0 = i_id img then succeeded_image (next_run_id d) meta img else i0)"
      unfolding base_images [OF assms] by (auto elim: update_rows_memE)
    with i(2) p s show ?thesis by (auto simp: succeeded_image_def split: if_splits)
  qed
  moreover have "success_run_of ?b (f_image_id f) (f_first_seen_run_id f) \<and>
      success_run_of ?b (f_image_id f) (f_last_seen_run_id f) \<and> f_first_seen_run_id f \<le> f_last_seen_run_id f"
    if f: "f \<in> set (findings ?b)" for f
    using assms f
  proof (cases rule: base_finding_cases)
    case kept
    with p s(1) show ?thesis by blast
  next
    case (seen n)
    then have img: "f_image_id f = i_id img"
      using written_rowsD(1) [OF seen(1)] by (simp add: finding_key_def finding_row_key_def)
    from seen(7) show ?thesis
    proof
      assume "\<exists>f0 \<in> set (findings d). finding_key f0 = finding_key f \<and> f_first_seen_run_id f = f_first_seen_run_id f0 \<and> f_id f = f_id f0"
      then obtain f0 where f0: "f0 \<in> set (findings d)" "f_image_id f0 = f_image_id f" "f_first_seen_run_id f = f_first_seen_run_id f0"
        by (auto simp: finding_key_def)
      with p have "success_run_of d (i_id img) (f_first_seen_run_id f)" by (metis img)
      with s seen(3) img old_sighting_below(2) [OF recordingD(1) [OF assms] f0(1)] f0(3) show ?thesis by simp
    qed (use s(2) seen(3) img in simp)
  qed
  ultimately show ?thesis by (simp add: pointers_ok_def)
qed

section \<open>The derived columns\<close>

lemma length_filter_card: "distinct xs \<Longrightarrow> length (filter P xs) = card {x \<in> set xs. P x}"
  by (metis distinct_card distinct_filter set_filter)

lemma current_count_card:
  assumes "unique_on f_id (findings d)"
  shows "current_count d k sev
    = int (card {f \<in> set (current_findings d). f_image_id f = k \<and> f_severity f = sev})"
proof -
  have "distinct (current_findings d)"
    using assms by (simp add: current_findings_def distinct_map)
  then show ?thesis
    by (simp add: current_count_def length_filter_card)
qed

lemma base_sighting_image:
  "n \<in> set (written_rows img report d) \<Longrightarrow> finding_key f = finding_row_key n \<Longrightarrow> f_image_id f = i_id img"
  using written_rowsD(1) by (simp add: finding_key_def finding_row_key_def)

text \<open>The current findings of the image are, by key, exactly the rows of the report.\<close>

lemma base_current_rows:
  assumes "recording img report meta d"
  shows "finding_key ` {f \<in> set (current_findings (base_db img job report meta d)). f_image_id f = i_id img \<and> f_severity f = sev}
    = finding_row_key ` {n \<in> set (written_rows img report d). fr_severity n = sev}"
proof (intro equalityI subsetI)
  let ?b = "base_db img job report meta d"
  fix k
  assume "k \<in> finding_key ` {f \<in> set (current_findings ?b). f_image_id f = i_id img \<and> f_severity f = sev}"
  then obtain f where f: "k = finding_key f" "f \<in> set (findings ?b)" "is_current ?b f" "f_image_id f = i_id img" "f_severity f = sev"
    by (auto simp: current_findings_def)
  from assms f(2) show "k \<in> finding_row_key ` {n \<in> set (written_rows img report d). fr_severity n = sev}"
  proof (cases rule: base_finding_cases)
    case kept
    with base_is_current [OF assms f(2)] f show ?thesis by simp
  next
    case (seen n)
    with f show ?thesis by auto
  qed
next
  let ?b = "base_db img job report meta d"
  fix k
  assume "k \<in> finding_row_key ` {n \<in> set (written_rows img report d). fr_severity n = sev}"
  then obtain n where n: "k = finding_row_key n" "n \<in> set (written_rows img report d)" "fr_severity n = sev"
    by auto
  obtain f where f: "f \<in> set (findings ?b)" "finding_key f = finding_row_key n"
    using base_finding_exists [OF assms n(2)] by blast
  have "f_severity f = sev"
    using assms f(1)
  proof (cases rule: base_finding_cases)
    case kept
    with n(2) f(2) show ?thesis by auto
  next
    case (seen m)
    with f(2) n(2) recordingD(9) [OF assms] have "m = n"
      by (metis unique_onD)
    with seen n(3) show ?thesis by simp
  qed
  moreover have "is_current ?b f" "f_image_id f = i_id img"
    using base_is_current [OF assms f(1)] base_sighting_image [OF n(2) f(2)] f(2) n(2) by auto
  ultimately have "f \<in> {f \<in> set (current_findings ?b). f_image_id f = i_id img \<and> f_severity f = sev}"
    using f(1) by (simp add: current_findings_def)
  then show "k \<in> finding_key ` {f \<in> set (current_findings ?b). f_image_id f = i_id img \<and> f_severity f = sev}"
    unfolding n(1) f(2) [symmetric] by (rule imageI)
qed

lemma base_current_count:
  assumes "recording img report meta d"
  shows "current_count (base_db img job report meta d) k sev =
    (if k = i_id img then count_severity (written_rows img report d) sev else current_count d k sev)"
proof (cases "k = i_id img")
  case True
  let ?b = "base_db img job report meta d"
  let ?S = "{f \<in> set (current_findings ?b). f_image_id f = i_id img \<and> f_severity f = sev}"
  let ?N = "{n \<in> set (written_rows img report d). fr_severity n = sev}"
  have "inj_on finding_key ?S"
    using keys_okD(9) [OF base_keys_ok [OF assms]] by (auto simp: inj_on_def current_findings_def dest: unique_onD)
  then have "card ?S = card (finding_key ` ?S)" by (simp add: card_image)
  also have "\<dots> = card (finding_row_key ` ?N)" by (simp only: base_current_rows [OF assms])
  also have "\<dots> = card ?N"
    using recordingD(9) [OF assms] by (intro card_image) (auto simp: inj_on_def dest: unique_onD)
  also have "\<dots> = length (filter (\<lambda>n. fr_severity n = sev) (written_rows img report d))"
    using recordingD(9) [OF assms] by (simp add: length_filter_card distinct_map)
  finally show ?thesis
    using True current_count_card [OF keys_okD(8) [OF base_keys_ok [OF assms]]] by (simp add: count_severity_def)
next
  case False
  then have "{f \<in> set (current_findings (base_db img job report meta d)). f_image_id f = k \<and> f_severity f = sev}
      = {f \<in> set (current_findings d). f_image_id f = k \<and> f_severity f = sev}"
    using base_other_current [OF assms] by blast
  with False show ?thesis
    using current_count_card [OF keys_okD(8) [OF base_keys_ok [OF assms]]] current_count_card [OF keys_okD(8) [OF recordingD(4) [OF assms]]]
    by simp
qed

lemma r_finding_count_set: "r_finding_count (set_counts c r) sev = Some (c sev)"
  by (cases sev) (simp_all add: set_counts_def)

lemma base_counts_ok:
  assumes "recording img report meta d"
  shows "counts_ok (base_db img job report meta d)"
  unfolding counts_ok_def
proof (intro ballI impI allI)
  let ?b = "base_db img job report meta d"
  fix i r sev
  assume i: "i \<in> set (images ?b)" and r: "r \<in> set (scan_runs ?b)" and ptr: "i_current_scan_run_id i = Some (r_id r)"
  from i obtain i0 where i0: "i0 \<in> set (images d)"
    "i = (if i_id i0 = i_id img then succeeded_image (next_run_id d) meta img else i0)"
    unfolding base_images [OF assms] by (auto elim: update_rows_memE)
  from r have "r \<in> set (update_rows (\<lambda>r. r_id r = next_run_id d) (set_counts (count_severity (written_rows img report d)))
      (scan_runs d @ [new_run img job SUCCESS meta None (next_run_id d)]))"
    by (simp add: base_db_def)
  then obtain r0 where "r0 \<in> set (scan_runs d @ [new_run img job SUCCESS meta None (next_run_id d)])"
    and r0_eq: "r = (if r_id r0 = next_run_id d then set_counts (count_severity (written_rows img report d)) r0 else r0)"
    by (rule update_rows_memE)
  then have r0: "r0 \<in> set (scan_runs d) \<or> r0 = new_run img job SUCCESS meta None (next_run_id d)"
    "r = (if r_id r0 = next_run_id d then set_counts (count_severity (written_rows img report d)) r0 else r0)"
    by auto
  have same: "r_id r = r_id r0" using r0(2) by (simp add: set_counts_def)
  show "r_finding_count r sev = Some (current_count ?b (i_id i) sev)"
  proof (cases "i_id i0 = i_id img")
    case True
    with i0 ptr have "r_id r0 = next_run_id d" "i_id i = i_id img" by (auto simp: succeeded_image_def same)
    with r0 show ?thesis by (simp add: base_current_count [OF assms] r_finding_count_set)
  next
    case False
    with i0 have i: "i = i0" by simp
    have "r_id r < next_run_id d"
      using recordingD(5,7) [OF assms] i0(1) ptr i success_run_below by (auto simp: pointers_ok_def)
    then have "r = r0" "r_id r0 \<noteq> next_run_id d" using r0(2) same by auto
    with r0(1) have "r \<in> set (scan_runs d)" by (auto simp: new_run_def)
    with False i ptr i0(1) consistentD(7) [OF recordingD(1) [OF assms]] show ?thesis
      by (simp add: counts_ok_def base_current_count [OF assms])
  qed
qed

section \<open>The rollup\<close>

lemma foldr_max_Max: "foldr max xs (0::int) = Max (insert 0 (set xs))"
proof (induction xs)
  case (Cons x xs)
  have "insert 0 (set (x # xs)) = insert x (insert 0 (set xs))" by auto
  then have "Max (insert 0 (set (x # xs))) = max x (Max (insert 0 (set xs)))"
    using Max_insert [of "insert 0 (set xs)" x] by (simp only: finite_insert finite_set insert_not_empty simp_thms not_False_eq_True)
  with Cons show ?case by (simp only: foldr.simps o_apply)
qed simp

lemma foldl_max_foldr: "\<forall>x \<in> set (r # rs). (0::int) \<le> x \<Longrightarrow> foldl max r rs = foldr max (r # rs) 0"
proof (induction rs arbitrary: r)
  case (Cons x xs)
  then have "foldl max (max r x) xs = foldr max (max r x # xs) 0" by auto
  then show ?case by (simp add: max.assoc)
qed simp

lemma group_rank_current:
  assumes "\<forall>f \<in> set (findings d). 0 \<le> f_severity_rank f"
  shows "coalesce_int (group_rank d cid) 0 = current_rank d cid"
proof -
  have "\<forall>x \<in> set (map f_severity_rank (findings_of_cve d cid)). 0 \<le> x"
    using assms by (auto simp: findings_of_cve_def current_findings_def)
  then show ?thesis
    by (cases "map f_severity_rank (findings_of_cve d cid)")
       (auto simp: group_rank_def coalesce_int_def current_rank_def foldl_max_foldr)
qed

lemma current_rank_Max: "current_rank d cid = Max (insert 0 (f_severity_rank ` set (findings_of_cve d cid)))"
  by (simp add: current_rank_def foldr_max_Max)

lemma current_image_count_card: "current_image_count d cid = int (card (f_image_id ` set (findings_of_cve d cid)))"
  by (simp add: current_image_count_def length_remdups_card_conv)

lemma rollup_ok_for_set_cong:
  "set (findings_of_cve d' (c_id c)) = set (findings_of_cve d (c_id c)) \<Longrightarrow> rollup_ok_for d' c = rollup_ok_for d c"
  by (simp add: rollup_ok_for_def current_rank_Max current_image_count_card)

definition finding_ranks_ok :: "db \<Rightarrow> bool" where
  "finding_ranks_ok d \<longleftrightarrow> (\<forall>f \<in> set (findings d). f_severity_rank f = rank (f_severity f))"

lemma current_rank_is_rank:
  assumes "finding_ranks_ok d"
  shows "\<exists>s. current_rank d cid = rank s"
proof -
  have "current_rank d cid \<in> insert 0 (f_severity_rank ` set (findings_of_cve d cid))"
    unfolding current_rank_Max by (rule Max_in) simp_all
  then consider "current_rank d cid = rank UNKNOWN" | f where "f \<in> set (findings d)" "current_rank d cid = f_severity_rank f"
    by (auto simp: rank_def findings_of_cve_def current_findings_def)
  then show ?thesis
    using assms by cases (auto simp: finding_ranks_ok_def)
qed

lemma rolled_up_ok:
  assumes "finding_ranks_ok d"
  shows "rollup_ok_for d (rolled_up d c)" and "c_max_severity_rank (rolled_up d c) = rank (c_max_severity (rolled_up d c))"
    and "rollup_differs d c \<longleftrightarrow> \<not> rollup_ok_for d c"
proof -
  have eq: "coalesce_int (group_rank d cid) 0 = current_rank d cid" for cid
    using assms by (intro group_rank_current) (simp add: finding_ranks_ok_def)
  show "rollup_ok_for d (rolled_up d c)" "rollup_differs d c \<longleftrightarrow> \<not> rollup_ok_for d c"
    by (auto simp: rollup_ok_for_def rolled_up_def rollup_differs_def eq)
  obtain s where "current_rank d (c_id c) = rank s"
    using current_rank_is_rank [OF assms] by blast
  then show "c_max_severity_rank (rolled_up d c) = rank (c_max_severity (rolled_up d c))"
    by (simp add: rolled_up_def eq rank_name_def)
qed

text \<open>Recomputing the CVEs whose rollup may be wrong makes every rollup right.\<close>

lemma recompute_rollups:
  assumes fr: "finding_ranks_ok d" and cr: "\<forall>c \<in> set (cves d). c_max_severity_rank c = rank (c_max_severity c)"
    and rest: "\<And>c. c \<in> set (cves d) \<Longrightarrow> c_id c \<notin> set ids \<Longrightarrow> rollup_ok_for d c"
  shows "rollups_ok (recompute_cve_rollup ids d)" "ranks_ok (recompute_cve_rollup ids d)"
proof -
  let ?d' = "recompute_cve_rollup ids d"
  have cong: "rollup_ok_for ?d' c = rollup_ok_for d c" for c
    by (rule rollup_ok_for_set_cong) (simp add: findings_of_cve_def current_findings_cong [of ?d' d])
  have "rollup_ok_for d c \<and> c_max_severity_rank c = rank (c_max_severity c)" if "c \<in> set (cves ?d')" for c
  proof (cases "ids = []")
    case True
    with that rest cr show ?thesis by (simp add: recompute_cve_rollup_def)
  next
    case False
    with that obtain c0 where c0: "c0 \<in> set (cves d)"
      "c = (if c_id c0 \<in> set ids \<and> rollup_differs d c0 then rolled_up d c0 else c0)"
      by (auto simp: recompute_cve_rollup_def elim: update_rows_memE)
    with rest [of c0] cr rolled_up_ok [OF fr, of c0] show ?thesis
      by (cases "c_id c0 \<in> set ids"; cases "rollup_differs d c0") auto
  qed
  then show "rollups_ok ?d'" "ranks_ok ?d'"
    using fr by (simp_all add: rollups_ok_def cong ranks_ok_def finding_ranks_ok_def)
qed

lemma base_finding_ranks:
  assumes "recording img report meta d"
  shows "finding_ranks_ok (base_db img job report meta d)"
  unfolding finding_ranks_ok_def
proof
  fix f
  assume "f \<in> set (findings (base_db img job report meta d))"
  with assms show "f_severity_rank f = rank (f_severity f)"
    using recordingD(8) [OF assms] by (cases rule: base_finding_cases) (auto simp: ranks_ok_def)
qed

lemma base_cve_cases:
  assumes "c \<in> set (cves (base_db img job report meta d))"
  shows "(c \<in> set (cves d) \<and> c_id c \<notin> pf_cve_id ` set (pr_findings report)) \<or>
    (\<exists>n c0. c0 \<in> set (cves d) \<and> c = merge_cve n c0) \<or> (\<exists>n. c = make_cve 0 n)"
proof -
  have "c \<in> set (upsert_rows c_id cr_id make_cve merge_cve 0 (cve_rows report) (cves d))"
    using assms by (simp add: base_db_def)
  from upsert_cases [OF cve_laws cve_rows_ids(1) this] show ?thesis
    by (auto simp: cve_rows_ids(2) make_cve_def)
qed

lemma base_cve_ranks:
  assumes "recording img report meta d"
  shows "\<forall>c \<in> set (cves (base_db img job report meta d)). c_max_severity_rank c = rank (c_max_severity c)"
proof
  fix c
  assume "c \<in> set (cves (base_db img job report meta d))"
  from base_cve_cases [OF this] show "c_max_severity_rank c = rank (c_max_severity c)"
    using recordingD(8) [OF assms]
    by (auto simp: ranks_ok_def merge_cve_def make_cve_def rank_def)
qed

lemma base_rollup_unaffected:
  assumes rec: "recording img report meta d"
    and c: "c \<in> set (cves (base_db img job report meta d))" "c_id c \<notin> set (affected_cves img report d)"
  shows "rollup_ok_for (base_db img job report meta d) c"
proof -
  let ?b = "base_db img job report meta d"
  have unseen: "c_id c \<notin> pf_cve_id ` set (pr_findings report)" and gone: "c_id c \<notin> set (current_cve_ids img d)"
    using c(2) by (simp_all add: affected_cves_def)
  have "c \<in> set (cves d)"
  proof -
    have "c \<in> set (upsert_rows c_id cr_id make_cve merge_cve 0 (cve_rows report) (cves d))"
      using c(1) by (simp add: base_db_def)
    from upsert_cases [OF cve_laws cve_rows_ids(1) this] unseen show ?thesis
      by (auto simp: cve_rows_ids(2) [symmetric])
  qed
  then have ok: "rollup_ok_for d c"
    using consistentD(8) [OF recordingD(1) [OF rec]] by (simp add: rollups_ok_def)
  have "f \<in> set (current_findings ?b) \<longleftrightarrow> f \<in> set (current_findings d)" if f: "f_cve_id f = c_id c" for f
  proof (cases "f_image_id f = i_id img")
    case False
    then show ?thesis by (rule base_other_current [OF rec])
  next
    case True
    have "f \<notin> set (current_findings ?b)"
    proof
      assume "f \<in> set (current_findings ?b)"
      then have "finding_key f \<in> finding_row_key ` set (written_rows img report d)"
        using base_is_current [OF rec, where f = f and job = job] True by (simp add: current_findings_def)
      then obtain n where "n \<in> set (written_rows img report d)" "fr_cve_id n = c_id c"
        using f by (auto simp: finding_key_def finding_row_key_def)
      with written_rowsD(3) unseen show False by force
    qed
    moreover have "f \<notin> set (current_findings d)"
    proof
      assume a: "f \<in> set (current_findings d)"
      have "find_row i_id (i_id img) (images d) = Some img"
        using find_row_unique [of i_id "images d" img] recordingD(3,4) [OF rec] by (simp add: keys_ok_def)
      with a True have "i_current_scan_run_id img = Some (f_last_seen_run_id f)" "f \<in> set (findings d)"
        by (auto simp: current_findings_def is_current_def current_run_of_def)
      with True f gone show False by (auto simp: current_cve_ids_def image_iff)
    qed
    ultimately show ?thesis by simp
  qed
  then have "set (findings_of_cve ?b (c_id c)) = set (findings_of_cve d (c_id c))"
    by (auto simp: findings_of_cve_def)
  from rollup_ok_for_set_cong [of ?b c d, OF this] ok show ?thesis by simp
qed

section \<open>A recording keeps the database consistent\<close>

lemma recompute_keeps:
  "keys_ok d \<Longrightarrow> keys_ok (recompute_cve_rollup ids d)"
  "sequences_ok d \<Longrightarrow> sequences_ok (recompute_cve_rollup ids d)"
  "references_ok d \<Longrightarrow> references_ok (recompute_cve_rollup ids d)"
  "one_active_job d \<Longrightarrow> one_active_job (recompute_cve_rollup ids d)"
  "pointers_ok d \<Longrightarrow> pointers_ok (recompute_cve_rollup ids d)"
  "counts_ok d \<Longrightarrow> counts_ok (recompute_cve_rollup ids d)"
  by (simp_all add: keys_ok_def sequences_ok_def references_ok_def one_active_job_def
      pointers_ok_cong [of "recompute_cve_rollup ids d" d] counts_ok_cong [of "recompute_cve_rollup ids d" d]
      del: set_map)

lemma recording_consistent:
  assumes "recording img report meta d"
  shows "consistent (recompute_cve_rollup (affected_cves img report d) (base_db img job report meta d))"
proof -
  have "one_active_job (base_db img job report meta d)"
    using consistentD(3) [OF recordingD(1) [OF assms]] by (simp add: one_active_job_def base_db_def)
  then show ?thesis
    using recompute_keeps recompute_rollups [OF base_finding_ranks [OF assms] base_cve_ranks [OF assms] base_rollup_unaffected [OF assms]]
      base_keys_ok [OF assms] base_sequences_ok [OF assms] base_references_ok [OF assms]
      base_pointers_ok [OF assms] base_counts_ok [OF assms]
    by (simp add: consistent_def)
qed

end
