(* ===== verification/Persist_Specs.thy ===== *)
theory Persist_Specs
  imports Persist_Lemmas
begin

text \<open>
  The abstract side of recording a run: what the current findings of an image say
  (\<open>image_view\<close>) and what a report says (\<open>report_view\<close>), the rows a report writes, and
  the contract of the recordings that leave every finding alone (\<open>quiet_recorder\<close>), which
  \<open>record_skip\<close> and \<open>record_failure\<close> fulfil.
\<close>

section \<open>Views\<close>

type_synonym view_entry = "string \<times> (string \<times> string \<times> string) \<times> severity \<times> string option"

definition package_of :: "db \<Rightarrow> int \<Rightarrow> string \<times> string \<times> string" where
  "package_of d pid = (case find_row p_id pid (packages d) of None \<Rightarrow> ([], [], []) | Some p \<Rightarrow> package_key p)"

definition view_entry_of :: "db \<Rightarrow> finding \<Rightarrow> view_entry" where
  "view_entry_of d f = (f_cve_id f, package_of d (f_package_id f), f_severity f, f_fixed_version f)"

definition image_view :: "db \<Rightarrow> int \<Rightarrow> view_entry set" where
  "image_view d k = view_entry_of d ` set (filter (\<lambda>f. f_image_id f = k) (current_findings d))"

definition report_view :: "parsed_report \<Rightarrow> view_entry set" where
  "report_view report =
     (\<lambda>f. (pf_cve_id f, finding_package f, pf_severity f, pf_fixed_version f)) ` set (pr_findings report)"

section \<open>The rows of a report\<close>

lemma new_packages_keys: "package_key ` set (new_packages report d) = package_key ` set (packages d) \<union> finding_package ` set (pr_findings report)"
  by (simp add: new_packages_def upsert_keys [OF package_laws])

lemma new_packages_unique_key: "keys_ok d \<Longrightarrow> unique_on package_key (new_packages report d)"
  unfolding new_packages_def by (rule upsert_unique_key [OF package_laws keys_okD(6)])

lemma old_packages_kept: "set (packages d) \<subseteq> set (new_packages report d)"
  using upsert_mono [of package_key id "\<lambda>p. p" "\<lambda>_ p. p" "packages d"] by (simp add: new_packages_def)

definition row_for :: "image \<Rightarrow> parsed_report \<Rightarrow> db \<Rightarrow> parsed_finding \<Rightarrow> finding_row" where
  "row_for img report d f = the (finding_row_of (i_id img)
     (id_table (package_keys report) (new_packages report d)) (next_run_id d) f)"

lemma row_for_exists:
  assumes "f \<in> set (pr_findings report)"
  shows "finding_row_of (i_id img) (id_table (package_keys report) (new_packages report d)) (next_run_id d) f
      = Some (row_for img report d f)"
proof -
  have "finding_package f \<in> package_key ` set (new_packages report d)"
    using new_packages_keys [of report d] assms by blast
  then obtain p where p: "p \<in> set (new_packages report d)" "package_key p = finding_package f"
    by auto
  have "(package_key p, p_id p) \<in> set (id_table (package_keys report) (new_packages report d))"
    unfolding set_map by (rule imageI) (use p assms in simp)
  then obtain pid where "map_of (id_table (package_keys report) (new_packages report d)) (finding_package f) = Some pid"
    unfolding p(2) using weak_map_of_SomeI by fast
  then show ?thesis by (simp add: row_for_def finding_row_of_def)
qed

lemma written_rows_map: "written_rows img report d = map (row_for img report d) (pr_findings report)"
proof -
  have "List.map_filter g fs = map (\<lambda>f. the (g f)) fs" if "\<forall>f \<in> set fs. \<exists>n. g f = Some n"
    for g :: "parsed_finding \<Rightarrow> finding_row option" and fs
    using that by (induction fs) (auto simp: List.map_filter_simps)
  then show ?thesis
    using row_for_exists unfolding written_rows_def row_for_def by blast
qed

lemma row_for_fields:
  assumes "f \<in> set (pr_findings report)"
  shows "fr_image_id (row_for img report d f) = i_id img" "fr_cve_id (row_for img report d f) = pf_cve_id f"
    "fr_severity (row_for img report d f) = pf_severity f" "fr_fixed_version (row_for img report d f) = pf_fixed_version f"
    "fr_run_id (row_for img report d f) = next_run_id d"
    "\<exists>p \<in> set (new_packages report d). package_key p = finding_package f \<and> p_id p = fr_package_id (row_for img report d f)"
  using finding_row_of_SomeD [OF row_for_exists [OF assms, of img d]] by auto

text \<open>One row per finding key, so the upsert never meets a key twice.\<close>

lemma written_rows_distinct:
  assumes "keys_ok d" "sequences_ok d" "distinct (map pf_key (pr_findings report))"
  shows "distinct (map finding_row_key (written_rows img report d))"
proof -
  have "pf_key f = pf_key g"
    if f: "f \<in> set (pr_findings report)" and g: "g \<in> set (pr_findings report)"
      and eq: "finding_row_key (row_for img report d f) = finding_row_key (row_for img report d g)" for f g
  proof -
    obtain p q where pq: "p \<in> set (new_packages report d)" "package_key p = finding_package f" "p_id p = fr_package_id (row_for img report d f)"
      "q \<in> set (new_packages report d)" "package_key q = finding_package g" "p_id q = fr_package_id (row_for img report d g)"
      using row_for_fields(6) [OF f] row_for_fields(6) [OF g] by metis
    have "p = q"
      using packages_unique_id [OF assms(1,2), of report] pq eq
      by (auto simp: finding_row_key_def dest: unique_onD)
    with pq eq row_for_fields(2) [OF f] row_for_fields(2) [OF g] show ?thesis
      by (simp add: pf_key_def finding_row_key_def finding_package_def)
  qed
  moreover have "inj_on pf_key (set (pr_findings report))" "distinct (pr_findings report)"
    using assms(3) by (simp_all add: distinct_map)
  ultimately have "inj_on (finding_row_key \<circ> row_for img report d) (set (pr_findings report))"
    by (intro inj_onI) (metis comp_apply inj_onD)
  with \<open>distinct (pr_findings report)\<close> show ?thesis
    by (simp add: written_rows_map distinct_map)
qed

section \<open>The view after a recording\<close>

lemma package_of_new:
  assumes "recording img report meta d" "p \<in> set (new_packages report d)"
  shows "package_of (recompute_cve_rollup ids (base_db img job report meta d)) (p_id p) = package_key p"
proof -
  have "find_row p_id (p_id p) (new_packages report d) = Some p"
    using packages_unique_id [OF recordingD(4,5) [OF assms(1)], of report] assms(2) by (intro find_row_unique) simp_all
  then show ?thesis by (simp add: package_of_def base_db_def)
qed

lemma recorded_current:
  "current_findings (recompute_cve_rollup ids d) = current_findings d"
  by (rule current_findings_cong) simp_all

lemma recorded_view_other:
  assumes rec: "recording img report meta d" and k: "k \<noteq> i_id img"
  shows "image_view (recompute_cve_rollup ids (base_db img job report meta d)) k = image_view d k"
proof -
  let ?d' = "recompute_cve_rollup ids (base_db img job report meta d)"
  have "{f \<in> set (current_findings ?d'). f_image_id f = k} = {f \<in> set (current_findings d). f_image_id f = k}"
    using base_other_current [OF rec] k by (auto simp: recorded_current)
  moreover have "view_entry_of ?d' f = view_entry_of d f" if "f \<in> set (current_findings d)" for f
  proof -
    have "f_package_id f \<in> p_id ` set (packages d)"
      using that recordingD(6) [OF rec] by (simp add: current_findings_def references_ok_def)
    then obtain p where p: "p \<in> set (packages d)" "p_id p = f_package_id f" by auto
    have "package_of ?d' (f_package_id f) = package_key p"
      using package_of_new [OF rec, of p] old_packages_kept p by (metis subsetD)
    moreover have "package_of d (f_package_id f) = package_key p"
      using find_row_unique [OF keys_okD(5) [OF recordingD(4) [OF rec]] p] by (simp add: package_of_def)
    ultimately show ?thesis by (simp add: view_entry_of_def)
  qed
  ultimately show ?thesis by (simp add: image_view_def)
qed

lemma recorded_view_this:
  assumes rec: "recording img report meta d"
  shows "image_view (recompute_cve_rollup ids (base_db img job report meta d)) (i_id img) = report_view report"
proof (intro equalityI subsetI)
  let ?b = "base_db img job report meta d"
  let ?d' = "recompute_cve_rollup ids ?b"
  have entry: "view_entry_of ?d' g = (pf_cve_id f, finding_package f, pf_severity f, pf_fixed_version f)"
    if f: "f \<in> set (pr_findings report)" and g: "g \<in> set (findings ?b)" and key: "finding_key g = finding_row_key (row_for img report d f)"
    for f g
  proof -
    have mem: "row_for img report d f \<in> set (written_rows img report d)"
      using f by (simp add: written_rows_map)
    obtain p where p: "p \<in> set (new_packages report d)" "package_key p = finding_package f" "p_id p = fr_package_id (row_for img report d f)"
      using row_for_fields(6) [OF f] by blast
    from rec g have "f_severity g = pf_severity f \<and> f_fixed_version g = pf_fixed_version f"
    proof (cases rule: base_finding_cases)
      case kept
      with mem key show ?thesis by auto
    next
      case (seen m)
      with key mem recordingD(9) [OF rec] have "m = row_for img report d f" by (metis unique_onD)
      with seen row_for_fields [OF f] show ?thesis by simp
    qed
    with key p package_of_new [OF rec p(1)] row_for_fields(2) [OF f] show ?thesis
      by (simp add: view_entry_of_def finding_key_def finding_row_key_def)
  qed
  show "e \<in> report_view report" if "e \<in> image_view ?d' (i_id img)" for e
  proof -
    from that obtain g where "g \<in> set (current_findings ?b)" "f_image_id g = i_id img" "e = view_entry_of ?d' g"
      by (auto simp: image_view_def recorded_current)
    then have g: "g \<in> set (findings ?b)" "is_current ?b g" "f_image_id g = i_id img" "e = view_entry_of ?d' g"
      by (simp_all add: current_findings_def)
    with base_is_current [OF rec g(1)] obtain f where "f \<in> set (pr_findings report)" "finding_key g = finding_row_key (row_for img report d f)"
      by (auto simp: written_rows_map)
    with entry [OF _ g(1)] g(4) show ?thesis by (auto simp: report_view_def)
  qed
  show "e \<in> image_view ?d' (i_id img)" if "e \<in> report_view report" for e
  proof -
    from that obtain f where f: "f \<in> set (pr_findings report)"
      "e = (pf_cve_id f, finding_package f, pf_severity f, pf_fixed_version f)"
      by (auto simp: report_view_def)
    have mem: "row_for img report d f \<in> set (written_rows img report d)"
      using f(1) by (simp add: written_rows_map)
    obtain g where g: "g \<in> set (findings ?b)" "finding_key g = finding_row_key (row_for img report d f)"
      using base_finding_exists [OF rec mem] by blast
    moreover have "f_image_id g = i_id img" by (rule base_sighting_image [OF mem g(2)])
    moreover from this have "is_current ?b g"
      using base_is_current [OF rec g(1)] g(2) mem by simp
    ultimately have "g \<in> set (filter (\<lambda>f. f_image_id f = i_id img) (current_findings ?d'))"
      by (simp add: recorded_current) (simp add: current_findings_def)
    then have "view_entry_of ?d' g \<in> image_view ?d' (i_id img)"
      unfolding image_view_def by (rule imageI)
    then show ?thesis using entry [OF f(1) g] f(2) by simp
  qed
qed

section \<open>Recordings that leave the findings alone\<close>

text \<open>The contract of a recording without findings: it appends one run of the image and changes
  columns of the image's row, but never the pointer to the current run, however stale the image
  object is. Whatever satisfies it keeps every finding as current as it was and the database
  consistent.\<close>

locale quiet_recorder =
  fixes rec :: "image \<Rightarrow> db \<Rightarrow> sql_error + (db \<times> int)"
  assumes quiet: "rec img d = Inr (d', k) \<Longrightarrow> k = next_run_id d \<and> i_id img \<in> i_id ` set (images d) \<and>
    (\<exists>run new. d' = d\<lparr>scan_runs := scan_runs d @ [run], next_run_id := next_run_id d + 1,
        images := update_rows (\<lambda>i. i_id i = i_id img) (merge_image img new) (images d)\<rparr> \<and>
      r_id run = k \<and> r_image_id run = i_id img \<and> i_current_scan_run_id new = i_current_scan_run_id img)"
begin

lemma keeps_pointers:
  assumes "rec img d = Inr (d', k)"
  shows "current_run_of d' j = current_run_of d j"
proof -
  from quiet [OF assms] obtain new where
    im: "images d' = update_rows (\<lambda>i. i_id i = i_id img) (merge_image img new) (images d)"
    and ptr: "i_current_scan_run_id new = i_current_scan_run_id img" by auto
  have "find_row i_id j (images d')
      = map_option (\<lambda>i. if i_id i = i_id img then merge_image img new i else i) (find_row i_id j (images d))"
    unfolding im by (rule find_row_update_rows) (simp add: merge_image_def)
  with ptr show ?thesis
    by (auto simp: current_run_of_def merge_image_def pick_def split: option.splits)
qed

lemma same_findings: "rec img d = Inr (d', k) \<Longrightarrow> findings d' = findings d \<and> packages d' = packages d \<and> cves d' = cves d"
  by (drule quiet) auto

lemma same_current:
  assumes "rec img d = Inr (d', k)"
  shows "current_findings d' = current_findings d"
  using same_findings [OF assms]
  by (simp add: current_findings_def is_current_def [abs_def] keeps_pointers [OF assms])

lemma same_view: "rec img d = Inr (d', k) \<Longrightarrow> image_view d' j = image_view d j"
  using same_findings [of img d d' k] same_current [of img d d' k]
  by (simp add: image_view_def view_entry_of_def [abs_def] package_of_def)

lemma keeps_consistent:
  assumes con: "consistent d" and rec: "rec img d = Inr (d', k)"
  shows "consistent d'"
proof -
  from quiet [OF rec] obtain run new where k: "k = next_run_id d" "i_id img \<in> i_id ` set (images d)"
    and d': "d' = d\<lparr>scan_runs := scan_runs d @ [run], next_run_id := next_run_id d + 1,
        images := update_rows (\<lambda>i. i_id i = i_id img) (merge_image img new) (images d)\<rparr>"
    and run: "r_id run = k" "r_image_id run = i_id img"
    and ptr: "i_current_scan_run_id new = i_current_scan_run_id img" by blast
  have maps: "map i_id (images d') = map i_id (images d)" "map image_key (images d') = map image_key (images d)"
    unfolding d' by (auto intro!: map_update_rows simp: merge_image_def image_key_def)
  have ids: "i_id ` set (images d') = i_id ` set (images d)" by (metis maps(1) set_map)
  have old: "\<exists>i0 \<in> set (images d). i_id i = i_id i0 \<and> i_current_scan_run_id i = i_current_scan_run_id i0"
    if "i \<in> set (images d')" for i
  proof -
    from that obtain i0 where "i0 \<in> set (images d)"
      "i = (if i_id i0 = i_id img then merge_image img new i0 else i0)"
      by (auto simp: d' elim: update_rows_memE)
    with ptr show ?thesis
      by (intro bexI [of _ i0]) (simp_all add: merge_image_def pick_def)
  qed
  have mono: "success_run_of d j m \<Longrightarrow> success_run_of d' j m" for j m
    by (rule success_run_of_mono) (auto simp: d')
  have fresh: "r_id r \<noteq> k" if "r \<in> set (scan_runs d)" for r
    using that run_id_fresh [OF consistentD(2) [OF con]] k(1) by (metis imageI)
  have keys: "keys_ok d'"
  proof -
    have "r_id run \<notin> r_id ` set (scan_runs d)" using fresh run(1) by (metis imageE)
    then have "unique_on r_id (scan_runs d')"
      using keys_okD(4) [OF consistentD(1) [OF con]] by (simp add: d')
    with keys_okD [OF consistentD(1) [OF con]] same_findings [OF rec] maps show ?thesis
      by (simp add: keys_ok_def) (simp add: d')
  qed
  have seqs: "sequences_ok d'"
  proof -
    have "\<forall>x \<in> i_id ` set (images d'). x < next_image_id d"
      unfolding ids using consistentD(2) [OF con] by (auto simp: sequences_ok_def)
    then show ?thesis
      using consistentD(2) [OF con] run(1) k(1) by (auto simp: sequences_ok_def d')
  qed
  have refs: "references_ok d'"
    using consistentD(4) [OF con] run(2) k(2) unfolding references_ok_def ids by (auto simp: d')
  have ptrs: "pointers_ok d'"
    unfolding pointers_ok_def
  proof (intro conjI ballI allI impI)
    fix i m
    assume i: "i \<in> set (images d')" "i_current_scan_run_id i = Some m"
    from old [OF i(1)] obtain i0 where "i0 \<in> set (images d)" "i_id i = i_id i0"
      "i_current_scan_run_id i0 = Some m" using i(2) by auto
    with consistentD(5) [OF con] mono show "success_run_of d' (i_id i) m"
      by (simp add: pointers_ok_def)
  next
    fix f
    assume "f \<in> set (findings d')"
    with consistentD(5) [OF con] mono same_findings [OF rec]
    show "success_run_of d' (f_image_id f) (f_first_seen_run_id f)"
      "success_run_of d' (f_image_id f) (f_last_seen_run_id f)" "f_first_seen_run_id f \<le> f_last_seen_run_id f"
      by (simp_all add: pointers_ok_def)
  qed
  have counts: "counts_ok d'"
    unfolding counts_ok_def
  proof (intro ballI impI allI)
    fix i r sev
    assume i: "i \<in> set (images d')" and r: "r \<in> set (scan_runs d')" and p: "i_current_scan_run_id i = Some (r_id r)"
    from old [OF i] obtain i0 where i0: "i0 \<in> set (images d)" "i_id i = i_id i0" "i_current_scan_run_id i0 = Some (r_id r)"
      using p by auto
    then have "r_id r < next_run_id d"
      using consistentD(2,5) [OF con] success_run_below by (auto simp: pointers_ok_def)
    with r run(1) k(1) have "r \<in> set (scan_runs d)" by (auto simp: d')
    with i0 consistentD(7) [OF con] show "r_finding_count r sev = Some (current_count d' (i_id i) sev)"
      by (simp add: counts_ok_def current_count_def same_current [OF rec])
  qed
  have rolls: "rollups_ok d'"
    using consistentD(8) [OF con] same_findings [OF rec]
    by (simp add: rollups_ok_def rollup_ok_for_def current_rank_def current_image_count_def findings_of_cve_def
        same_current [OF rec])
  have "one_active_job d'" "ranks_ok d'"
    using consistentD(3,6) [OF con] by (simp_all add: one_active_job_def ranks_ok_def d')
  with keys seqs refs ptrs counts rolls show ?thesis by (simp add: consistent_def)
qed

end

lemma quiet_shape:
  assumes "insert_run img job st meta err d = Inr (d1, run)" "save_image img new d1 = Inr d'"
    and "i_current_scan_run_id new = i_current_scan_run_id img"
  shows "r_id run = next_run_id d \<and> i_id img \<in> i_id ` set (images d) \<and>
    (\<exists>rn nw. d' = d\<lparr>scan_runs := scan_runs d @ [rn], next_run_id := next_run_id d + 1,
        images := update_rows (\<lambda>i. i_id i = i_id img) (merge_image img nw) (images d)\<rparr> \<and>
      r_id rn = r_id run \<and> r_image_id rn = i_id img \<and> i_current_scan_run_id nw = i_current_scan_run_id img)"
proof -
  from assms(1) have d1: "d1 = d\<lparr>scan_runs := scan_runs d @ [run], next_run_id := next_run_id d + 1\<rparr>"
    and run: "r_id run = next_run_id d" "r_image_id run = i_id img" "i_id img \<in> i_id ` set (images d)"
    by (auto simp: insert_run_def Let_def new_run_def split: if_splits)
  have "d' = d\<lparr>scan_runs := scan_runs d @ [run], next_run_id := next_run_id d + 1,
      images := update_rows (\<lambda>i. i_id i = i_id img) (merge_image img new) (images d)\<rparr>"
    using save_image_Inr [OF assms(2)] by (simp add: d1)
  with run assms(3) show ?thesis by blast
qed

interpretation skip: quiet_recorder "\<lambda>img d. record_skip img job meta d" for job meta
proof unfold_locales
  fix img d d' k
  assume rec: "record_skip img job meta d = Inr (d', k)"
  then obtain d1 run where ins: "insert_run img job SKIPPED meta None d = Inr (d1, run)"
    by (cases "insert_run img job SKIPPED meta None d") (auto simp: record_skip_def)
  with rec have sav: "save_image img (skipped_image meta img) d1 = Inr d'" and k: "k = r_id run"
    by (cases "save_image img (skipped_image meta img) d1"; simp add: record_skip_def)+
  have ptr: "i_current_scan_run_id (skipped_image meta img) = i_current_scan_run_id img"
    by (simp add: skipped_image_def)
  show "k = next_run_id d \<and> i_id img \<in> i_id ` set (images d) \<and>
    (\<exists>run new. d' = d\<lparr>scan_runs := scan_runs d @ [run], next_run_id := next_run_id d + 1,
        images := update_rows (\<lambda>i. i_id i = i_id img) (merge_image img new) (images d)\<rparr> \<and>
      r_id run = k \<and> r_image_id run = i_id img \<and> i_current_scan_run_id new = i_current_scan_run_id img)"
    unfolding k by (rule quiet_shape [OF ins sav ptr])
qed

interpretation failure: quiet_recorder "\<lambda>img d. record_failure img job meta error exhausted d" for job meta error exhausted
proof unfold_locales
  fix img d d' k
  assume rec: "record_failure img job meta error exhausted d = Inr (d', k)"
  then obtain d1 run where ins: "insert_run img job RUN_FAILED meta (Some (take 4000 error)) d = Inr (d1, run)"
    by (cases "insert_run img job RUN_FAILED meta (Some (take 4000 error)) d") (auto simp: record_failure_def)
  with rec have sav: "save_image img (failed_image meta exhausted img) d1 = Inr d'" and k: "k = r_id run"
    by (cases "save_image img (failed_image meta exhausted img) d1"; simp add: record_failure_def)+
  have ptr: "i_current_scan_run_id (failed_image meta exhausted img) = i_current_scan_run_id img"
    by (simp add: failed_image_def)
  show "k = next_run_id d \<and> i_id img \<in> i_id ` set (images d) \<and>
    (\<exists>run new. d' = d\<lparr>scan_runs := scan_runs d @ [run], next_run_id := next_run_id d + 1,
        images := update_rows (\<lambda>i. i_id i = i_id img) (merge_image img new) (images d)\<rparr> \<and>
      r_id run = k \<and> r_image_id run = i_id img \<and> i_current_scan_run_id new = i_current_scan_run_id img)"
    unfolding k by (rule quiet_shape [OF ins sav ptr])
qed

end
