(* ===== verification/Persist_Props.thy ===== *)
theory Persist_Props
  imports Persist_Specs
begin

text \<open>
  The properties of writing scan results: what recording a success, a skip and a failure does
  to the findings, the history, the derived columns and the consistency of the database, when
  it is refused, and what a stale image object does to the rollup.
\<close>

section \<open>A concrete history\<close>

text \<open>Two images that were never scanned, and three reports.\<close>

definition img1 :: image where
  "img1 = \<lparr>i_id = 1, i_name = ''nginx'', i_tag = ''1'', i_scan_interval_seconds = None, i_enabled = True,
     i_current_scan_run_id = None, i_consecutive_failures = 3, i_last_scan_at = None,
     i_last_scan_status = None, i_created_at = 0\<rparr>"

definition fresh_db :: db where
  "fresh_db = empty_db\<lparr>images := [img1, img1\<lparr>i_id := 2, i_tag := ''2''\<rparr>], next_image_id := 3\<rparr>"

definition finding_on :: "string \<Rightarrow> severity \<Rightarrow> parsed_finding" where
  "finding_on cid sev = \<lparr>pf_cve_id = cid, pf_package_name = ''z'', pf_package_version = ''1'',
     pf_package_type = ''deb'', pf_severity = sev, pf_fixed_version = None, pf_title = None,
     pf_description = None, pf_published_at = None, pf_last_modified_at = None\<rparr>"

definition report_of :: "parsed_finding list \<Rightarrow> parsed_report" where
  "report_of fs = \<lparr>pr_digest = None, pr_artifact_name = None, pr_findings = fs\<rparr>"

definition meta_at :: "time \<Rightarrow> run_metadata" where
  "meta_at t = \<lparr>m_digest = Some ''d'', m_trivy_version = None, m_trivy_db_version = None,
     m_scan_flags_hash = None, m_started_at = t, m_completed_at = t + 1000\<rparr>"

definition report1 :: parsed_report where
  "report1 = report_of [finding_on ''A'' HIGH, finding_on ''B'' LOW]"

definition report2 :: parsed_report where
  "report2 = report_of [finding_on ''B'' MEDIUM]"

text \<open>After image 1 was scanned once, and the image object of that moment.\<close>

definition once_db :: db where
  "once_db = (case record_success img1 None report1 (meta_at 5) fresh_db of Inr (d, _) \<Rightarrow> d | Inl _ \<Rightarrow> fresh_db)"

definition once_img :: image where
  "once_img = succeeded_image 1 (meta_at 5) img1"

definition twice_db :: db where
  "twice_db = (case record_success once_img None report2 (meta_at 50) once_db of Inr (d, _) \<Rightarrow> d | Inl _ \<Rightarrow> fresh_db)"

lemma fresh_consistent: "consistent fresh_db"
  by (simp add: consistent_def db_parts counts_ok_def rollups_ok_def fresh_db_def empty_db_def img1_def image_key_def)

lemma fresh_mem: "img1 \<in> set (images fresh_db)"
  by (simp add: fresh_db_def)

lemma once_eq: "record_success img1 None report1 (meta_at 5) fresh_db = Inr (once_db, 1)"
  by code_simp

lemma once_mem: "once_img \<in> set (images once_db)"
  by code_simp

lemma twice_eq: "record_success once_img None report2 (meta_at 50) once_db = Inr (twice_db, 2)"
  by code_simp

lemma recording_of:
  assumes "consistent d" "img \<in> set (images d)" "record_success img job report meta d = Inr (d', rid)"
  shows "recording img report meta d" "rid = next_run_id d"
    "d' = recompute_cve_rollup (affected_cves img report d) (base_db img job report meta d)"
  using assms by (auto simp: recording_def record_success_eq)

lemma once_consistent: "consistent once_db"
  using recording_consistent [OF recording_of(1) [OF fresh_consistent fresh_mem once_eq], of None]
    recording_of(3) [OF fresh_consistent fresh_mem once_eq] by simp

lemma twice_consistent: "consistent twice_db"
  using recording_consistent [OF recording_of(1) [OF once_consistent once_mem twice_eq], of None]
    recording_of(3) [OF once_consistent once_mem twice_eq] by simp

section \<open>Success\<close>

text \<open>C2. Recording a successful scan keeps the whole database consistent: keys and foreign keys,
  the run pointers, the denormalised ranks, the finding counts of every current run, and,
  although only the CVEs the scan touched are recomputed, the severity rollup and the image
  count of every CVE there is.\<close>

theorem record_success_keeps_consistent:
  assumes "consistent d" and "img \<in> set (images d)"
    and "record_success img job report meta d = Inr (d', rid)"
  shows "consistent d'"
  using recording_consistent [OF recording_of(1) [OF assms], of job] recording_of(3) [OF assms] by simp

theorem record_success_keeps_consistent_witness:
  "\<exists>d1 d2. record_success img1 None report1 (meta_at 5) fresh_db = Inr (d1, 1) \<and>
     record_success once_img None report2 (meta_at 50) d1 = Inr (d2, 2) \<and> consistent d1 \<and> consistent d2"
  using record_success_keeps_consistent [OF fresh_consistent fresh_mem once_eq]
    record_success_keeps_consistent [OF _ once_mem twice_eq] once_eq twice_eq by blast

text \<open>C3. The current findings after a success. Seen abstractly, recording a success is one map
  update: the image's current findings become exactly what the report says (CVE, package,
  severity, fixed version), and those of every other image stay what they were.\<close>

theorem record_success_refines_view_update:
  assumes "consistent d" and "img \<in> set (images d)"
    and "record_success img job report meta d = Inr (d', rid)"
  shows "image_view d' = (image_view d)(i_id img := report_view report)"
proof
  fix k
  show "image_view d' k = ((image_view d)(i_id img := report_view report)) k"
    using recorded_view_this [OF recording_of(1) [OF assms]] recorded_view_other [OF recording_of(1) [OF assms]]
      recording_of(3) [OF assms] by simp
qed

theorem record_success_refines_view_update_witness:
  "image_view once_db = (image_view fresh_db)
     (1 := {(''A'', (''z'', ''1'', ''deb''), HIGH, None), (''B'', (''z'', ''1'', ''deb''), LOW, None)})"
proof -
  have "report_view report1 = {(''A'', (''z'', ''1'', ''deb''), HIGH, None), (''B'', (''z'', ''1'', ''deb''), LOW, None)}"
    by (simp add: report_view_def report1_def report_of_def finding_on_def finding_package_def)
  then show ?thesis
    using record_success_refines_view_update [OF fresh_consistent fresh_mem once_eq] by (simp add: img1_def)
qed

text \<open>C25. History is kept. After a success every finding row there was is still there, with its id
  and the run that first saw it; rows of other images are untouched; a row of this image that
  the report does not mention is untouched too, and stops being current; and a finding that
  was never seen before is first seen by this run.\<close>

theorem record_success_keeps_history:
  assumes "consistent d" and "img \<in> set (images d)"
    and "record_success img job report meta d = Inr (d', rid)"
  shows "(\<lambda>f. (f_id f, finding_key f, f_first_seen_run_id f)) ` set (findings d)
      \<subseteq> (\<lambda>f. (f_id f, finding_key f, f_first_seen_run_id f)) ` set (findings d') \<and>
    (\<forall>f \<in> set (findings d'). f \<in> set (findings d) \<or>
       (f_image_id f = i_id img \<and> f_last_seen_run_id f = rid \<and>
        (finding_key f \<notin> finding_key ` set (findings d) \<longrightarrow> f_first_seen_run_id f = rid)))"
proof
  note rec = recording_of [OF assms]
  have "(\<lambda>f. (f_id f, finding_key f, f_first_seen_run_id f)) ` set (findings d)
      \<subseteq> (\<lambda>f. (f_id f, finding_key f, f_first_seen_run_id f)) ` set (upsert_rows finding_key finding_row_key
            make_finding merge_finding (next_finding_id d) (written_rows img report d) (findings d))"
    by (rule upsert_mono) (simp add: merge_finding_def finding_key_def)
  then show "(\<lambda>f. (f_id f, finding_key f, f_first_seen_run_id f)) ` set (findings d)
      \<subseteq> (\<lambda>f. (f_id f, finding_key f, f_first_seen_run_id f)) ` set (findings d')"
    by (simp add: rec(3) base_db_def)
  show "\<forall>f \<in> set (findings d'). f \<in> set (findings d) \<or>
       (f_image_id f = i_id img \<and> f_last_seen_run_id f = rid \<and>
        (finding_key f \<notin> finding_key ` set (findings d) \<longrightarrow> f_first_seen_run_id f = rid))"
  proof
    fix f
    assume "f \<in> set (findings d')"
    then have "f \<in> set (findings (base_db img job report meta d))" by (simp add: rec(3))
    with rec(1) show "f \<in> set (findings d) \<or> (f_image_id f = i_id img \<and> f_last_seen_run_id f = rid \<and>
        (finding_key f \<notin> finding_key ` set (findings d) \<longrightarrow> f_first_seen_run_id f = rid))"
    proof (cases rule: base_finding_cases)
      case (seen n)
      then show ?thesis
        using base_sighting_image [OF seen(1,2)] rec(2) by (metis imageI)
    qed simp
  qed
qed

theorem record_success_keeps_history_witness:
  "(\<lambda>f. (f_id f, finding_key f, f_first_seen_run_id f)) ` set (findings once_db)
      \<subseteq> (\<lambda>f. (f_id f, finding_key f, f_first_seen_run_id f)) ` set (findings twice_db)"
  using record_success_keeps_history [OF once_consistent once_mem twice_eq] by blast

text \<open>A report that fits the columns and the parameters of one statement; for distinct keys
  nothing else can refuse it. The INSERT of the findings is the widest of the three.\<close>

definition report_fits :: "parsed_report \<Rightarrow> bool" where
  "report_fits report \<longleftrightarrow> bindable 8 (pr_findings report) \<and> (\<forall>f \<in> set (pr_findings report).
     package_fits (finding_package f) \<and> varchar 64 (pf_cve_id f) \<and> varchar_opt 255 (pf_fixed_version f))"

lemma narrower_inserts_bindable:
  assumes "bindable 8 (pr_findings report)"
  shows "bindable 3 (package_keys report)" and "bindable 5 (cve_rows report)"
proof -
  let ?fs = "pr_findings report"
  have "length (package_keys report) = card (finding_package ` set ?fs)"
    using distinct_card [OF package_keys_distinct [of report]] by simp
  also have "\<dots> \<le> length ?fs"
    by (rule order_trans [OF card_image_le card_length]) simp
  finally show "bindable 3 (package_keys report)"
    by (rule bindable_shorter [OF assms]) simp_all
  have "length (cve_rows report) = card (pf_cve_id ` set ?fs)"
    using distinct_card [OF cve_rows_ids(1) [of report]] by (simp add: cve_rows_ids(2))
  also have "\<dots> \<le> length ?fs"
    by (rule order_trans [OF card_image_le card_length]) simp
  finally show "bindable 5 (cve_rows report)"
    by (rule bindable_shorter [OF assms]) simp_all
qed

lemma recordable_iff:
  assumes "consistent d" and "img \<in> set (images d)" and "distinct (map pf_key (pr_findings report))"
  shows "recordable img report meta d \<longleftrightarrow> run_fits meta \<and> report_fits report"
proof -
  have "list_all (\<lambda>n. varchar 64 (cr_id n)) (cve_rows report) \<longleftrightarrow> (\<forall>x \<in> cr_id ` set (cve_rows report). varchar 64 x)"
    by (auto simp: list_all_iff)
  moreover have "list_all (\<lambda>n. varchar_opt 255 (fr_fixed_version n)) (written_rows img report d)
      \<longleftrightarrow> (\<forall>f \<in> set (pr_findings report). varchar_opt 255 (pf_fixed_version f))"
    by (auto simp: written_rows_map list_all_iff row_for_fields(4))
  moreover have "list_all package_fits (package_keys report) \<longleftrightarrow> (\<forall>f \<in> set (pr_findings report). package_fits (finding_package f))"
    by (simp add: list_all_iff)
  moreover have "distinct (map finding_row_key (written_rows img report d))"
    using written_rows_distinct [OF _ _ assms(3)] assms(1) by (simp add: consistent_def)
  moreover have "bindable 8 (written_rows img report d) \<longleftrightarrow> bindable 8 (pr_findings report)"
    by (simp add: written_rows_map bindable_def)
  ultimately show ?thesis
    using assms(2) narrower_inserts_bindable [of report]
    by (auto simp: recordable_def report_fits_def cve_rows_ids(2))
qed

text \<open>C35. When a success is refused. With an image that exists, a report whose findings have
  distinct keys (as every parsed report has) is recorded unless a value is too long for its
  column or there are more than 8191 findings, eight parameters each; in particular the upsert of the findings never meets one key twice and never
  misses a foreign key.\<close>

theorem record_success_refused_iff_too_long:
  assumes "consistent d" and "img \<in> set (images d)" and "distinct (map pf_key (pr_findings report))"
  shows "(\<exists>d'. record_success img job report meta d = Inr (d', next_run_id d)) \<longleftrightarrow> run_fits meta \<and> report_fits report"
  using recordable_iff [OF assms] by (auto simp: record_success_eq)

theorem record_success_refused_iff_too_long_witness:
  "\<not> (\<exists>d'. record_success img1 None (report_of [(finding_on ''A'' HIGH)\<lparr>pf_fixed_version := Some (replicate 256 CHR ''1'')\<rparr>])
       (meta_at 5) fresh_db = Inr (d', next_run_id fresh_db))"
proof -
  let ?r = "report_of [(finding_on ''A'' HIGH)\<lparr>pf_fixed_version := Some (replicate 256 CHR ''1'')\<rparr>]"
  have "distinct (map pf_key (pr_findings ?r))" by (simp add: report_of_def)
  moreover have "\<not> report_fits ?r" by (simp add: report_fits_def report_of_def varchar_def)
  ultimately show ?thesis
    using record_success_refused_iff_too_long [OF fresh_consistent fresh_mem] by blast
qed

lemma bindable_8_iff: "bindable 8 rows \<longleftrightarrow> length rows \<le> 8191"
  by (simp add: bindable_def MAX_BIND_PARAMETERS_def) linarith

text \<open>One finding too many: whatever the values are, a report of 8192 findings is refused, each
  time it is scanned.\<close>

lemma large_report_never_recorded:
  assumes "consistent d" and "img \<in> set (images d)" and "distinct (map pf_key (pr_findings report))"
    and "8191 < length (pr_findings report)"
  shows "record_success img job report meta d \<noteq> Inr (d', rid)"
  using recordable_iff [OF assms(1-3)] assms(4)
  by (auto simp: record_success_eq report_fits_def bindable_8_iff)

section \<open>Skips and failures\<close>

lemma record_skip_shape:
  assumes "record_skip img job meta d = Inr (d', rid)"
  shows "d' = d\<lparr>scan_runs := scan_runs d @ [new_run img job SKIPPED meta None rid], next_run_id := next_run_id d + 1,
    images := update_rows (\<lambda>i. i_id i = i_id img) (merge_image img (skipped_image meta img)) (images d)\<rparr>"
  using assms by (auto simp: record_skip_def insert_run_def Let_def new_run_def dest: save_image_Inr split: if_splits sum.splits)

lemma record_failure_shape:
  assumes "record_failure img job meta error exhausted d = Inr (d', rid)"
  shows "d' = d\<lparr>scan_runs := scan_runs d @ [new_run img job RUN_FAILED meta (Some (take 4000 error)) rid],
    next_run_id := next_run_id d + 1,
    images := update_rows (\<lambda>i. i_id i = i_id img) (merge_image img (failed_image meta exhausted img)) (images d)\<rparr>"
  using assms by (auto simp: record_failure_def insert_run_def Let_def new_run_def dest: save_image_Inr split: if_splits sum.splits)

lemma merge_fresh:
  assumes "unique_on i_id (images d)" "img \<in> set (images d)" "merge_image img new img = row"
  shows "update_rows (\<lambda>i. i_id i = i_id img) (merge_image img new) (images d)
    = map (\<lambda>i. if i_id i = i_id img then row else i) (images d)"
  using assms by (auto simp: update_rows_def dest: unique_onD)

text \<open>C26. A skip or a failure leaves every finding, every image's current findings and every other
  image exactly as they were and the database consistent, even when the image object it was
  given is stale, and it appends one run of the image with its status. When the image object
  is as fresh as its row, the row afterwards shows the time and the status of this run and
  differs in nothing else but the failure streak: a failure that exhausted the job lengthens
  it by one, any other failure leaves it, a skip clears it.\<close>

theorem quiet_runs_keep_findings:
  assumes "consistent d"
    and "record_skip img job meta d = Inr (d', rid) \<and> status = SKIPPED \<and> streak = 0 \<or>
      record_failure img job meta error exhausted d = Inr (d', rid) \<and> status = RUN_FAILED \<and>
      streak = i_consecutive_failures img + (if exhausted then 1 else 0)"
  shows "consistent d' \<and> image_view d' = image_view d \<and> current_run_of d' = current_run_of d \<and>
    findings d' = findings d \<and>
    (\<exists>run. scan_runs d' = scan_runs d @ [run] \<and> r_id run = rid \<and> r_image_id run = i_id img \<and> r_status run = status) \<and>
    filter (\<lambda>i. i_id i \<noteq> i_id img) (images d') = filter (\<lambda>i. i_id i \<noteq> i_id img) (images d) \<and>
    (img \<in> set (images d) \<longrightarrow>
      images d' = map (\<lambda>i. if i_id i = i_id img
        then img\<lparr>i_last_scan_at := Some (m_completed_at meta), i_last_scan_status := Some status,
          i_consecutive_failures := streak\<rparr> else i) (images d))"
proof -
  have uniq: "unique_on i_id (images d)" by (rule keys_okD(1) [OF consistentD(1) [OF assms(1)]])
  have others: "filter (\<lambda>i. i_id i \<noteq> i_id img) (update_rows (\<lambda>i. i_id i = i_id img) (merge_image img new) is)
      = filter (\<lambda>i. i_id i \<noteq> i_id img) is" for new "is"
    by (induction "is") (simp_all add: merge_image_def)
  from assms(2) show ?thesis
  proof
    assume a: "record_skip img job meta d = Inr (d', rid) \<and> status = SKIPPED \<and> streak = 0"
    then have r: "record_skip img job meta d = Inr (d', rid)" by simp
    have "merge_image img (skipped_image meta img) img = img\<lparr>i_last_scan_at := Some (m_completed_at meta),
        i_last_scan_status := Some status, i_consecutive_failures := streak\<rparr>"
      using a by (intro image.equality) (simp_all add: merge_image_def skipped_image_def pick_def)
    from skip.keeps_consistent [OF assms(1) r] skip.same_view [OF r] skip.keeps_pointers [OF r]
      merge_fresh [OF uniq _ this] others record_skip_shape [OF r] a
    show ?thesis by (auto simp: new_run_def)
  next
    assume a: "record_failure img job meta error exhausted d = Inr (d', rid) \<and> status = RUN_FAILED \<and>
      streak = i_consecutive_failures img + (if exhausted then 1 else 0)"
    then have r: "record_failure img job meta error exhausted d = Inr (d', rid)" by simp
    have "merge_image img (failed_image meta exhausted img) img = img\<lparr>i_last_scan_at := Some (m_completed_at meta),
        i_last_scan_status := Some status, i_consecutive_failures := streak\<rparr>"
      using a by (intro image.equality) (simp_all add: merge_image_def failed_image_def pick_def)
    from failure.keeps_consistent [OF assms(1) r] failure.same_view [OF r] failure.keeps_pointers [OF r]
      merge_fresh [OF uniq _ this] others record_failure_shape [OF r] a
    show ?thesis by (auto simp: new_run_def)
  qed
qed

lemma fresh_failure: "\<exists>d'. record_failure img1 None (meta_at 5) ''boom'' True fresh_db = Inr (d', 1)"
  by (simp add: record_failure_def insert_run_def Let_def run_fits_def meta_at_def varchar_def fresh_db_def img1_def
      save_image_def failed_image_def empty_db_def new_run_def)

theorem quiet_runs_keep_findings_witness:
  "\<exists>d' run. record_failure img1 None (meta_at 5) ''boom'' True fresh_db = Inr (d', 1) \<and> consistent d' \<and>
     image_view d' = image_view fresh_db \<and> scan_runs d' = [run] \<and> r_status run = RUN_FAILED \<and>
     map i_consecutive_failures (images d') = [4, 3] \<and> map i_last_scan_at (images d') = [Some 1005, None]"
proof -
  from fresh_failure obtain d' where
    r: "record_failure img1 None (meta_at 5) ''boom'' True fresh_db = Inr (d', 1)" by blast
  from quiet_runs_keep_findings [OF fresh_consistent, of img1 None "meta_at 5" d' 1 RUN_FAILED 4 "''boom''" True] r
  show ?thesis by (auto simp: fresh_db_def empty_db_def img1_def meta_at_def)
qed

section \<open>The rollup and the CVE rows\<close>

text \<open>The guard of the rollup statement is only an optimisation. On a database whose ranks
  agree with their severities, the guarded UPDATE gives what recomputing every listed CVE
  would give, and a CVE whose rollup is already right is not written at all.\<close>

theorem rollup_guard_is_exact:
  assumes "ranks_ok d"
  shows "recompute_cve_rollup ids d
      = d\<lparr>cves := update_rows (\<lambda>c. c_id c \<in> set ids) (rolled_up d) (cves d)\<rparr> \<and>
    filter (\<lambda>c. c_id c \<in> set ids \<and> rollup_differs d c) (cves d)
      = filter (\<lambda>c. c_id c \<in> set ids \<and> \<not> rollup_ok_for d c) (cves d)"
proof
  have fr: "finding_ranks_ok d" using assms by (simp add: finding_ranks_ok_def ranks_ok_def)
  have same: "rolled_up d c = c" if "c \<in> set (cves d)" "\<not> rollup_differs d c" for c
  proof -
    have "rank_name (c_max_severity_rank c) = c_max_severity c"
      using assms that(1) by (simp add: ranks_ok_def rank_name_def)
    moreover have "coalesce_int (group_rank d (c_id c)) 0 = c_max_severity_rank c"
      "current_image_count d (c_id c) = c_affected_image_count c"
      using that(2) by (simp_all add: rollup_differs_def)
    ultimately show ?thesis
      by (intro cve.equality) (simp_all add: rolled_up_def)
  qed
  have "update_rows (\<lambda>c. c_id c \<in> set ids \<and> rollup_differs d c) (rolled_up d) (cves d)
      = update_rows (\<lambda>c. c_id c \<in> set ids) (rolled_up d) (cves d)"
    using same by (auto simp: update_rows_def)
  then show "recompute_cve_rollup ids d
      = d\<lparr>cves := update_rows (\<lambda>c. c_id c \<in> set ids) (rolled_up d) (cves d)\<rparr>"
    by (auto simp: recompute_cve_rollup_def update_rows_def)
  show "filter (\<lambda>c. c_id c \<in> set ids \<and> rollup_differs d c) (cves d)
      = filter (\<lambda>c. c_id c \<in> set ids \<and> \<not> rollup_ok_for d c) (cves d)"
    by (simp add: rolled_up_ok(3) [OF fr])
qed

theorem rollup_guard_is_exact_witness:
  "recompute_cve_rollup [''A''] once_db
     = once_db\<lparr>cves := update_rows (\<lambda>c. c_id c \<in> set [''A'']) (rolled_up once_db) (cves once_db)\<rparr>"
proof -
  have "ranks_ok once_db" by code_simp
  from rollup_guard_is_exact [OF this] show ?thesis by blast
qed

definition descriptive :: "cve \<Rightarrow> string option \<times> string option \<times> time option \<times> time option" where
  "descriptive c = (c_title c, c_description c, c_published_at c, c_last_modified_at c)"

lemma coalesce_None_iff [simp]: "coalesce a b = None \<longleftrightarrow> a = None \<and> b = None"
  by (cases a) auto

lemma merge_cve_descriptive:
  "(c_title c \<noteq> None \<longrightarrow> c_title (merge_cve n c) \<noteq> None) \<and>
   (c_description c \<noteq> None \<longrightarrow> c_description (merge_cve n c) \<noteq> None) \<and>
   (c_published_at c \<noteq> None \<longrightarrow> c_published_at (merge_cve n c) \<noteq> None) \<and>
   (c_last_modified_at c \<noteq> None \<longrightarrow> c_last_modified_at (merge_cve n c) \<noteq> None)"
  by (simp add: merge_cve_def del: not_None_eq)

lemma recompute_descriptive:
  "(\<lambda>c. (c_id c, descriptive c)) ` set (cves (recompute_cve_rollup ids d)) = (\<lambda>c. (c_id c, descriptive c)) ` set (cves d)"
proof -
  have "map (\<lambda>c. (c_id c, descriptive c)) (update_rows p (rolled_up d) (cves d)) = map (\<lambda>c. (c_id c, descriptive c)) (cves d)" for p
    by (rule map_update_rows) (simp add: rolled_up_def descriptive_def)
  then have "map (\<lambda>c. (c_id c, descriptive c)) (cves (recompute_cve_rollup ids d)) = map (\<lambda>c. (c_id c, descriptive c)) (cves d)"
    by (simp add: recompute_cve_rollup_def)
  then have "set (map (\<lambda>c. (c_id c, descriptive c)) (cves (recompute_cve_rollup ids d)))
      = set (map (\<lambda>c. (c_id c, descriptive c)) (cves d))" by (rule arg_cong)
  then show ?thesis by (simp only: set_map)
qed

text \<open>What a success does to the descriptive columns of a CVE: no CVE row disappears, no title,
  description or date that was known is erased, and a row is left as it is unless the report
  fills in a column it lacked.\<close>

theorem descriptions_never_erased:
  assumes "record_success img job report meta d = Inr (d', rid)" and "c \<in> set (cves d)"
    and "unique_on c_id (cves d)"
  shows "\<exists>c' \<in> set (cves d'). c_id c' = c_id c \<and>
    (c_title c \<noteq> None \<longrightarrow> c_title c' \<noteq> None) \<and> (c_description c \<noteq> None \<longrightarrow> c_description c' \<noteq> None) \<and>
    (c_published_at c \<noteq> None \<longrightarrow> c_published_at c' \<noteq> None) \<and>
    (c_last_modified_at c \<noteq> None \<longrightarrow> c_last_modified_at c' \<noteq> None) \<and>
    ((\<forall>n \<in> set (cve_rows report). cr_id n = c_id c \<longrightarrow> \<not> fills_a_gap n c) \<longrightarrow> descriptive c' = descriptive c)"
proof -
  let ?ys = "upsert_rows c_id cr_id make_cve merge_cve 0 (cve_rows report) (cves d)"
  have d': "d' = recompute_cve_rollup (affected_cves img report d) (base_db img job report meta d)"
    using assms(1) by (simp add: record_success_eq)
  have "c_id c \<in> c_id ` set ?ys"
    using assms(2) by (simp add: upsert_keys [OF cve_laws])
  then obtain c1 where c1: "c1 \<in> set ?ys" "c_id c1 = c_id c" by auto
  have one: "c1 = c \<or> (\<exists>n \<in> set (cve_rows report). cr_id n = c_id c \<and> c1 = merge_cve n c)"
  proof -
    have eq: "c0 = c" if "c0 \<in> set (cves d)" "c_id c0 = c_id c" for c0
      using unique_onD [OF assms(3) that(1) assms(2) that(2)] .
    from upsert_cases [OF cve_laws cve_rows_ids(1) c1(1)] show ?thesis
    proof
      assume "c1 \<in> set (cves d) \<and> c_id c1 \<notin> cr_id ` set (cve_rows report)"
      with eq c1(2) show ?thesis by blast
    next
      assume "\<exists>n \<in> set (cve_rows report). c_id c1 = cr_id n \<and>
         ((\<exists>r0 \<in> set (cves d). c_id r0 = cr_id n \<and> c1 = merge_cve n r0) \<or>
          (cr_id n \<notin> c_id ` set (cves d) \<and> (\<exists>j \<ge> 0. j < 0 + int (length (cve_rows report)) \<and> c1 = make_cve j n)))"
      then obtain n where n: "n \<in> set (cve_rows report)" "c_id c1 = cr_id n"
        "(\<exists>r0 \<in> set (cves d). c_id r0 = cr_id n \<and> c1 = merge_cve n r0) \<or> cr_id n \<notin> c_id ` set (cves d)" by blast
      have "cr_id n \<in> c_id ` set (cves d)" using n(2) c1(2) assms(2) by (metis imageI)
      with n(3) obtain r0 where "r0 \<in> set (cves d)" "c_id r0 = cr_id n" "c1 = merge_cve n r0" by blast
      with eq [of r0] n c1(2) show ?thesis by auto
    qed
  qed
  have "(c_id c1, descriptive c1) \<in> (\<lambda>c. (c_id c, descriptive c)) ` set (cves d')"
    unfolding d' recompute_descriptive using c1(1) by (simp add: base_db_def)
  then obtain c' where c': "c' \<in> set (cves d')" "c_id c' = c_id c" "descriptive c' = descriptive c1"
    using c1(2) by auto
  have same: "merge_cve n c = c" if "\<not> fills_a_gap n c" for n using that by (simp add: merge_cve_def)
  from one merge_cve_descriptive [of c] same have
    "(c_title c \<noteq> None \<longrightarrow> c_title c1 \<noteq> None) \<and> (c_description c \<noteq> None \<longrightarrow> c_description c1 \<noteq> None) \<and>
     (c_published_at c \<noteq> None \<longrightarrow> c_published_at c1 \<noteq> None) \<and> (c_last_modified_at c \<noteq> None \<longrightarrow> c_last_modified_at c1 \<noteq> None) \<and>
     ((\<forall>n \<in> set (cve_rows report). cr_id n = c_id c \<longrightarrow> \<not> fills_a_gap n c) \<longrightarrow> c1 = c)"
    by (elim disjE bexE conjE) auto
  with c' show ?thesis by (auto simp: descriptive_def intro!: bexI [of _ c'])
qed

theorem descriptions_never_erased_witness:
  "\<exists>c' \<in> set (cves twice_db). c_id c' = ''A''"
proof -
  obtain c where c: "c \<in> set (cves once_db)" "c_id c = ''A''"
  proof -
    have "''A'' \<in> c_id ` set (cves once_db)" by code_simp
    with that show ?thesis by auto
  qed
  have "unique_on c_id (cves once_db)" by code_simp
  from descriptions_never_erased [OF twice_eq c(1) this] c(2) show ?thesis by auto
qed

section \<open>A stale image object\<close>

text \<open>What the recomputed set of CVEs rests on. It contains the CVEs current according to the
  image object, so an object loaded before another worker's scan of the same image committed
  (the lease expired and the job was run again) leaves the CVEs that scan brought in out of
  it: recording on a consistent database then leaves a CVE counted as affecting an image
  although no finding of it is current any more.\<close>

theorem stale_image_strands_rollup:
  "\<exists>d'. record_success img1 None report2 (meta_at 50) once_db = Inr (d', 2) \<and> consistent once_db \<and>
     \<not> rollups_ok d' \<and>
     (\<exists>c \<in> set (cves d'). c_id c = ''A'' \<and> c_affected_image_count c = 1 \<and> findings_of_cve d' ''A'' = [])"
proof -
  note con = once_consistent
  have run: "case record_success img1 None report2 (meta_at 50) once_db of
      Inr (d', rid) \<Rightarrow> rid = 2 \<and> findings_of_cve d' ''A'' = [] \<and> list_ex (\<lambda>c. c_id c = ''A'' \<and> c_affected_image_count c = 1) (cves d')
    | Inl _ \<Rightarrow> False"
    by code_simp
  then obtain d' where d': "record_success img1 None report2 (meta_at 50) once_db = Inr (d', 2)"
    "findings_of_cve d' ''A'' = []" "\<exists>c \<in> set (cves d'). c_id c = ''A'' \<and> c_affected_image_count c = 1"
    by (auto simp: list_ex_iff split: sum.splits)
  then obtain c where c: "c \<in> set (cves d')" "c_id c = ''A''" "c_affected_image_count c = 1" by blast
  with d'(2) have "\<not> rollup_ok_for d' c"
    by (simp add: rollup_ok_for_def current_image_count_def)
  with c(1) have "\<not> rollups_ok d'" by (auto simp: rollups_ok_def)
  with d' con show ?thesis by auto
qed

section \<open>Two workers at once\<close>

text \<open>Elsewhere the transactions of two workers come one after the other. The sessions run at
  PostgreSQL's READ COMMITTED, where each statement reads the rows committed when it began and
  those of its own transaction (\<open>snap\<close>), while an UPDATE that waited for a row another transaction
  had changed tests and writes that newer row (in \<open>d\<close>). This is the rollup statement on both.\<close>

definition recompute_cve_rollup_at :: "db \<Rightarrow> string list \<Rightarrow> db \<Rightarrow> db" where
  "recompute_cve_rollup_at snap cve_ids d =
     (if cve_ids = [] then d
      else d\<lparr>cves := update_rows (\<lambda>c. c_id c \<in> set cve_ids \<and>
            list_ex (\<lambda>old. c_id old = c_id c \<and> rollup_differs snap old) (cves snap) \<and> rollup_differs snap c)
          (rolled_up snap) (cves d)\<rparr>)"

text \<open>Alone on the database the statement is the one of the serial model.\<close>

lemma recompute_alone: "recompute_cve_rollup_at d ids d = recompute_cve_rollup ids d"
proof -
  have "update_rows (\<lambda>c. c_id c \<in> set ids \<and>
        list_ex (\<lambda>old. c_id old = c_id c \<and> rollup_differs d old) (cves d) \<and> rollup_differs d c) (rolled_up d) (cves d)
      = update_rows (\<lambda>c. c_id c \<in> set ids \<and> rollup_differs d c) (rolled_up d) (cves d)"
    unfolding update_rows_def by (rule map_cong [OF refl]) (auto simp: list_ex_iff)
  then show ?thesis by (simp add: recompute_cve_rollup_at_def recompute_cve_rollup_def)
qed

text \<open>Two workers that record scans of two images at the same time: each writes its rows, the first
  recomputes and commits, and the second, whose rollup began before that commit, recomputes on a
  snapshot without the writes of the first (which only have taken a run id from the sequence).\<close>

definition concurrent_successes :: "image \<Rightarrow> parsed_report \<Rightarrow> image \<Rightarrow> parsed_report \<Rightarrow> run_metadata \<Rightarrow> db \<Rightarrow> db" where
  "concurrent_successes imgA reportA imgB reportB meta d =
     (let dA = recompute_cve_rollup (affected_cves imgA reportA d) (base_db imgA None reportA meta d);
          snapB = base_db imgB None reportB meta (d\<lparr>next_run_id := next_run_id d + 1\<rparr>)
      in recompute_cve_rollup_at snapB (affected_cves imgB reportB d) (base_db imgB None reportB meta dA))"

definition shared_db :: db where
  "shared_db = (case record_success img1 None (report_of [finding_on ''A'' HIGH]) (meta_at 5) fresh_db of
     Inl _ \<Rightarrow> fresh_db
   | Inr (d, _) \<Rightarrow>
       (case record_success (img1\<lparr>i_id := 2, i_tag := ''2''\<rparr>) None (report_of [finding_on ''A'' HIGH]) (meta_at 5) d of
          Inl _ \<Rightarrow> fresh_db
        | Inr (d', _) \<Rightarrow> d'))"

text \<open>When two images are the last to have a CVE and both lose it at the same time, each of the two
  rollups still sees the finding of the other: the CVE stays counted as affecting an image,
  although no finding of it is current. One after the other, the same two recordings get it right.\<close>

theorem concurrent_rollups_strand:
  "(let imgs = images shared_db; d' = concurrent_successes (imgs ! 0) (report_of []) (imgs ! 1) (report_of []) (meta_at 50) shared_db
    in map (\<lambda>c. (c_id c, c_affected_image_count c)) (cves shared_db) = [(''A'', 2)] \<and>
       map (\<lambda>c. (c_id c, c_affected_image_count c, c_max_severity c)) (cves d') = [(''A'', 1, HIGH)] \<and>
       findings_of_cve d' ''A'' = [] \<and>
       (case record_success (imgs ! 0) None (report_of []) (meta_at 50) shared_db of
          Inl _ \<Rightarrow> False
        | Inr (d1, _) \<Rightarrow>
            (case record_success (imgs ! 1) None (report_of []) (meta_at 50) d1 of
               Inl _ \<Rightarrow> False
             | Inr (d2, _) \<Rightarrow> map (\<lambda>c. (c_id c, c_affected_image_count c)) (cves d2) = [(''A'', 0)])))"
  by code_simp

end
