(* ===== verification/Scheduler.thy ===== *)
theory Scheduler
  imports Persist_Specs Config
begin

text \<open>
  The scheduler (src/app/scheduler/scheduler.py): when an image is due, the reaping of dead
  workers' jobs with their bookkeeping, one scheduling pass, and the pass of the main loop
  around the advisory lock. \<open>clock\<close> gives the successive readings of the process clock.
\<close>

type_synonym clock = "nat \<Rightarrow> time"

section \<open>When an image is due\<close>

definition next_due_at :: "image \<Rightarrow> int \<Rightarrow> int \<Rightarrow> time" where
  "next_due_at img default_interval max_failure_backoff =
     (let interval = int_or (i_scan_interval_seconds img) default_interval
      in case i_last_scan_at img of
           None \<Rightarrow> i_created_at img
         | Some last_scan \<Rightarrow>
             (let failures = i_consecutive_failures img;
                  interval = (if failures \<noteq> 0 then min (interval * 2 ^ nat failures) max_failure_backoff
                              else interval)
              in last_scan + seconds interval))"

definition due_candidate :: "db \<Rightarrow> image \<Rightarrow> bool" where
  "due_candidate d img \<longleftrightarrow> i_enabled img \<and> i_id img \<notin> j_image_id ` set (filter active (scan_jobs d))"

definition due_images :: "settings \<Rightarrow> time \<Rightarrow> db \<Rightarrow> image list" where
  "due_images s now d =
     filter (\<lambda>img. next_due_at img (default_scan_interval_seconds s) (max_failure_backoff_seconds s) \<le> now)
       (filter (due_candidate d) (images d))"

section \<open>Reaped jobs\<close>

definition empty_metadata :: "time \<Rightarrow> time \<Rightarrow> run_metadata" where
  "empty_metadata started completed =
     \<lparr>m_digest = None, m_trivy_version = None, m_trivy_db_version = None, m_scan_flags_hash = None,
      m_started_at = started, m_completed_at = completed\<rparr>"

fun record_reaped :: "clock \<Rightarrow> reaped_job list \<Rightarrow> db \<Rightarrow> sql_error + db" where
  "record_reaped clock [] d = Inr d"
| "record_reaped clock (entry # entries) d =
     (case find_row i_id (rj_image_id entry) (images d) of
        None \<Rightarrow> record_reaped clock entries d
      | Some img \<Rightarrow>
          (case record_failure img (find_row j_id (rj_job_id entry) (scan_jobs d))
                  (empty_metadata (clock 0) (clock 0)) LEASE_EXPIRED_ERROR (rj_exhausted entry) d of
             Inl e \<Rightarrow> Inl e
           | Inr (d', _) \<Rightarrow> record_reaped (\<lambda>n. clock (Suc n)) entries d'))"

section \<open>A scheduling pass\<close>

text \<open>The loop over the due images; the count of those that were enqueued.\<close>

fun enqueue_due :: "clock \<Rightarrow> time \<Rightarrow> image list \<Rightarrow> db \<Rightarrow> sql_error + (db \<times> nat)" where
  "enqueue_due clock txn_ts [] d = Inr (d, 0)"
| "enqueue_due clock txn_ts (img # imgs) d =
     (case enqueue (i_id img) PRIORITY_SCHEDULED None (clock 0) txn_ts d of
        Inl e \<Rightarrow> Inl e
      | Inr (d', b) \<Rightarrow>
          (case enqueue_due (\<lambda>n. clock (Suc n)) txn_ts imgs d' of
             Inl e \<Rightarrow> Inl e
           | Inr (d'', n) \<Rightarrow> Inr (d'', if b then Suc n else n)))"

definition tick :: "settings \<Rightarrow> time \<Rightarrow> clock \<Rightarrow> time \<Rightarrow> clock \<Rightarrow> time \<Rightarrow> db \<Rightarrow> sql_error + (db \<times> nat)" where
  "tick s stmt_ts reap_clock now enqueue_clock txn_ts d =
     (let (d1, reaped) = reap_expired_leases (max_attempts s) stmt_ts d
      in case record_reaped reap_clock reaped d1 of
           Inl e \<Rightarrow> Inl e
         | Inr d2 \<Rightarrow> enqueue_due enqueue_clock txn_ts (due_images s now d2) d2)"

section \<open>The main loop\<close>

text \<open>One round: take the lock unless it is held, tick when it is; an error is rolled back and the
  round forgets that it held the lock. What the world brings to a round is a
  \<open>scheduler_world\<close>: the connection the pool hands out, the clocks, whether the database fails
  the statement that takes the lock or one of the tick, whether a signal arrives before the
  sleep is over, and what other sessions do to the lock and the tables meanwhile.\<close>

record scheduler_state =
  holds_lock :: bool
  lock :: advisory_lock
  store :: db

record scheduler_world =
  sw_conn :: int
  sw_lock_fault :: bool
  sw_tick_fault :: bool
  sw_stmt :: time
  sw_reap_clock :: clock
  sw_now :: time
  sw_enqueue_clock :: clock
  sw_txn :: time
  sw_signal :: bool
  sw_others :: "advisory_lock \<times> db \<Rightarrow> advisory_lock \<times> db"

text \<open>The tick of a round, None when it raises; whatever it wrote is rolled back.\<close>

definition guarded_tick :: "settings \<Rightarrow> scheduler_world \<Rightarrow> db \<Rightarrow> db option" where
  "guarded_tick s w d =
     (if sw_tick_fault w then None
      else case tick s (sw_stmt w) (sw_reap_clock w) (sw_now w) (sw_enqueue_clock w) (sw_txn w) d of
             Inl _ \<Rightarrow> None
           | Inr (d', _) \<Rightarrow> Some d')"

definition scheduler_round :: "settings \<Rightarrow> scheduler_world \<Rightarrow> scheduler_state \<Rightarrow> scheduler_state" where
  "scheduler_round s w st =
     (if \<not> holds_lock st \<and> sw_lock_fault w then st\<lparr>holds_lock := False\<rparr>
      else
        (let (l, held) = (if holds_lock st then (lock st, True) else try_scheduler_lock (sw_conn w) (lock st))
         in if held then
              (case guarded_tick s w (store st) of
                 None \<Rightarrow> st\<lparr>lock := l, holds_lock := False\<rparr>
               | Some d' \<Rightarrow> st\<lparr>lock := l, holds_lock := True, store := d'\<rparr>)
            else st\<lparr>lock := l, holds_lock := False\<rparr>))"

definition others :: "scheduler_world \<Rightarrow> scheduler_state \<Rightarrow> scheduler_state" where
  "others w st = (let (l, d) = sw_others w (lock st, store st) in st\<lparr>lock := l, store := d\<rparr>)"

text \<open>The loop over the rounds the world offers. The flag \<open>requested\<close> is \<open>_Shutdown.requested\<close>: it is
  read before a round only, and a signal sets it while the round or its sleep goes on. The result
  says whether the loop has ended.\<close>

fun scheduler_loop :: "settings \<Rightarrow> bool \<Rightarrow> scheduler_world list \<Rightarrow> scheduler_state \<Rightarrow> bool \<times> scheduler_state" where
  "scheduler_loop s requested [] st = (requested, st)"
| "scheduler_loop s requested (w # ws) st =
     (if requested then (True, st)
      else scheduler_loop s (sw_signal w) ws (others w (scheduler_round s w st)))"

text \<open>The process: the loop, and once it has ended the lock is given back if it is held.
  \<open>requested\<close> says whether a signal came before the loop began, \<open>conn\<close> is the connection of the
  last statement.\<close>

definition scheduler_main ::
    "settings \<Rightarrow> bool \<Rightarrow> int \<Rightarrow> scheduler_world list \<Rightarrow> advisory_lock \<times> db \<Rightarrow> bool \<times> scheduler_state" where
  "scheduler_main s requested conn ws world =
     (let (ended, st) = scheduler_loop s requested ws \<lparr>holds_lock = False, lock = fst world, store = snd world\<rparr>
      in if ended \<and> holds_lock st then (True, st\<lparr>lock := release_scheduler_lock conn (lock st)\<rparr>)
         else (ended, st))"

section \<open>Lemmas\<close>

lemma record_failure_ok:
  assumes "i_id img \<in> i_id ` set (images d)" "run_fits meta"
  shows "\<exists>d'. record_failure img job meta error exhausted d = Inr (d', next_run_id d) \<and>
    scan_jobs d' = scan_jobs d \<and> next_job_id d' = next_job_id d \<and>
    scan_runs d' = scan_runs d @ [new_run img job RUN_FAILED meta (Some (take 4000 error)) (next_run_id d)] \<and>
    images d' = update_rows (\<lambda>i. i_id i = i_id img) (merge_image img (failed_image meta exhausted img)) (images d)"
  using assms
  by (simp add: record_failure_def insert_run_def Let_def save_image_eq new_run_def)

lemma empty_metadata_fits [simp]: "run_fits (empty_metadata a b)"
  by (simp add: run_fits_def empty_metadata_def)

text \<open>Recording the reaped jobs succeeds, keeps the database consistent and the queue as it is,
  and writes one failed run per entry.\<close>

lemma record_reaped_ok:
  assumes "consistent d" "\<forall>e \<in> set es. rj_image_id e \<in> i_id ` set (images d)"
  shows "\<exists>d'. record_reaped clock es d = Inr d' \<and> consistent d' \<and> scan_jobs d' = scan_jobs d \<and>
    next_job_id d' = next_job_id d \<and> i_id ` set (images d') = i_id ` set (images d) \<and> image_view d' = image_view d \<and>
    (\<exists>rs. scan_runs d' = scan_runs d @ rs \<and>
      map (\<lambda>r. (r_image_id r, r_status r, r_error r)) rs = map (\<lambda>e. (rj_image_id e, RUN_FAILED, Some LEASE_EXPIRED_ERROR)) es)"
  using assms
proof (induction es arbitrary: clock d)
  case Nil
  then show ?case by simp
next
  case (Cons e es)
  have "rj_image_id e \<in> i_id ` set (images d)" using Cons.prems(2) by simp
  then have "find_row i_id (rj_image_id e) (images d) \<noteq> None"
    by (simp only: find_row_None_iff not_not simp_thms)
  then obtain img where img: "find_row i_id (rj_image_id e) (images d) = Some img" by blast
  then have id: "i_id img = rj_image_id e" using find_row_SomeD by metis
  let ?meta = "empty_metadata (clock 0) (clock 0)" and ?job = "find_row j_id (rj_job_id e) (scan_jobs d)"
  obtain d1 where d1: "record_failure img ?job ?meta LEASE_EXPIRED_ERROR (rj_exhausted e) d = Inr (d1, next_run_id d)"
    "scan_jobs d1 = scan_jobs d" "next_job_id d1 = next_job_id d"
    "scan_runs d1 = scan_runs d @ [new_run img ?job RUN_FAILED ?meta (Some (take 4000 LEASE_EXPIRED_ERROR)) (next_run_id d)]"
    "images d1 = update_rows (\<lambda>i. i_id i = i_id img) (merge_image img (failed_image ?meta (rj_exhausted e) img)) (images d)"
    using record_failure_ok [of img d ?meta ?job LEASE_EXPIRED_ERROR "rj_exhausted e"] Cons.prems(2) id by auto
  have ids: "i_id ` set (images d1) = i_id ` set (images d)"
  proof -
    have "map i_id (images d1) = map i_id (images d)"
      unfolding d1(5) by (rule map_update_rows) (simp add: merge_image_def)
    then have "set (map i_id (images d1)) = set (map i_id (images d))" by (rule arg_cong)
    then show ?thesis by (simp only: set_map)
  qed
  have con: "consistent d1" by (rule failure.keeps_consistent [OF Cons.prems(1) d1(1)])
  have view: "image_view d1 = image_view d" using failure.same_view [OF d1(1)] by auto
  obtain d' rs where d': "record_reaped (\<lambda>n. clock (Suc n)) es d1 = Inr d'" "consistent d'" "scan_jobs d' = scan_jobs d1"
    "next_job_id d' = next_job_id d1" "i_id ` set (images d') = i_id ` set (images d1)" "image_view d' = image_view d1"
    "scan_runs d' = scan_runs d1 @ rs"
    "map (\<lambda>r. (r_image_id r, r_status r, r_error r)) rs = map (\<lambda>e. (rj_image_id e, RUN_FAILED, Some LEASE_EXPIRED_ERROR)) es"
    using Cons.IH [OF con, of "\<lambda>n. clock (Suc n)"] Cons.prems(2) ids by auto
  have msg: "take 4000 LEASE_EXPIRED_ERROR = LEASE_EXPIRED_ERROR" by (simp add: LEASE_EXPIRED_ERROR_def)
  show ?case
    using d' d1 ids view img id msg by (auto simp: new_run_def)
qed

text \<open>Enqueueing a list of distinct images without active job succeeds and adds exactly one
  pending job for each.\<close>

lemma has_active_image: "has_active_job d k \<longleftrightarrow> k \<in> j_image_id ` set (filter active (scan_jobs d))"
  by (auto simp: has_active_job_iff)

lemma enqueue_absent:
  assumes "\<not> has_active_job d k" "k \<in> i_id ` set (images d)"
  shows "\<exists>d' row. enqueue k p sf now ts d = Inr (d', True) \<and> scan_jobs d' = scan_jobs d @ [row] \<and>
    j_image_id row = k \<and> j_status row = PENDING \<and> j_priority row = p \<and> images d' = images d \<and>
    d' = enqueue_step k p sf now ts d"
  using assms by (simp add: enqueue_def build_enqueue_statement_def Let_def)

lemma enqueue_due_ok:
  assumes "consistent d" "distinct (map i_id imgs)"
    and "\<forall>i \<in> set imgs. i_id i \<in> i_id ` set (images d) \<and> \<not> has_active_job d (i_id i)"
  shows "\<exists>d' rows. enqueue_due clock ts imgs d = Inr (d', length imgs) \<and> consistent d' \<and> images d' = images d \<and>
    image_view d' = image_view d \<and> scan_runs d' = scan_runs d \<and>
    scan_jobs d' = scan_jobs d @ rows \<and> map j_image_id rows = map i_id imgs \<and>
    (\<forall>j \<in> set rows. j_status j = PENDING \<and> j_priority j = PRIORITY_SCHEDULED)"
  using assms
proof (induction imgs arbitrary: clock d)
  case Nil
  then show ?case by simp
next
  case (Cons i imgs)
  from enqueue_absent [of d "i_id i" PRIORITY_SCHEDULED None "clock 0" ts] Cons.prems(3)
  obtain d1 row where d1: "enqueue (i_id i) PRIORITY_SCHEDULED None (clock 0) ts d = Inr (d1, True)"
    "scan_jobs d1 = scan_jobs d @ [row]" "j_image_id row = i_id i" "j_status row = PENDING"
    "j_priority row = PRIORITY_SCHEDULED" "images d1 = images d"
    "d1 = enqueue_step (i_id i) PRIORITY_SCHEDULED None (clock 0) ts d" by auto
  have con: "consistent d1" unfolding d1(7) by (rule enq.keeps_consistent [OF Cons.prems(1)])
  have "image_view d1 = image_view d" "scan_runs d1 = scan_runs d"
    unfolding d1(7)
    using enq.same_tables [where k = "i_id i" and p = PRIORITY_SCHEDULED and sf = None and now = "clock 0" and ts = ts and d = d]
      enq.same_current [where k = "i_id i" and p = PRIORITY_SCHEDULED and sf = None and now = "clock 0" and ts = ts and d = d]
    by (simp_all add: image_view_def [abs_def] view_entry_of_def [abs_def] package_of_def)
  moreover have "\<forall>k \<in> set imgs. i_id k \<in> i_id ` set (images d1) \<and> \<not> has_active_job d1 (i_id k)"
    using Cons.prems(2,3) d1(2,3,6) by (auto simp: has_active_job_iff)
  ultimately show ?case
    using Cons.IH [OF con, of "\<lambda>n. clock (Suc n)"] Cons.prems(2) d1 by fastforce
qed

end
