(* ===== verification/Scheduler_Props.thy ===== *)
theory Scheduler_Props
  imports Scheduler Queue_Props
begin

text \<open>
  The properties of the scheduler: what one pass leaves behind, when an image is due, and the
  single-scheduler guarantee of the main loop.
\<close>

section \<open>One pass\<close>

lemma reap_no_expired: "j \<in> set (scan_jobs (fst (reap_expired_leases m ts d))) \<Longrightarrow> \<not> expired ts j"
  by (auto simp: reap_expired_leases_def elim!: update_rows_memE simp: exit_reap.not_expired split: if_splits)

lemma reap_reported:
  "snd (reap_expired_leases m ts d) = map (\<lambda>j. \<lparr>rj_job_id = j_id j, rj_image_id = j_image_id j,
     rj_exhausted = (j_status (reap_job m j) = FAILED)\<rparr>) (filter (expired ts) (scan_jobs d))"
  by (simp add: reap_expired_leases_def)

lemma due_images_facts:
  assumes "consistent d"
  shows "distinct (map i_id (due_images s now d))"
    "\<forall>i \<in> set (due_images s now d). i_id i \<in> i_id ` set (images d) \<and> \<not> has_active_job d (i_id i)"
  using keys_okD(1) [OF consistentD(1) [OF assms]]
  by (auto simp: due_images_def due_candidate_def has_active_image distinct_map_filter)

lemma due_images_set:
  "set (due_images s now d) = {i \<in> set (images d). i_enabled i \<and>
     next_due_at i (default_scan_interval_seconds s) (max_failure_backoff_seconds s) \<le> now \<and>
     \<not> has_active_job d (i_id i)}"
  by (auto simp: due_images_def due_candidate_def has_active_image)

text \<open>The pass step by step: the reap, the runs it records, and the jobs for the images then due.\<close>

lemma tick_pass:
  assumes "consistent d" and reap: "reap_expired_leases (max_attempts s) stmt_ts d = (d1, reaped)"
  shows "\<exists>d2 d3 rs rows. tick s stmt_ts rc now ec txn_ts d = Inr (d3, length rows) \<and>
    consistent d3 \<and> image_view d3 = image_view d \<and> scan_runs d3 = scan_runs d @ rs \<and>
    map (\<lambda>r. (r_image_id r, r_status r, r_error r)) rs
      = map (\<lambda>j. (j_image_id j, RUN_FAILED, Some LEASE_EXPIRED_ERROR)) (filter (expired stmt_ts) (scan_jobs d)) \<and>
    scan_jobs d2 = scan_jobs d1 \<and> images d3 = images d2 \<and> scan_jobs d3 = scan_jobs d1 @ rows \<and>
    map j_image_id rows = map i_id (due_images s now d2) \<and> distinct (map i_id (due_images s now d2)) \<and>
    (\<forall>j \<in> set rows. j_status j = PENDING \<and> j_priority j = PRIORITY_SCHEDULED)"
proof -
  have d1: "consistent d1" "images d1 = images d" "image_view d1 = image_view d" "scan_runs d1 = scan_runs d"
    using reap.keeps_consistent [OF assms(1), of "max_attempts s" stmt_ts] reap.same_current [of "max_attempts s" stmt_ts d]
      reap.same_tables [of "max_attempts s" stmt_ts d]
    by (simp_all add: reap image_view_def [abs_def] view_entry_of_def [abs_def] package_of_def)
  have es: "reaped = map (\<lambda>j. \<lparr>rj_job_id = j_id j, rj_image_id = j_image_id j,
     rj_exhausted = (j_status (reap_job (max_attempts s) j) = FAILED)\<rparr>) (filter (expired stmt_ts) (scan_jobs d))"
    using reap_reported [of "max_attempts s" stmt_ts d] by (simp add: reap)
  have "\<forall>e \<in> set reaped. rj_image_id e \<in> i_id ` set (images d1)"
    using consistentD(4) [OF assms(1)] by (auto simp: es d1 references_ok_def)
  from record_reaped_ok [OF d1(1) this, of rc] obtain d2 rs where
    d2: "record_reaped rc reaped d1 = Inr d2" "consistent d2" "scan_jobs d2 = scan_jobs d1"
    "image_view d2 = image_view d1" "scan_runs d2 = scan_runs d1 @ rs"
    "map (\<lambda>r. (r_image_id r, r_status r, r_error r)) rs
      = map (\<lambda>e. (rj_image_id e, RUN_FAILED, Some LEASE_EXPIRED_ERROR)) reaped" by blast
  note due = due_images_facts [OF d2(2), of s now]
  from enqueue_due_ok [OF d2(2) due, of ec txn_ts] obtain d3 rows where
    d3: "enqueue_due ec txn_ts (due_images s now d2) d2 = Inr (d3, length (due_images s now d2))" "consistent d3"
    "images d3 = images d2" "image_view d3 = image_view d2" "scan_runs d3 = scan_runs d2"
    "scan_jobs d3 = scan_jobs d2 @ rows" "map j_image_id rows = map i_id (due_images s now d2)"
    "\<forall>j \<in> set rows. j_status j = PENDING \<and> j_priority j = PRIORITY_SCHEDULED" by blast
  have "length rows = length (due_images s now d2)" using arg_cong [OF d3(7), of length] by simp
  then have "tick s stmt_ts rc now ec txn_ts d = Inr (d3, length rows)"
    by (simp add: tick_def reap d2(1) d3(1))
  moreover have "map (\<lambda>r. (r_image_id r, r_status r, r_error r)) rs
      = map (\<lambda>j. (j_image_id j, RUN_FAILED, Some LEASE_EXPIRED_ERROR)) (filter (expired stmt_ts) (scan_jobs d))"
    by (simp add: d2(6) es comp_def)
  moreover have "image_view d3 = image_view d" "scan_runs d3 = scan_runs d @ rs" "scan_jobs d3 = scan_jobs d1 @ rows"
    by (simp_all only: d1 d2 d3)
  ultimately show ?thesis
    using d2(3) d3(2,3,7,8) due(1) by (intro exI conjI)
qed

lemma tick_goes_through:
  assumes "consistent d"
  obtains d' n where "tick s stmt_ts rc now ec txn_ts d = Inr (d', n)" "consistent d'" "image_view d' = image_view d"
proof -
  obtain d1 reaped where reap: "reap_expired_leases (max_attempts s) stmt_ts d = (d1, reaped)"
    by (cases "reap_expired_leases (max_attempts s) stmt_ts d")
  from tick_pass [OF assms reap, of rc now ec txn_ts] show ?thesis
    by (elim exE conjE) (rule that; assumption)
qed

text \<open>C11. One pass of the scheduler on a consistent database always goes through, and afterwards: the
  database is consistent and no finding changed its currency; no running job has an expired
  lease; one failed run was appended for every job that had one, in order; every enabled
  image that is due has an active job; and the jobs added, as many as the count returned, are
  one each for the enabled images that are due and had no active job after the reap, pending
  in the ordinary lane.\<close>

theorem tick_reaps_and_enqueues:
  assumes "consistent d"
  shows "\<exists>d' n. tick s stmt_ts rc now ec txn_ts d = Inr (d', n) \<and> consistent d' \<and> image_view d' = image_view d \<and>
    (\<forall>j \<in> set (scan_jobs d'). \<not> expired stmt_ts j) \<and>
    (\<exists>rs. scan_runs d' = scan_runs d @ rs \<and>
       map (\<lambda>r. (r_image_id r, r_status r, r_error r)) rs
         = map (\<lambda>j. (j_image_id j, RUN_FAILED, Some LEASE_EXPIRED_ERROR)) (filter (expired stmt_ts) (scan_jobs d))) \<and>
    (\<forall>i \<in> set (images d'). i_enabled i \<and>
       next_due_at i (default_scan_interval_seconds s) (max_failure_backoff_seconds s) \<le> now \<longrightarrow> has_active_job d' (i_id i)) \<and>
    (\<exists>rows. length rows = n \<and> scan_jobs d' = scan_jobs (fst (reap_expired_leases (max_attempts s) stmt_ts d)) @ rows \<and>
       distinct (map j_image_id rows) \<and>
       j_image_id ` set rows = i_id ` {i \<in> set (images d'). i_enabled i \<and>
         next_due_at i (default_scan_interval_seconds s) (max_failure_backoff_seconds s) \<le> now \<and>
         \<not> has_active_job (fst (reap_expired_leases (max_attempts s) stmt_ts d)) (i_id i)} \<and>
       (\<forall>j \<in> set rows. j_status j = PENDING \<and> j_priority j = PRIORITY_SCHEDULED))"
proof -
  obtain d1 reaped where reap: "reap_expired_leases (max_attempts s) stmt_ts d = (d1, reaped)"
    by (cases "reap_expired_leases (max_attempts s) stmt_ts d")
  from tick_pass [OF assms reap, of rc now ec txn_ts] obtain d2 d3 rs rows where
    pass: "tick s stmt_ts rc now ec txn_ts d = Inr (d3, length rows)"
    "consistent d3" "image_view d3 = image_view d" "scan_runs d3 = scan_runs d @ rs"
    "map (\<lambda>r. (r_image_id r, r_status r, r_error r)) rs
      = map (\<lambda>j. (j_image_id j, RUN_FAILED, Some LEASE_EXPIRED_ERROR)) (filter (expired stmt_ts) (scan_jobs d))"
    and jobs: "scan_jobs d2 = scan_jobs d1" "images d3 = images d2" "scan_jobs d3 = scan_jobs d1 @ rows"
    "map j_image_id rows = map i_id (due_images s now d2)" "distinct (map i_id (due_images s now d2))"
    "\<forall>j \<in> set rows. j_status j = PENDING \<and> j_priority j = PRIORITY_SCHEDULED"
    by (elim exE conjE) (rule that; assumption)
  have none: "\<forall>j \<in> set (scan_jobs d3). \<not> expired stmt_ts j"
    using reap_no_expired [of _ "max_attempts s" stmt_ts d] jobs(3,6)
    by (auto simp: reap) (auto simp: expired_def)
  have "set (map j_image_id rows) = set (map i_id (due_images s now d2))" unfolding jobs(4) by (rule refl)
  then have which: "j_image_id ` set rows = i_id ` {i \<in> set (images d3). i_enabled i \<and>
      next_due_at i (default_scan_interval_seconds s) (max_failure_backoff_seconds s) \<le> now \<and>
      \<not> has_active_job d1 (i_id i)}"
    unfolding set_map due_images_set jobs(2) has_active_image jobs(1) .
  have active: "has_active_job d3 (i_id i)"
    if i: "i \<in> set (images d3)" "i_enabled i"
      "next_due_at i (default_scan_interval_seconds s) (max_failure_backoff_seconds s) \<le> now" for i
  proof (cases "has_active_job d1 (i_id i)")
    case True
    then show ?thesis using jobs(3) by (auto simp: has_active_job_iff)
  next
    case False
    then have "i_id i \<in> j_image_id ` set rows" unfolding which using i by blast
    then show ?thesis using jobs(3,6) by (auto simp: has_active_job_iff active_def)
  qed
  have once: "distinct (map j_image_id rows)" unfolding jobs(4) by (rule jobs(5))
  show ?thesis
    unfolding reap fst_conv
    by (intro exI conjI ballI impI; (rule pass none [THEN bspec] which once jobs(3,6) jobs(6) [THEN bspec, THEN conjunct1]
        jobs(6) [THEN bspec, THEN conjunct2] refl | (elim conjE, rule active)); assumption?)
qed

lemma sample_consistent: "consistent sample_db"
  by (simp add: consistent_def db_parts counts_ok_def rollups_ok_def sample_defs image_key_def active_def)

theorem tick_reaps_and_enqueues_witness:
  "\<exists>d' n. tick default_settings 5 (\<lambda>_. 5) 5 (\<lambda>_. 5) 5 sample_db = Inr (d', n) \<and> consistent d' \<and>
     has_active_job d' 1 \<and> has_active_job d' 2"
proof -
  from tick_reaps_and_enqueues [OF sample_consistent, of default_settings 5 "\<lambda>_. 5" 5 "\<lambda>_. 5" 5]
  obtain d' n rows where t: "tick default_settings 5 (\<lambda>_. 5) 5 (\<lambda>_. 5) 5 sample_db = Inr (d', n)" "consistent d'"
    "scan_jobs d' = scan_jobs (fst (reap_expired_leases (max_attempts default_settings) 5 sample_db)) @ rows"
    by (elim exE conjE) (rule that; assumption)
  moreover have "list_ex (\<lambda>j. active j \<and> j_image_id j = 1) (scan_jobs (fst (reap_expired_leases (max_attempts default_settings) 5 sample_db)))"
    "list_ex (\<lambda>j. active j \<and> j_image_id j = 2) (scan_jobs (fst (reap_expired_leases (max_attempts default_settings) 5 sample_db)))"
    by code_simp+
  ultimately show ?thesis by (auto simp: has_active_job_def)
qed

section \<open>When an image is due\<close>

lemma due_never_scanned: "i_last_scan_at i = None \<Longrightarrow> next_due_at i dflt cap = i_created_at i"
  by (simp add: next_due_at_def Let_def)

text \<open>C34. When an image that has been scanned is due. Without a failure streak, an interval after its
  last scan. With one, the interval doubled once for each failure, cut at the backoff ceiling.
  As long as the interval does not exceed the ceiling, a streak therefore only postpones the
  scan: the wait never falls below the interval, never shrinks from one failure to the next and
  never exceeds the ceiling. An interval longer than the ceiling is cut down to it by the first
  failure, so that such an image is scanned sooner while it fails.\<close>

theorem failure_backoff_bounds:
  assumes "i_last_scan_at i = Some t" and "interval = int_or (i_scan_interval_seconds i) dflt"
    and "0 < interval" and "0 \<le> i_consecutive_failures i"
  shows "next_due_at (i\<lparr>i_consecutive_failures := 0\<rparr>) dflt cap = t + seconds interval \<and>
    (0 < i_consecutive_failures i \<longrightarrow>
      next_due_at i dflt cap = t + seconds (min (interval * 2 ^ nat (i_consecutive_failures i)) cap)) \<and>
    (interval \<le> cap \<longrightarrow>
      t + seconds interval \<le> next_due_at i dflt cap \<and> next_due_at i dflt cap \<le> t + seconds cap \<and>
      next_due_at i dflt cap \<le> next_due_at (i\<lparr>i_consecutive_failures := i_consecutive_failures i + 1\<rparr>) dflt cap) \<and>
    (cap < interval \<and> 0 < i_consecutive_failures i \<longrightarrow>
      next_due_at i dflt cap = t + seconds cap \<and> next_due_at i dflt cap < t + seconds interval)"
proof -
  define k where "k = nat (i_consecutive_failures i)"
  have k: "i_consecutive_failures i = int k" using assms(4) by (simp add: k_def)
  have due: "next_due_at (i\<lparr>i_consecutive_failures := int m\<rparr>) dflt cap
      = t + seconds (if m = 0 then interval else min (interval * 2 ^ m) cap)" for m
    using assms by (cases "m = 0") (simp_all add: next_due_at_def Let_def min_def)
  have mono: "interval * 2 ^ k \<le> interval * 2 ^ Suc k" "interval \<le> interval * 2 ^ k"
    using assms(3) by simp_all
  have self: "next_due_at i dflt cap = t + seconds (if k = 0 then interval else min (interval * 2 ^ k) cap)"
    using due [of k] k by (metis (no_types, lifting) image.surjective image.update_convs(7))
  have up: "next_due_at (i\<lparr>i_consecutive_failures := i_consecutive_failures i + 1\<rparr>) dflt cap
      = t + seconds (min (interval * 2 ^ Suc k) cap)"
    using due [of "Suc k"] by (simp add: k algebra_simps)
  have "min (interval * 2 ^ k) cap \<le> min (interval * 2 ^ Suc k) cap" using mono(1) by linarith
  moreover have "interval \<le> min (interval * 2 ^ k) cap" if "interval \<le> cap" using mono(2) that by simp
  moreover have "min (interval * 2 ^ k) cap = cap" if "cap < interval" using mono(2) that by simp
  moreover have "next_due_at (i\<lparr>i_consecutive_failures := 0\<rparr>) dflt cap = t + seconds interval"
    using due [of 0] by simp
  ultimately show ?thesis
    using up unfolding self k by (auto simp del: power_Suc)
qed

theorem failure_backoff_bounds_witness:
  "next_due_at (sample_image\<lparr>i_last_scan_at := Some 0, i_consecutive_failures := 3\<rparr>) 900 86400 = seconds 7200 \<and>
   next_due_at (sample_image\<lparr>i_last_scan_at := Some 0, i_consecutive_failures := 3\<rparr>) 900 600 = seconds 600"
  using failure_backoff_bounds [of "sample_image\<lparr>i_last_scan_at := Some 0, i_consecutive_failures := 3\<rparr>" 0 900 900 86400]
    failure_backoff_bounds [of "sample_image\<lparr>i_last_scan_at := Some 0, i_consecutive_failures := 3\<rparr>" 0 900 900 600]
  by (simp add: sample_image_def)

text \<open>The ceiling of the backoff is applied to the product, not to the backoff alone, so an image
  whose own interval is longer than the ceiling is scanned sooner while it is failing than
  while it is healthy.\<close>

theorem long_interval_failing_is_sooner:
  assumes "i_last_scan_at i = Some t" and "interval = int_or (i_scan_interval_seconds i) dflt"
    and "0 < cap" "cap < interval" and "0 < i_consecutive_failures i"
  shows "next_due_at i dflt cap = t + seconds cap \<and>
    next_due_at i dflt cap < next_due_at (i\<lparr>i_consecutive_failures := 0\<rparr>) dflt cap"
proof -
  have "interval \<le> interval * 2 ^ nat (i_consecutive_failures i)" using assms(3,4) by simp
  then have "min (interval * 2 ^ nat (i_consecutive_failures i)) cap = cap" using assms(4) by linarith
  then show ?thesis
    using assms by (simp add: next_due_at_def Let_def)
qed

theorem long_interval_failing_is_sooner_witness:
  "next_due_at (sample_image\<lparr>i_last_scan_at := Some 0, i_consecutive_failures := 1, i_scan_interval_seconds := Some 604800\<rparr>) 900 86400
    = seconds 86400"
  using long_interval_failing_is_sooner [of "sample_image\<lparr>i_last_scan_at := Some 0, i_consecutive_failures := 1,
      i_scan_interval_seconds := Some 604800\<rparr>" 0 604800 900 86400]
  by (simp add: sample_image_def)

section \<open>One scheduler at a time\<close>

text \<open>A scheduler works only under the lock. While another session holds the advisory lock, a
  round of the main loop changes neither the database nor the lock; and when a round ends
  believing that it holds the lock, it does. Whether statements of the round fail makes no
  difference.\<close>

theorem scheduler_works_under_lock:
  assumes "holds_lock st \<Longrightarrow> \<exists>n. lock st = Some (sw_conn w, n)"
  shows "(\<forall>c n. lock st = Some (c, n) \<and> c \<noteq> sw_conn w \<longrightarrow> scheduler_round s w st = st\<lparr>holds_lock := False\<rparr>) \<and>
    (holds_lock (scheduler_round s w st) \<longrightarrow> (\<exists>n. lock (scheduler_round s w st) = Some (sw_conn w, n)))"
proof (intro conjI allI impI)
  fix c n
  assume l: "lock st = Some (c, n) \<and> c \<noteq> sw_conn w"
  then have "\<not> holds_lock st" using assms by auto
  with l show "scheduler_round s w st = st\<lparr>holds_lock := False\<rparr>"
    by (simp add: scheduler_round_def try_scheduler_lock_def)
next
  assume "holds_lock (scheduler_round s w st)"
  with assms show "\<exists>n. lock (scheduler_round s w st) = Some (sw_conn w, n)"
    by (auto simp: scheduler_round_def try_scheduler_lock_def Let_def split: if_splits option.splits prod.splits)
qed

definition quiet_world :: scheduler_world where
  "quiet_world = \<lparr>sw_conn = 1, sw_lock_fault = False, sw_tick_fault = False, sw_stmt = 0, sw_reap_clock = (\<lambda>_. 0),
     sw_now = 0, sw_enqueue_clock = (\<lambda>_. 0), sw_txn = 0, sw_signal = False, sw_others = id\<rparr>"

theorem scheduler_works_under_lock_witness:
  "scheduler_round default_settings quiet_world \<lparr>holds_lock = False, lock = Some (2, 1), store = sample_db\<rparr>
    = \<lparr>holds_lock = False, lock = Some (2, 1), store = sample_db\<rparr>"
  using scheduler_works_under_lock [of "\<lparr>holds_lock = False, lock = Some (2, 1), store = sample_db\<rparr>" quiet_world default_settings]
  by (simp add: quiet_world_def)

text \<open>The lock belongs to a connection, and the pool replaces a connection that died between two
  rounds without an error (\<open>pool_pre_ping\<close>). A scheduler that held the lock on the old one goes
  on believing that it does: it ticks while another session holds the lock, round after round.\<close>

theorem lost_lock_goes_unnoticed:
  assumes "consistent (store st)" and "holds_lock st" "lock st = Some (c, n)" "c \<noteq> sw_conn w" "\<not> sw_tick_fault w"
  shows "holds_lock (scheduler_round s w st) \<and> lock (scheduler_round s w st) = Some (c, n) \<and>
    guarded_tick s w (store st) = Some (store (scheduler_round s w st))"
proof -
  obtain d' k where "tick s (sw_stmt w) (sw_reap_clock w) (sw_now w) (sw_enqueue_clock w) (sw_txn w) (store st) = Inr (d', k)"
    by (rule tick_goes_through [OF assms(1)])
  with assms(2-5) show ?thesis by (simp add: scheduler_round_def guarded_tick_def)
qed

section \<open>The end of the process\<close>

text \<open>A world that leaves the scheduler its connection and its lock, and a database that answers.\<close>

definition steady :: "int \<Rightarrow> scheduler_world \<Rightarrow> bool" where
  "steady conn w \<longleftrightarrow> sw_conn w = conn \<and> \<not> sw_tick_fault w \<and>
     (\<forall>l d. (\<forall>n. l = Some (conn, n) \<longrightarrow> fst (sw_others w (l, d)) = l) \<and>
        ((\<nexists>n. l = Some (conn, n)) \<longrightarrow> (\<nexists>n. fst (sw_others w (l, d)) = Some (conn, n))) \<and>
        (consistent d \<longrightarrow> consistent (snd (sw_others w (l, d)))))"

text \<open>What a round of a steady world keeps: the process knows whether it holds the lock, and holds it
  once.\<close>

definition lock_known :: "int \<Rightarrow> scheduler_state \<Rightarrow> bool" where
  "lock_known conn st \<longleftrightarrow> consistent (store st) \<and>
     (if holds_lock st then lock st = Some (conn, 1) else (\<nexists>n. lock st = Some (conn, n)))"

lemma round_keeps_known:
  assumes "steady conn w" "lock_known conn st"
  shows "lock_known conn (scheduler_round s w st)"
proof -
  obtain d' k where "tick s (sw_stmt w) (sw_reap_clock w) (sw_now w) (sw_enqueue_clock w) (sw_txn w) (store st) = Inr (d', k)"
    "consistent d'"
    using assms(2) tick_goes_through [of "store st"] by (metis lock_known_def)
  with assms show ?thesis
    by (auto simp: scheduler_round_def guarded_tick_def steady_def lock_known_def try_scheduler_lock_def
        split: option.splits if_splits)
qed

lemma others_keep_known:
  assumes "steady conn w" "lock_known conn st"
  shows "lock_known conn (others w st)"
proof -
  obtain l d where o: "sw_others w (lock st, store st) = (l, d)" by (cases "sw_others w (lock st, store st)")
  have f: "\<And>n. lock st = Some (conn, n) \<Longrightarrow> l = lock st" "\<And>n. \<nexists>m. lock st = Some (conn, m) \<Longrightarrow> l \<noteq> Some (conn, n)"
    "consistent (store st) \<Longrightarrow> consistent d"
    using assms(1) o unfolding steady_def by (metis fst_conv snd_conv)+
  with assms(2) o show ?thesis by (auto simp: lock_known_def others_def split: if_splits)
qed

abbreviation rounds :: "settings \<Rightarrow> scheduler_world list \<Rightarrow> scheduler_state \<Rightarrow> scheduler_state" where
  "rounds s \<equiv> fold (\<lambda>w st. others w (scheduler_round s w st))"

lemma loop_without_signal:
  "\<forall>w \<in> set pre. \<not> sw_signal w \<Longrightarrow> scheduler_loop s False (pre @ ws) st = scheduler_loop s False ws (rounds s pre st)"
  by (induction pre arbitrary: st) simp_all

lemma loop_requested: "scheduler_loop s True ws st = (True, st)"
  by (cases ws) simp_all

lemma rounds_keep_known: "\<forall>w \<in> set ws. steady conn w \<Longrightarrow> lock_known conn st \<Longrightarrow> lock_known conn (rounds s ws st)"
  by (induction ws arbitrary: st) (simp_all add: others_keep_known round_keeps_known)

lemma main_after_signal:
  assumes "\<forall>v \<in> set pre. \<not> sw_signal v" "sw_signal w"
  shows "scheduler_loop s False (pre @ w # post) st = (True, rounds s (pre @ [w]) st)"
  using assms(2) by (simp add: loop_without_signal [OF assms(1)] loop_requested)

text \<open>C33. A signal stops the scheduler in order, whatever happened before. The round that is under
  way when the first signal arrives is finished, whatever the world still holds no further round
  begins, and the process ends with the database as that round and the other sessions left it. If
  in addition no tick failed and nobody took its connection away, the advisory lock is then free
  for the replicas, and the database is consistent.\<close>

theorem scheduler_stops_and_releases:
  assumes "\<forall>v \<in> set pre. \<not> sw_signal v" and "sw_signal w"
  shows "\<exists>st. scheduler_main s False conn (pre @ w # post) (l, d) = (True, st) \<and>
    store st = store (rounds s (pre @ [w]) \<lparr>holds_lock = False, lock = l, store = d\<rparr>) \<and>
    (consistent d \<and> (\<nexists>n. l = Some (conn, n)) \<and> (\<forall>v \<in> set (pre @ [w]). steady conn v) \<longrightarrow>
      (\<nexists>n. lock st = Some (conn, n)) \<and> consistent (store st))"
proof -
  let ?st = "rounds s (pre @ [w]) \<lparr>holds_lock = False, lock = l, store = d\<rparr>"
  have "lock_known conn ?st"
    if "consistent d" "\<nexists>n. l = Some (conn, n)" "\<forall>v \<in> set (pre @ [w]). steady conn v"
    by (rule rounds_keep_known [OF that(3)]) (simp add: lock_known_def that(1,2))
  then show ?thesis
    unfolding scheduler_main_def main_after_signal [OF assms]
    by (auto simp: lock_known_def release_scheduler_lock_def split: if_splits)
qed

theorem scheduler_stops_and_releases_witness:
  "\<exists>st. scheduler_main default_settings False 1 [quiet_world, quiet_world\<lparr>sw_signal := True\<rparr>, quiet_world] (None, sample_db)
     = (True, st) \<and> (\<nexists>n. lock st = Some (1, n))"
proof -
  have "\<forall>v \<in> set ([quiet_world] @ [quiet_world\<lparr>sw_signal := True\<rparr>]). steady 1 v"
    by (simp add: steady_def quiet_world_def)
  then show ?thesis
    using scheduler_stops_and_releases [of "[quiet_world]" "quiet_world\<lparr>sw_signal := True\<rparr>"
        default_settings 1 "[quiet_world]" None sample_db] sample_consistent
    by (auto simp: quiet_world_def)
qed

text \<open>After a failed tick the process forgets that it holds the lock, which its session still does
  (a rollback does not release a session lock): the next round takes it a second time, and the one
  release at the end leaves it held for as long as the connection lives.\<close>

theorem failed_tick_leaves_lock:
  "(let (ended, st) = scheduler_main default_settings False 1
      [quiet_world, quiet_world\<lparr>sw_tick_fault := True\<rparr>, quiet_world\<lparr>sw_signal := True\<rparr>] (None, empty_db)
    in ended \<and> lock st = Some (1, 1))"
  by code_simp

end
