(* ===== verification/Worker.thy ===== *)
theory Worker
  imports Scheduler Trivy
begin

text \<open>
  The worker (src/app/scanner/worker.py): claim one job, probe, resolve, scan, write. A job is
  three transactions: the claim, the reading of what the decision needs (\<open>prepare\<close>) and the
  writing of the outcome; between them other sessions commit what they like (\<open>between\<close>).
  Everything outside the database, the registry, the Trivy process, the files and the clock,
  is a parameter (\<open>scan_env\<close>, \<open>worker_times\<close>).

  The job and image objects outlive the transaction that loaded them
  (expire_on_commit=False). A rollback expires them only when a transaction is open: an error
  raised while probing or while writing makes the failure handler read the rows again, an
  error of the registry or the scan, which run outside any transaction, leaves it the objects
  as they were loaded.
\<close>

section \<open>What the worker depends on\<close>

record scan_env =
  env_lib :: stdlib
  env_http :: http_client
  env_spawn :: spawn
  env_fs :: file_system

record worker_times =
  t_stmt :: time
  t_claim :: time
  t_started :: time
  t_http :: time
  t_completed :: time
  t_fail :: time
  t_fail_started :: time
  t_fail_completed :: time

definition DEFAULT_DEFER_SECONDS :: int where
  "DEFAULT_DEFER_SECONDS = 300"

section \<open>The skip invariant\<close>

text \<open>ORDER BY completed_at DESC (NULL first), LIMIT 1; rows that tie come in storage order.\<close>

definition run_recency :: "scan_run \<Rightarrow> int \<times> int" where
  "run_recency r = (case r_completed_at r of None \<Rightarrow> (0, 0) | Some t \<Rightarrow> (1, - t))"

definition last_successful_run :: "int \<Rightarrow> db \<Rightarrow> scan_run option" where
  "last_successful_run image_id d =
     (case sort_key run_recency
             (filter (\<lambda>r. r_image_id r = image_id \<and> r_status r = SUCCESS) (scan_runs d)) of
        [] \<Rightarrow> None
      | r # _ \<Rightarrow> Some r)"

definition is_unchanged :: "scan_run option \<Rightarrow> string \<Rightarrow> string \<Rightarrow> string \<Rightarrow> string \<Rightarrow> bool" where
  "is_unchanged previous digest trivy_version db_ver flags_hash =
     (case previous of
        None \<Rightarrow> False
      | Some p \<Rightarrow> r_digest p = Some digest \<and> r_trivy_version p = Some trivy_version \<and>
          r_trivy_db_version p = Some db_ver \<and> r_scan_flags_hash p = Some flags_hash)"

section \<open>The three phases of a job\<close>

record scan_plan =
  sp_image :: image
  sp_trivy_version :: string
  sp_db_version :: string
  sp_flags_hash :: string
  sp_started_at :: time
  sp_previous :: "scan_run option"

text \<open>\<open>_execute\<close> up to its first commit; \<open>Inr None\<close> when the image is gone.\<close>

definition prepare :: "scan_env \<Rightarrow> settings \<Rightarrow> worker_times \<Rightarrow> scan_job \<Rightarrow> db \<Rightarrow> exn + scan_plan option" where
  "prepare env s t job d =
     (case find_row i_id (j_image_id job) (images d) of
        None \<Rightarrow> Inr None
      | Some img \<Rightarrow>
          (case probe_versions (env_lib env) (env_spawn env) (env_fs env) s of
             Inl e \<Rightarrow> Inl e
           | Inr (trivy_version, db_ver) \<Rightarrow> Inr (Some
               \<lparr>sp_image = img, sp_trivy_version = trivy_version, sp_db_version = db_ver,
                sp_flags_hash = scan_flags_hash (env_lib env) s, sp_started_at = t_started t,
                sp_previous = last_successful_run (i_id img) d\<rparr>)))"

definition plan_meta :: "scan_plan \<Rightarrow> string \<Rightarrow> time \<Rightarrow> run_metadata" where
  "plan_meta plan digest completed =
     \<lparr>m_digest = Some digest, m_trivy_version = Some (sp_trivy_version plan),
      m_trivy_db_version = Some (sp_db_version plan), m_scan_flags_hash = Some (sp_flags_hash plan),
      m_started_at = sp_started_at plan, m_completed_at = completed\<rparr>"

datatype scan_result =
    Unchanged string
  | Scanned string parsed_report

text \<open>Resolve, decide, scan, parse: no database.\<close>

definition perform :: "scan_env \<Rightarrow> settings \<Rightarrow> worker_times \<Rightarrow> scan_plan \<Rightarrow> exn + scan_result" where
  "perform env s t plan =
     (let img = sp_image plan
      in case resolve_digest (env_lib env) (t_http t) (env_http env) (parse_reference (i_name img) (i_tag img)) of
           Inl e \<Rightarrow> Inl e
         | Inr digest \<Rightarrow>
             if is_unchanged (sp_previous plan) digest (sp_trivy_version plan) (sp_db_version plan) (sp_flags_hash plan)
             then Inr (Unchanged digest)
             else (case run_scan (env_spawn env) (reference img) s of
                     Inl e \<Rightarrow> Inl e
                   | Inr raw \<Rightarrow>
                       (case parse_report (env_lib env) raw of
                          Inl e \<Rightarrow> Inl e
                        | Inr report \<Rightarrow> Inr (Scanned digest report))))"

text \<open>The last transaction of a job that worked: the run and the job's completion together.\<close>

definition write_result :: "scan_plan \<Rightarrow> scan_job \<Rightarrow> worker_times \<Rightarrow> scan_result \<Rightarrow> db \<Rightarrow> sql_error + db" where
  "write_result plan job t result d =
     (case (case result of
              Unchanged digest \<Rightarrow> record_skip (sp_image plan) (Some job) (plan_meta plan digest (t_completed t)) d
            | Scanned digest report \<Rightarrow>
                record_success (sp_image plan) (Some job) report
                  (plan_meta plan (str_or (pr_digest report) digest) (t_completed t)) d) of
        Inl e \<Rightarrow> Inl e
      | Inr (d', _) \<Rightarrow> save_job job (complete job) d')"

section \<open>Errors\<close>

definition error_message :: "exn \<Rightarrow> string" where
  "error_message e = exn_name e @ '': '' @ exn_text e"

text \<open>The job object after \<open>session.rollback()\<close>: read again if a transaction was open.\<close>

definition rolled_back_job :: "bool \<Rightarrow> scan_job \<Rightarrow> db \<Rightarrow> scan_job option" where
  "rolled_back_job in_txn job d = (if in_txn then find_row j_id (j_id job) (scan_jobs d) else Some job)"

definition defer_for_backpressure :: "bool \<Rightarrow> scan_job \<Rightarrow> exn \<Rightarrow> worker_times \<Rightarrow> db \<Rightarrow> sql_error + db" where
  "defer_for_backpressure in_txn job e t d =
     (case rolled_back_job in_txn job d of
        None \<Rightarrow> Inl StaleDataError
      | Some j \<Rightarrow>
          (case queue_defer j (int_or (retry_after_of e) DEFAULT_DEFER_SECONDS) (error_message e) (t_fail t) of
             None \<Rightarrow> Inl OverflowError
           | Some j' \<Rightarrow> save_job j j' d))"

definition record_job_failure ::
    "settings \<Rightarrow> bool \<Rightarrow> scan_job \<Rightarrow> image option \<Rightarrow> exn \<Rightarrow> bool \<Rightarrow> worker_times \<Rightarrow> db \<Rightarrow> sql_error + db" where
  "record_job_failure s in_txn job loaded_image e permanent t d =
     (case rolled_back_job in_txn job d of
        None \<Rightarrow> Inl ObjectDeletedError
      | Some j \<Rightarrow>
          (let img = (if in_txn then find_row i_id (j_image_id j) (images d) else loaded_image);
               j' = fail j (error_message e) (if permanent then 1 else max_attempts s)
                      (backoff_base_seconds s) (backoff_max_seconds s) (t_fail t)
           in case (case img of
                      None \<Rightarrow> Inr d
                    | Some i \<Rightarrow>
                        map_sum id fst (record_failure i (Some j)
                          (empty_metadata (t_fail_started t) (t_fail_completed t))
                          (error_message e) (j_status j' = FAILED) d)) of
                Inl err \<Rightarrow> Inl err
              | Inr d' \<Rightarrow> save_job j j' d'))"

text \<open>The except clauses of \<open>run_once\<close>, in their order.\<close>

definition handle_error ::
    "settings \<Rightarrow> bool \<Rightarrow> scan_job \<Rightarrow> image option \<Rightarrow> exn \<Rightarrow> worker_times \<Rightarrow> db \<Rightarrow> sql_error + db" where
  "handle_error s in_txn job loaded_image e t d =
     (if is_image_not_found e then record_job_failure s in_txn job loaded_image e True t d
      else if is_backpressure e then defer_for_backpressure in_txn job e t d
      else record_job_failure s in_txn job loaded_image e False t d)"

section \<open>One job\<close>

text \<open>From the claimed job on. \<open>between\<close> is what other sessions commit while the registry and
  Trivy are at work. The result is the database with everything committed so far, and the
  error that escapes from \<open>run_once\<close>, if any.\<close>

definition commit :: "db \<Rightarrow> sql_error + db \<Rightarrow> db \<times> sql_error option" where
  "commit before r = (case r of Inl e \<Rightarrow> (before, Some e) | Inr d' \<Rightarrow> (d', None))"

text \<open>From the planned scan on: resolve, scan, parse, then write the outcome or the failure.\<close>

definition finish_job :: "scan_env \<Rightarrow> settings \<Rightarrow> worker_times \<Rightarrow> scan_job \<Rightarrow> scan_plan \<Rightarrow> db \<Rightarrow> db \<times> sql_error option" where
  "finish_job env s t job plan d =
     (case perform env s t plan of
        Inl e \<Rightarrow> commit d (handle_error s False job (Some (sp_image plan)) e t d)
      | Inr result \<Rightarrow>
          (case write_result plan job t result d of
             Inl err \<Rightarrow> commit d (handle_error s True job None (sql_exn err) t d)
           | Inr d' \<Rightarrow> (d', None)))"

definition execute ::
    "scan_env \<Rightarrow> settings \<Rightarrow> worker_times \<Rightarrow> (db \<Rightarrow> db) \<Rightarrow> scan_job \<Rightarrow> db \<Rightarrow> db \<times> sql_error option" where
  "execute env s t between job d =
     (case prepare env s t job d of
        Inl e \<Rightarrow> commit d (handle_error s True job None e t d)
      | Inr None \<Rightarrow>
          (case save_job job (complete job) d of
             Inl err \<Rightarrow> commit d (handle_error s True job None (sql_exn err) t d)
           | Inr d' \<Rightarrow> (d', None))
      | Inr (Some plan) \<Rightarrow> finish_job env s t job plan (between d))"

definition run_once ::
    "scan_env \<Rightarrow> settings \<Rightarrow> worker_times \<Rightarrow> int list \<Rightarrow> (db \<Rightarrow> db) \<Rightarrow> (db \<Rightarrow> db) \<Rightarrow> db \<Rightarrow>
     db \<times> sql_error option \<times> bool" where
  "run_once env s t locked after_claim between d =
     (case claim locked (t_stmt t) (t_claim t) (lease_seconds s) d of
        (d0, None) \<Rightarrow> (d0, None, False)
      | (d0, Some job) \<Rightarrow>
          (let (d', err) = execute env s t between job (after_claim d0) in (d', err, True)))"

section \<open>The worker process\<close>

text \<open>A round of the loop against the world of its moment: \<open>wr_down\<close> when the database cannot be
  reached (the claim raises and nothing happens), \<open>wr_signal\<close> when a signal arrives before
  the round and its sleep are over, \<open>wr_others\<close> what other sessions commit before the next.\<close>

record worker_round =
  wr_env :: scan_env
  wr_times :: worker_times
  wr_locked :: "int list"
  wr_after_claim :: "db \<Rightarrow> db"
  wr_between :: "db \<Rightarrow> db"
  wr_others :: "db \<Rightarrow> db"
  wr_down :: bool
  wr_signal :: bool

text \<open>The body of the loop: an error that escapes is logged and rolled back; the flag says whether
  a job was done, or else the worker sleeps.\<close>

definition worker_body :: "settings \<Rightarrow> worker_round \<Rightarrow> db \<Rightarrow> db \<times> bool" where
  "worker_body s w d =
     (if wr_down w then (d, False)
      else case run_once (wr_env w) s (wr_times w) (wr_locked w) (wr_after_claim w) (wr_between w) d of
             (d', Some _, _) \<Rightarrow> (d', False)
           | (d', None, did_work) \<Rightarrow> (d', did_work))"

text \<open>The loop reads \<open>_Shutdown.requested\<close> before a round only. The result says whether it has
  ended, the database, and how often it slept.\<close>

fun worker_loop :: "settings \<Rightarrow> bool \<Rightarrow> worker_round list \<Rightarrow> db \<Rightarrow> bool \<times> db \<times> nat" where
  "worker_loop s requested [] d = (requested, d, 0)"
| "worker_loop s requested (w # ws) d =
     (if requested then (True, d, 0)
      else
        (let (d', did_work) = worker_body s w d;
             (ended, d'', naps) = worker_loop s (wr_signal w) ws (wr_others w d')
         in (ended, d'', if did_work then naps else Suc naps)))"

text \<open>The process: a Trivy that cannot be asked for its version is an error at the start.\<close>

definition worker_main ::
    "scan_env \<Rightarrow> settings \<Rightarrow> bool \<Rightarrow> worker_round list \<Rightarrow> db \<Rightarrow> exn + bool \<times> db \<times> nat" where
  "worker_main env s requested ws d =
     (case probe_versions (env_lib env) (env_spawn env) (env_fs env) s of
        Inl e \<Rightarrow> Inl e
      | Inr _ \<Rightarrow> Inr (worker_loop s requested ws d))"

section \<open>Every phase keeps the database consistent\<close>

lemma save_job_consistent: "save_job loaded new d = Inr d' \<Longrightarrow> consistent d \<Longrightarrow> consistent d'"
  using sav.keeps_consistent [of d loaded new] by simp

lemma save_job_tables:
  assumes "save_job loaded new d = Inr d'"
  shows "images d' = images d" "scan_runs d' = scan_runs d" "findings d' = findings d" "packages d' = packages d"
    "cves d' = cves d"
    "scan_jobs d' = update_rows (\<lambda>j. j_id j = j_id loaded) (merge_job loaded new) (scan_jobs d)"
  using assms by (auto simp: save_job_def Let_def split: if_splits)

lemma save_job_view: "save_job loaded new d = Inr d' \<Longrightarrow> image_view d' = image_view d"
  using save_job_tables [of loaded new d d'] current_findings_cong [of d' d]
  by (simp add: image_view_def [abs_def] view_entry_of_def [abs_def] package_of_def)

lemma record_job_failure_keeps:
  assumes "consistent d" "record_job_failure s in_txn job img e permanent t d = Inr d'"
  shows "consistent d'" "image_view d' = image_view d"
proof -
  from assms(2) obtain j where j: "rolled_back_job in_txn job d = Some j"
    by (auto simp: record_job_failure_def split: option.splits)
  let ?img = "if in_txn then find_row i_id (j_image_id j) (images d) else img"
  let ?j' = "fail j (error_message e) (if permanent then 1 else max_attempts s)
     (backoff_base_seconds s) (backoff_max_seconds s) (t_fail t)"
  show "consistent d'" "image_view d' = image_view d"
  proof (atomize (full), cases ?img)
    case None
    with assms(2) j have s: "save_job j ?j' d = Inr d'" by (simp add: record_job_failure_def Let_def)
    show "consistent d' \<and> image_view d' = image_view d"
      using save_job_consistent [OF s assms(1)] save_job_view [OF s] by blast
  next
    case (Some i)
    let ?r = "record_failure i (Some j) (empty_metadata (t_fail_started t) (t_fail_completed t))
        (error_message e) (j_status ?j' = FAILED) d"
    from assms(2) j Some obtain d1 k where r: "?r = Inr (d1, k)"
      by (cases ?r) (auto simp: record_job_failure_def Let_def)
    with assms(2) j Some have s: "save_job j ?j' d1 = Inr d'" by (simp add: record_job_failure_def Let_def)
    show "consistent d' \<and> image_view d' = image_view d"
      using save_job_consistent [OF s failure.keeps_consistent [OF assms(1) r]] save_job_view [OF s]
        failure.same_view [OF r] by (auto simp: fun_eq_iff)
  qed
qed

lemma defer_keeps:
  assumes "consistent d" "defer_for_backpressure in_txn job e t d = Inr d'"
  shows "consistent d'" "image_view d' = image_view d"
proof -
  from assms(2) obtain j new where "save_job j new d = Inr d'"
    by (auto simp: defer_for_backpressure_def split: option.splits)
  from save_job_consistent [OF this assms(1)] save_job_view [OF this]
  show "consistent d'" "image_view d' = image_view d" by blast+
qed

lemma handle_error_keeps:
  assumes "consistent d" "handle_error s in_txn job img e t d = Inr d'"
  shows "consistent d'" "image_view d' = image_view d"
  using assms(2) record_job_failure_keeps [OF assms(1), of s in_txn job img e True t d']
    record_job_failure_keeps [OF assms(1), of s in_txn job img e False t d']
    defer_keeps [OF assms(1), of in_txn job e t d']
  by (simp_all add: handle_error_def split: if_splits)

lemma commit_keeps:
  assumes "consistent d" "\<And>d'. r = Inr d' \<Longrightarrow> consistent d'"
  shows "consistent (fst (commit d r))"
  using assms by (auto simp: commit_def split: sum.splits)

lemma own_job_reread:
  assumes "consistent d" "job \<in> set (scan_jobs d)"
  shows "rolled_back_job b job d = Some job"
  using assms find_row_unique [of j_id "scan_jobs d" job] by (auto simp: rolled_back_job_def consistent_def keys_ok_def)

text \<open>Writing a result keeps the database consistent when the image object is as fresh as its row.\<close>

lemma write_result_keeps:
  assumes "consistent d" "sp_image plan \<in> set (images d)" "write_result plan job t result d = Inr d'"
  shows "consistent d'"
proof (cases result)
  case (Unchanged digest)
  let ?r = "record_skip (sp_image plan) (Some job) (plan_meta plan digest (t_completed t)) d"
  from assms(3) Unchanged obtain d1 k where r: "?r = Inr (d1, k)" by (cases ?r) (auto simp: write_result_def)
  with assms(3) Unchanged have s: "save_job job (complete job) d1 = Inr d'" by (simp add: write_result_def)
  show ?thesis by (rule save_job_consistent [OF s skip.keeps_consistent [OF assms(1) r]])
next
  case (Scanned digest report)
  let ?m = "plan_meta plan (str_or (pr_digest report) digest) (t_completed t)"
  let ?r = "record_success (sp_image plan) (Some job) report ?m d"
  from assms(3) Scanned obtain d1 k where r: "?r = Inr (d1, k)" by (cases ?r) (auto simp: write_result_def)
  with assms(3) Scanned have s: "save_job job (complete job) d1 = Inr d'" by (simp add: write_result_def)
  from r have "recording (sp_image plan) report ?m d"
    "d1 = recompute_cve_rollup (affected_cves (sp_image plan) report d) (base_db (sp_image plan) (Some job) report ?m d)"
    using assms(1,2) by (auto simp: recording_def record_success_eq)
  with recording_consistent have "consistent d1" by blast
  with save_job_consistent [OF s] show ?thesis .
qed

lemma error_keeps: "consistent d \<Longrightarrow> consistent (fst (commit d (handle_error s b job img e t d)))"
  using handle_error_keeps(1) by (intro commit_keeps)

lemma finish_job_keeps:
  assumes "consistent d" "sp_image plan \<in> set (images d)"
  shows "consistent (fst (finish_job env s t job plan d))"
  using error_keeps [OF assms(1)] write_result_keeps [OF assms]
  by (auto simp: finish_job_def split: sum.splits)

lemma execute_keeps:
  assumes "consistent d" and "consistent (between d)"
    and "find_row i_id (j_image_id job) (images (between d)) = find_row i_id (j_image_id job) (images d)"
  shows "consistent (fst (execute env s t between job d))"
proof -
  show ?thesis
  proof (cases "prepare env s t job d")
    case (Inl e)
    with error_keeps [OF assms(1)] show ?thesis by (simp add: execute_def)
  next
    case (Inr p)
    show ?thesis
    proof (cases p)
      case None
      with Inr error_keeps [OF assms(1)] save_job_consistent [OF _ assms(1)] show ?thesis
        by (auto simp: execute_def split: sum.splits)
    next
      case (Some plan)
      with Inr have "find_row i_id (j_image_id job) (images d) = Some (sp_image plan)"
        by (auto simp: prepare_def split: option.splits sum.splits prod.splits)
      with assms(3) have img: "sp_image plan \<in> set (images (between d))" using find_row_SomeD by metis
      from Inr Some finish_job_keeps [OF assms(2) img] show ?thesis by (simp add: execute_def)
    qed
  qed
qed

end
