(* ===== verification/Worker_Props.thy ===== *)
theory Worker_Props
  imports Worker Scheduler_Props Persist_Props Report_Props
begin

text \<open>
  The properties of the worker: what each outcome of a job does to the job, to the run history
  and to the findings, and that no outcome breaks the consistency of the database.
\<close>

section \<open>Writing a job back\<close>

lemma save_job_fresh:
  assumes "jobs_ok d" "job \<in> set (scan_jobs d)" "j_id new = j_id job" "j_image_id new = j_image_id job"
    "j_created_at new = j_created_at job" "active new \<longrightarrow> active job"
  shows "\<exists>d'. save_job job new d = Inr d' \<and> find_row j_id (j_id job) (scan_jobs d') = Some new \<and>
    images d' = images d \<and> scan_runs d' = scan_runs d"
proof -
  have uniq: "unique_on j_id (scan_jobs d)" using assms(1) by (simp add: jobs_ok_def)
  have row: "r = job" if "r \<in> set (scan_jobs d)" "j_id r = j_id job" for r
    by (rule unique_onD [OF uniq that(1) assms(2) that(2)])
  have merged: "merge_job job new job = new" using assms(3-5) by simp
  let ?d' = "d\<lparr>scan_jobs := update_rows (\<lambda>j. j_id j = j_id job) (merge_job job new) (scan_jobs d)\<rparr>"
  have "jobs_ok ?d'"
    by (rule jobs_ok_update [OF assms(1)]) (use row assms(3,4,6) merged in metis)
  then have "save_job job new d = Inr ?d'"
    using assms(2) by (simp add: save_job_def Let_def jobs_ok_def)
  moreover have "find_row j_id (j_id job) (scan_jobs ?d') = Some new"
  proof -
    have "find_row j_id (j_id job) (scan_jobs ?d')
        = map_option (\<lambda>j. if j_id j = j_id job then merge_job job new j else j) (find_row j_id (j_id job) (scan_jobs d))"
      by simp (rule find_row_update_rows, simp add: merge_job_def)
    also have "find_row j_id (j_id job) (scan_jobs d) = Some job"
      by (rule find_row_unique [OF uniq assms(2) refl])
    finally show ?thesis by (simp add: merged del: merge_job_same)
  qed
  ultimately show ?thesis by auto
qed

section \<open>Concrete worlds\<close>

definition empty_world :: "http_client \<Rightarrow> scan_env" where
  "empty_world http = \<lparr>env_lib = sample_lib, env_http = http,
     env_spawn = (\<lambda>argv _. Completed 0 (if argv ! 1 = ''image'' then sample_raw else quoted ''{`Version`:`1`}'') []),
     env_fs = (\<lambda>_. OS_error)\<rparr>"

definition zero_times :: worker_times where
  "zero_times = \<lparr>t_stmt = 0, t_claim = 0, t_started = 0, t_http = 0, t_completed = 1000, t_fail = 7,
     t_fail_started = 8, t_fail_completed = 9\<rparr>"

definition running_job :: scan_job where
  "running_job = sample_job\<lparr>j_status := RUNNING, j_lease_until := Some 99\<rparr>"

definition running_db :: db where
  "running_db = sample_db\<lparr>scan_jobs := [running_job]\<rparr>"

definition sample_plan :: scan_plan where
  "sample_plan = \<lparr>sp_image = sample_image, sp_trivy_version = ''1'', sp_db_version = ''unknown'',
     sp_flags_hash = scan_flags_hash sample_lib default_settings, sp_started_at = 0, sp_previous = None\<rparr>"

lemmas running_defs = running_db_def running_job_def sample_defs

lemma running_consistent: "consistent running_db"
  by (simp add: consistent_def db_parts counts_ok_def rollups_ok_def running_defs image_key_def active_def)

lemma probe_world: "probe_versions sample_lib (env_spawn (empty_world http)) (env_fs (empty_world http)) default_settings
    = Inr (''1'', ''unknown'')"
proof -
  have "json_loads (quoted ''{`Version`:`1`}'') = Some (JObj [(''Version'', JStr ''1'')])" by code_simp
  then show ?thesis
    by (simp add: probe_versions_def run_process_def empty_world_def db_version_def jget_def)
qed

lemma sample_prepare: "prepare (empty_world http) default_settings zero_times running_job running_db = Inr (Some sample_plan)"
proof -
  have "env_lib (empty_world http) = sample_lib" by (simp add: empty_world_def)
  then show ?thesis
    using probe_world [of http]
    by (simp add: prepare_def running_defs sample_plan_def zero_times_def last_successful_run_def)
qed

section \<open>Outcomes\<close>

text \<open>Whatever happens to a job (it is scanned, skipped, deferred, failed, its image or its row
  disappears, a statement is refused), the database a round of the worker leaves behind is
  consistent, provided the other sessions keep it so and none of them records a run of the
  same image while this worker scans it.\<close>

theorem run_once_keeps_consistent:
  assumes "consistent d"
    and "\<And>x. consistent x \<Longrightarrow> consistent (after_claim x)"
    and "\<And>x. consistent x \<Longrightarrow> consistent (between x)"
    and "\<And>x job. snd (claim locked (t_stmt t) (t_claim t) (lease_seconds s) d) = Some job \<Longrightarrow>
      find_row i_id (j_image_id job) (images (between x)) = find_row i_id (j_image_id job) (images x)"
  shows "consistent (fst (run_once env s t locked after_claim between d))"
proof -
  obtain d0 j where c: "claim locked (t_stmt t) (t_claim t) (lease_seconds s) d = (d0, j)"
    by (cases "claim locked (t_stmt t) (t_claim t) (lease_seconds s) d")
  have d0: "consistent d0" using clm.keeps_consistent [OF assms(1), of locked "t_stmt t" "t_claim t" "lease_seconds s"] c by simp
  show ?thesis
  proof (cases j)
    case None
    with c d0 show ?thesis by (simp add: run_once_def)
  next
    case (Some job)
    with c assms(4) have "find_row i_id (j_image_id job) (images (between x)) = find_row i_id (j_image_id job) (images x)" for x
      by simp
    from execute_keeps [where between = between and job = job and env = env and s = s and t = t,
        OF assms(2) [OF d0] assms(3) [OF assms(2) [OF d0]] this] c Some
    show ?thesis by (simp add: run_once_def case_prod_unfold Let_def)
  qed
qed

theorem run_once_keeps_consistent_witness:
  "consistent (fst (run_once (empty_world (constant_registry throttled throttled)) default_settings zero_times [] id id sample_db))"
  by (rule run_once_keeps_consistent [OF sample_consistent]) simp_all

text \<open>C17. Throttling costs nothing, as long as the registry asks for a time there is. When the
  registry or Trivy's pull is throttled, the job goes back to pending with the attempts it had
  and its lease cleared, due after the Retry-After the registry gave (300 seconds when it gave
  none, or zero), and nothing else is written: no run, no image column. Only when that moment
  lies beyond the year 9999 an OverflowError escapes the worker and nothing at all is written:
  the job stays running until its lease is reaped, as if the worker had died.\<close>

theorem throttled_job_is_deferred:
  assumes "prepare env s t job d = Inr (Some plan)" and "perform env s t plan = Inl e" and "is_backpressure e"
    and "jobs_ok (between d)" and "job \<in> set (scan_jobs (between d))" and "j_status job = RUNNING"
    and "due = t_fail t + seconds (case retry_after_of e of None \<Rightarrow> 300 | Some r \<Rightarrow> if r = 0 then 300 else r)"
  shows "(due \<le> MAX_DATETIME \<longrightarrow>
      (\<exists>d'. execute env s t between job d = (d', None) \<and> scan_runs d' = scan_runs (between d) \<and>
         images d' = images (between d) \<and>
         find_row j_id (j_id job) (scan_jobs d') = Some (job\<lparr>j_status := PENDING, j_lease_until := None,
           j_last_error := Some (take 4000 (error_message e)), j_scheduled_for := due\<rparr>))) \<and>
    (MAX_DATETIME < due \<longrightarrow> execute env s t between job d = (between d, Some OverflowError))"
proof -
  let ?delay = "int_or (retry_after_of e) DEFAULT_DEFER_SECONDS"
  let ?new = "defer_job job ?delay (error_message e) (t_fail t)"
  have due: "due = t_fail t + seconds ?delay"
    unfolding assms(7) by (cases "retry_after_of e") (simp_all add: DEFAULT_DEFER_SECONDS_def)
  have "active job" using assms(6) by (simp add: active_def)
  then obtain d' where d': "save_job job ?new (between d) = Inr d'" "find_row j_id (j_id job) (scan_jobs d') = Some ?new"
    "images d' = images (between d)" "scan_runs d' = scan_runs (between d)"
    using save_job_fresh [OF assms(4,5), of ?new] by (auto simp: defer_job_def)
  have "execute env s t between job d
      = (if due \<le> MAX_DATETIME then (d', None) else (between d, Some OverflowError))"
    using assms(1-3) d'(1) backpressure_not_not_found [OF assms(3)]
    by (simp add: execute_def finish_job_def Let_def handle_error_def defer_for_backpressure_def rolled_back_job_def
        commit_def queue_defer_def datetime_add_def due)
  then show ?thesis using d' by (simp add: defer_job_def due)
qed

theorem throttled_job_is_deferred_witness:
  "\<exists>d'. execute (empty_world (constant_registry throttled throttled)) default_settings zero_times id running_job running_db = (d', None) \<and>
     scan_runs d' = [] \<and> map j_attempts (scan_jobs running_db) = [0] \<and>
     (\<exists>j. find_row j_id 1 (scan_jobs d') = Some j \<and> j_status j = PENDING \<and> j_attempts j = 0 \<and>
       j_scheduled_for j = 7 + seconds 30)"
proof -
  let ?env = "empty_world (constant_registry throttled throttled)"
  have r: "resolve_digest sample_lib 0 (constant_registry throttled throttled) (parse_reference ''nginx'' ''1.19'')
      = Inl (RateLimited (ref_host (parse_reference ''nginx'' ''1.19'') @ '' is throttling us'') (Some 30))"
    by code_simp
  then have p: "perform ?env default_settings zero_times sample_plan
      = Inl (RateLimited (ref_host (parse_reference ''nginx'' ''1.19'') @ '' is throttling us'') (Some 30))"
    by (simp add: perform_def empty_world_def sample_plan_def sample_image_def zero_times_def Let_def)
  have "jobs_ok (id running_db)" "running_job \<in> set (scan_jobs (id running_db))" "j_status running_job = RUNNING"
    using consistent_jobs_ok [OF running_consistent] by (simp_all add: running_defs)
  from throttled_job_is_deferred [where between = id, OF sample_prepare p _ this refl] show ?thesis
    by (auto simp: running_defs zero_times_def seconds_def MAX_DATETIME_def)
qed

text \<open>The failure path, whatever raised the error: \<open>in_txn\<close> and the loaded image are those of its
  origin.\<close>

lemma failure_is_recorded:
  assumes "\<not> is_backpressure e" and "consistent x" and "job \<in> set (scan_jobs x)" and "j_status job = RUNNING"
    and "img \<in> set (images x)" and "i_id img = j_image_id job" and "\<not> in_txn \<longrightarrow> loaded = Some img"
  shows "\<exists>d' run j. handle_error s in_txn job loaded e t x = Inr d' \<and> consistent d' \<and> image_view d' = image_view x \<and>
    scan_runs d' = scan_runs x @ [run] \<and> r_image_id run = i_id img \<and> r_status run = RUN_FAILED \<and>
    r_error run = Some (take 4000 (error_message e)) \<and>
    find_row j_id (j_id job) (scan_jobs d') = Some j \<and> j_attempts j = j_attempts job + 1 \<and>
    (j_status j = FAILED \<longleftrightarrow> j_attempts job + 1 \<ge> (if is_image_not_found e then 1 else max_attempts s)) \<and>
    (j_status j \<noteq> FAILED \<longrightarrow> j_status j = PENDING) \<and>
    find_row i_id (i_id img) (images d') = Some (failed_image
      (empty_metadata (t_fail_started t) (t_fail_completed t)) (j_status j = FAILED) img)"
proof -
  let ?m = "empty_metadata (t_fail_started t) (t_fail_completed t)"
  let ?j = "fail job (error_message e) (if is_image_not_found e then 1 else max_attempts s)
      (backoff_base_seconds s) (backoff_max_seconds s) (t_fail t)"
  have uniq: "unique_on i_id (images x)" by (rule keys_okD(1) [OF consistentD(1) [OF assms(2)]])
  have img: "find_row i_id (j_image_id job) (images x) = Some img"
    by (rule find_row_unique [OF uniq assms(5,6)])
  have id: "i_id img \<in> i_id ` set (images x)" using assms(5) by simp
  obtain d1 where d1: "record_failure img (Some job) ?m (error_message e) (j_status ?j = FAILED) x = Inr (d1, next_run_id x)"
    "scan_jobs d1 = scan_jobs x" "scan_runs d1 = scan_runs x @ [new_run img (Some job) RUN_FAILED ?m (Some (take 4000 (error_message e))) (next_run_id x)]"
    "images d1 = update_rows (\<lambda>i. i_id i = i_id img) (merge_image img (failed_image ?m (j_status ?j = FAILED) img)) (images x)"
    using record_failure_ok [OF id, of ?m "Some job" "error_message e" "j_status ?j = FAILED"] by auto
  have con: "consistent d1" by (rule failure.keeps_consistent [OF assms(2) d1(1)])
  have "active job" using assms(4) by (simp add: active_def)
  then obtain d' where d': "save_job job ?j d1 = Inr d'" "find_row j_id (j_id job) (scan_jobs d') = Some ?j"
    "images d' = images d1" "scan_runs d' = scan_runs d1"
    using save_job_fresh [OF consistent_jobs_ok [OF con], of job ?j] assms(3) exit_fail.same_job by (auto simp: d1(2))
  have view: "image_view d' = image_view x"
    using save_job_view [OF d'(1)] failure.same_view [OF d1(1)] by (simp add: fun_eq_iff)
  have "handle_error s in_txn job loaded e t x = Inr d'"
    using assms(1,7) img own_job_reread [OF assms(2,3)] d1(1) d'(1)
    by (cases "is_image_not_found e"; cases in_txn) (simp_all add: handle_error_def record_job_failure_def Let_def)
  moreover have "find_row i_id (i_id img) (images d') = Some (failed_image ?m (j_status ?j = FAILED) img)"
  proof -
    have "merge_image img (failed_image ?m b img) img = failed_image ?m b img" for b
      by (intro image.equality) (simp_all add: merge_image_def failed_image_def pick_def)
    then show ?thesis
      unfolding d'(3) d1(4) using find_row_unique [OF uniq assms(5) refl]
      by (subst find_row_update_rows) (simp_all add: merge_image_def)
  qed
  moreover have "j_attempts ?j = j_attempts job + 1" "j_status ?j \<noteq> FAILED \<longrightarrow> j_status ?j = PENDING"
    "j_status ?j = FAILED \<longleftrightarrow> j_attempts job + 1 \<ge> (if is_image_not_found e then 1 else max_attempts s)"
    by (simp_all add: fail_def Let_def)
  ultimately show ?thesis
    using view d' d1(3) save_job_consistent [OF d'(1) con]
    by (intro exI [of _ d'] exI [of _ "new_run img (Some job) RUN_FAILED ?m (Some (take 4000 (error_message e))) (next_run_id x)"] exI [of _ ?j])
       (simp add: new_run_def)
qed

text \<open>The error a job raises, with the database the transaction of its handler starts from: what
  probing Trivy raises comes before the other sessions had time for \<open>between\<close>, what resolving,
  scanning, parsing and the writing of the outcome raise comes after it.\<close>

definition job_error ::
    "scan_env \<Rightarrow> settings \<Rightarrow> worker_times \<Rightarrow> (db \<Rightarrow> db) \<Rightarrow> scan_job \<Rightarrow> db \<Rightarrow> (db \<times> exn) option" where
  "job_error env s t between job d =
     (case prepare env s t job d of
        Inl e \<Rightarrow> Some (d, e)
      | Inr None \<Rightarrow> None
      | Inr (Some plan) \<Rightarrow>
          (case perform env s t plan of
             Inl e \<Rightarrow> Some (between d, e)
           | Inr result \<Rightarrow>
               (case write_result plan job t result (between d) of
                  Inl err \<Rightarrow> Some (between d, sql_exn err)
                | Inr _ \<Rightarrow> None)))"

text \<open>C18. What any error but throttling costs, wherever it comes from: Trivy's version probe, the
  registry, the scan, the report or the transaction that writes the outcome. That transaction
  leaves nothing behind; one failed run of the image is recorded with the error as its message,
  no finding is touched, and the job has one more attempt: it is retried later while attempts
  are left, and fails at once when the image does not exist. The image's failure streak grows
  exactly when the job failed.\<close>

theorem failed_attempt_is_recorded:
  assumes "job_error env s t between job d = Some (x, e)" and "\<not> is_backpressure e"
    and "consistent x" and "job \<in> set (scan_jobs x)" and "j_status job = RUNNING"
    and "find_row i_id (j_image_id job) (images d) = Some img" and "img \<in> set (images x)"
  shows "\<exists>d' run j. execute env s t between job d = (d', None) \<and> consistent d' \<and> image_view d' = image_view x \<and>
    scan_runs d' = scan_runs x @ [run] \<and> r_image_id run = i_id img \<and> r_status run = RUN_FAILED \<and>
    r_error run = Some (take 4000 (error_message e)) \<and>
    find_row j_id (j_id job) (scan_jobs d') = Some j \<and> j_attempts j = j_attempts job + 1 \<and>
    (j_status j = FAILED \<longleftrightarrow> j_attempts job + 1 \<ge> (if is_image_not_found e then 1 else max_attempts s)) \<and>
    (j_status j \<noteq> FAILED \<longrightarrow> j_status j = PENDING) \<and>
    find_row i_id (i_id img) (images d') = Some (failed_image
      (empty_metadata (t_fail_started t) (t_fail_completed t)) (j_status j = FAILED) img)"
proof -
  have id: "i_id img = j_image_id job" using find_row_SomeD [OF assms(6)] by simp
  note recorded = failure_is_recorded [OF assms(2-5) assms(7) id]
  show ?thesis
  proof (cases "prepare env s t job d")
    case (Inl e')
    with assms(1) have "execute env s t between job d = commit x (handle_error s True job None e t x)"
      by (simp add: job_error_def execute_def)
    then show ?thesis using recorded [of True None s t] by (auto simp: commit_def)
  next
    case (Inr p)
    with assms(1) obtain plan where p: "p = Some plan" by (cases p) (simp_all add: job_error_def)
    then have img: "sp_image plan = img"
      using Inr assms(6) by (auto simp: prepare_def split: sum.splits)
    from assms(1) Inr p have x: "x = between d"
      by (auto simp: job_error_def split: sum.splits)
    have "execute env s t between job d = commit x (handle_error s False job (Some img) e t x) \<or>
        execute env s t between job d = commit x (handle_error s True job None e t x)"
      using assms(1) Inr p img
      by (auto simp: job_error_def execute_def finish_job_def split: sum.splits)
    then show ?thesis
      using recorded [of False "Some img" s t] recorded [of True None s t] by (auto simp: commit_def)
  qed
qed

theorem failed_attempt_is_recorded_witness:
  "\<exists>d' run j. execute (empty_world (constant_registry (answer 404 [] []) silent)) default_settings zero_times id running_job running_db = (d', None) \<and>
     scan_runs d' = [run] \<and> r_status run = RUN_FAILED \<and>
     find_row j_id 1 (scan_jobs d') = Some j \<and> j_attempts j = 1 \<and> j_status j = FAILED"
proof -
  let ?env = "empty_world (constant_registry (answer 404 [] []) silent)"
  let ?e = "ImageNotFound ''library/nginx:1.19 not found''"
  have "resolve_digest sample_lib 0 (constant_registry (answer 404 [] []) silent) (parse_reference ''nginx'' ''1.19'') = Inl ?e"
    by code_simp
  then have "perform ?env default_settings zero_times sample_plan = Inl ?e"
    by (simp add: perform_def empty_world_def sample_plan_def sample_image_def zero_times_def Let_def)
  then have p: "job_error ?env default_settings zero_times id running_job running_db = Some (running_db, ?e)"
    by (simp add: job_error_def sample_prepare)
  have b: "\<not> is_backpressure ?e" "running_job \<in> set (scan_jobs running_db)" "j_status running_job = RUNNING"
    "find_row i_id (j_image_id running_job) (images running_db) = Some sample_image" "sample_image \<in> set (images running_db)"
    by (simp_all add: running_defs)
  from failed_attempt_is_recorded [OF p b(1) running_consistent b(2-5)]
  obtain d' run j where r: "execute ?env default_settings zero_times id running_job running_db = (d', None)"
    "scan_runs d' = scan_runs running_db @ [run]" "r_status run = RUN_FAILED"
    "find_row j_id (j_id running_job) (scan_jobs d') = Some j" "j_attempts j = j_attempts running_job + 1"
    "j_status j = FAILED \<longleftrightarrow> j_attempts running_job + 1 \<ge> (if is_image_not_found ?e then 1 else max_attempts default_settings)"
    by blast
  then show ?thesis by (auto simp: running_defs)
qed

text \<open>C8. The skip is exact and costs nothing. Once the digest is resolved, the scan is skipped exactly
  when the latest successful run of the image had this digest, this Trivy, this vulnerability
  database and these flags, and then Trivy is not run at all: the outcome is the same whatever
  a scan would have answered. The skip completes the job, records a skipped run, and leaves
  every image's findings and current run as they were.\<close>

theorem skip_is_exact:
  assumes "prepare env s t job d = Inr (Some plan)"
    and "resolve_digest (env_lib env) (t_http t) (env_http env)
      (parse_reference (i_name (sp_image plan)) (i_tag (sp_image plan))) = Inr digest"
  shows "(perform env s t plan = Inr (Unchanged digest) \<longleftrightarrow>
      (\<exists>p. last_successful_run (i_id (sp_image plan)) d = Some p \<and> r_status p = SUCCESS \<and>
        r_digest p = Some digest \<and> r_trivy_version p = Some (sp_trivy_version plan) \<and>
        r_trivy_db_version p = Some (sp_db_version plan) \<and>
        r_scan_flags_hash p = Some (scan_flags_hash (env_lib env) s))) \<and>
    (perform env s t plan = Inr (Unchanged digest) \<longrightarrow>
      (\<forall>spawn. perform (env\<lparr>env_spawn := spawn\<rparr>) s t plan = Inr (Unchanged digest)) \<and>
      (\<forall>d' err. consistent (between d) \<and> job \<in> set (scan_jobs (between d)) \<and> j_status job = RUNNING \<and>
        sp_image plan \<in> set (images (between d)) \<and> run_fits (plan_meta plan digest (t_completed t)) \<and>
        execute env s t between job d = (d', err) \<longrightarrow>
        err = None \<and> image_view d' = image_view (between d) \<and> current_run_of d' = current_run_of (between d) \<and>
        find_row j_id (j_id job) (scan_jobs d') = Some (complete job) \<and>
        (\<exists>run. scan_runs d' = scan_runs (between d) @ [run] \<and> r_status run = SKIPPED)))"
proof (intro conjI impI allI)
  have prev: "sp_previous plan = last_successful_run (i_id (sp_image plan)) d"
    "sp_flags_hash plan = scan_flags_hash (env_lib env) s"
    using assms(1) by (auto simp: prepare_def split: option.splits sum.splits prod.splits)
  have success: "r_status p = SUCCESS" if "last_successful_run k d = Some p" for k p
  proof -
    from that obtain rs where "sort_key run_recency (filter (\<lambda>r. r_image_id r = k \<and> r_status r = SUCCESS) (scan_runs d)) = p # rs"
      by (auto simp: last_successful_run_def split: list.splits)
    from sort_key_hd_min(1) [OF this] show ?thesis by simp
  qed
  have perf: "perform env s t plan = Inr (Unchanged digest) \<longleftrightarrow>
      is_unchanged (sp_previous plan) digest (sp_trivy_version plan) (sp_db_version plan) (sp_flags_hash plan)"
    using assms(2) by (auto simp: perform_def Let_def split: sum.splits)
  then show "perform env s t plan = Inr (Unchanged digest) \<longleftrightarrow>
      (\<exists>p. last_successful_run (i_id (sp_image plan)) d = Some p \<and> r_status p = SUCCESS \<and>
        r_digest p = Some digest \<and> r_trivy_version p = Some (sp_trivy_version plan) \<and>
        r_trivy_db_version p = Some (sp_db_version plan) \<and>
        r_scan_flags_hash p = Some (scan_flags_hash (env_lib env) s))"
    using success by (auto simp: is_unchanged_def prev split: option.splits)
  assume un: "perform env s t plan = Inr (Unchanged digest)"
  show "perform (env\<lparr>env_spawn := spawn\<rparr>) s t plan = Inr (Unchanged digest)" for spawn
    using un perf assms(2) by (simp add: perform_def Let_def)
  fix d' err
  assume a: "consistent (between d) \<and> job \<in> set (scan_jobs (between d)) \<and> j_status job = RUNNING \<and>
        sp_image plan \<in> set (images (between d)) \<and> run_fits (plan_meta plan digest (t_completed t)) \<and>
        execute env s t between job d = (d', err)"
  let ?m = "plan_meta plan digest (t_completed t)" and ?b = "between d" and ?img = "sp_image plan"
  have "i_id ?img \<in> i_id ` set (images ?b)" using a by simp
  then obtain d1 where d1: "record_skip ?img (Some job) ?m ?b = Inr (d1, next_run_id ?b)" "scan_jobs d1 = scan_jobs ?b"
    "scan_runs d1 = scan_runs ?b @ [new_run ?img (Some job) SKIPPED ?m None (next_run_id ?b)]"
    using a by (simp add: record_skip_def insert_run_def Let_def save_image_eq new_run_def)
  have con: "consistent d1" using skip.keeps_consistent [OF _ d1(1)] a by blast
  obtain d2 where d2: "save_job job (complete job) d1 = Inr d2" "find_row j_id (j_id job) (scan_jobs d2) = Some (complete job)"
    "scan_runs d2 = scan_runs d1" "images d2 = images d1"
    using save_job_fresh [OF consistent_jobs_ok [OF con], of job "complete job"] a
    by (auto simp: d1(2) complete_def active_def)
  have "write_result plan job t (Unchanged digest) ?b = Inr d2"
    using d1(1) d2(1) by (simp add: write_result_def)
  then have d': "d' = d2" "err = None"
    using a assms(1) un by (auto simp: execute_def finish_job_def Let_def)
  show "err = None" "find_row j_id (j_id job) (scan_jobs d') = Some (complete job)"
    using d' d2(2) by simp_all
  show "image_view d' = image_view ?b"
    using save_job_view [OF d2(1)] skip.same_view [OF d1(1)] d' by (simp add: fun_eq_iff)
  show "current_run_of d' = current_run_of ?b"
    using skip.keeps_pointers [OF d1(1)] d2(4) d' by (simp add: fun_eq_iff current_run_of_def)
  show "\<exists>run. scan_runs d' = scan_runs ?b @ [run] \<and> r_status run = SKIPPED"
    using d1(3) d2(3) d' by (simp add: new_run_def)
qed

theorem skip_is_exact_witness:
  "\<not> (\<exists>p. last_successful_run 1 running_db = Some p) \<and>
   perform (empty_world (constant_registry healthy healthy)) default_settings zero_times sample_plan \<noteq> Inr (Unchanged ''sha256:1'')"
proof -
  let ?env = "empty_world (constant_registry healthy healthy)"
  have "resolve_digest sample_lib 0 (constant_registry healthy healthy) (parse_reference ''nginx'' ''1.19'') = Inr ''sha256:1''"
    by code_simp
  then have r: "resolve_digest (env_lib ?env) (t_http zero_times) (env_http ?env)
      (parse_reference (i_name (sp_image sample_plan)) (i_tag (sp_image sample_plan))) = Inr ''sha256:1''"
    by (simp add: empty_world_def sample_plan_def sample_image_def zero_times_def)
  have "last_successful_run 1 running_db = None"
    by (simp add: last_successful_run_def running_defs)
  moreover have "i_id (sp_image sample_plan) = 1" by (simp add: sample_plan_def sample_image_def)
  ultimately show ?thesis
    using skip_is_exact [OF sample_prepare r, THEN conjunct1] by simp
qed

text \<open>C14. A scan that works. When the report fits its columns, the job is completed and the image's
  findings become the report's in one transaction; the run carries the digest Trivy reported,
  or the resolved one when it reported none.\<close>

theorem scanned_job_is_completed:
  assumes "prepare env s t job d = Inr (Some plan)" and "perform env s t plan = Inr (Scanned digest report)"
    and "consistent (between d)" and "job \<in> set (scan_jobs (between d))" and "j_status job = RUNNING"
    and "sp_image plan \<in> set (images (between d))"
    and "run_fits (plan_meta plan (str_or (pr_digest report) digest) (t_completed t))" and "report_fits report"
  shows "\<exists>d'. execute env s t between job d = (d', None) \<and>
    image_view d' = (image_view (between d))(i_id (sp_image plan) := report_view report) \<and>
    find_row j_id (j_id job) (scan_jobs d') = Some (complete job) \<and>
    (\<exists>run \<in> set (scan_runs d'). r_image_id run = i_id (sp_image plan) \<and> r_status run = SUCCESS \<and>
       current_run_of d' (i_id (sp_image plan)) = Some (r_id run) \<and>
       r_digest run = Some (str_or (pr_digest report) digest))"
proof -
  let ?img = "sp_image plan" and ?b = "between d" and ?m = "plan_meta plan (str_or (pr_digest report) digest) (t_completed t)"
  have "\<exists>raw. parse_report (env_lib env) raw = Inr report"
    using assms(2) by (auto simp: perform_def Let_def split: sum.splits if_splits)
  then have "distinct (map pf_key (pr_findings report))" using parse_report_distinct by blast
  then have rec: "recording ?img report ?m ?b"
    using recordable_iff [OF assms(3,6)] assms by (simp add: recording_def)
  let ?base = "base_db ?img (Some job) report ?m ?b"
  let ?d1 = "recompute_cve_rollup (affected_cves ?img report ?b) ?base"
  have r: "record_success ?img (Some job) report ?m ?b = Inr (?d1, next_run_id ?b)"
    using rec by (simp add: record_success_eq recording_def)
  have con: "consistent ?d1" by (rule recording_consistent [OF rec])
  have jobs: "scan_jobs ?base = scan_jobs ?b" by (simp add: base_db_def)
  obtain d2 where d2: "save_job job (complete job) ?d1 = Inr d2" "find_row j_id (j_id job) (scan_jobs d2) = Some (complete job)"
    "images d2 = images ?d1" "scan_runs d2 = scan_runs ?d1"
  proof -
    have "job \<in> set (scan_jobs ?d1)" "j_id (complete job) = j_id job" "j_image_id (complete job) = j_image_id job"
      "j_created_at (complete job) = j_created_at job" "active (complete job) \<longrightarrow> active job"
      using assms(4,5) by (simp_all add: jobs complete_def active_def)
    from save_job_fresh [OF consistent_jobs_ok [OF con] this] that show ?thesis by blast
  qed
  have "execute env s t between job d = (d2, None)"
    using assms(1,2) r d2(1) by (simp add: execute_def finish_job_def Let_def write_result_def)
  moreover have "image_view d2 = (image_view ?b)(i_id ?img := report_view report)"
    using save_job_view [OF d2(1)] recorded_view_this [OF rec] recorded_view_other [OF rec]
    by (auto simp: fun_eq_iff)
  moreover have "current_run_of d2 (i_id ?img) = Some (next_run_id ?b)"
    using base_current_run [OF rec, of "Some job" "i_id ?img"] d2(3) by (simp add: current_run_of_def)
  moreover have "set_counts (count_severity (written_rows ?img report ?b)) (new_run ?img (Some job) SUCCESS ?m None (next_run_id ?b))
      \<in> set (scan_runs d2)"
  proof -
    have "r_id (new_run ?img (Some job) SUCCESS ?m None (next_run_id ?b)) = next_run_id ?b" by (simp add: new_run_def)
    then show ?thesis unfolding d2(4) by (simp add: base_db_def update_rows_def)
  qed
  ultimately show ?thesis
    using d2(2)
    by (intro exI [of _ d2] conjI bexI [of _ "set_counts (count_severity (written_rows ?img report ?b))
        (new_run ?img (Some job) SUCCESS ?m None (next_run_id ?b))"])
       (simp_all add: set_counts_def new_run_def plan_meta_def)
qed

theorem scanned_job_is_completed_witness:
  "\<exists>d' report. execute (empty_world (constant_registry healthy healthy)) default_settings zero_times id running_job running_db = (d', None) \<and>
     parse_report sample_lib sample_raw = Inr report \<and> image_view d' 1 = report_view report \<and>
     find_row j_id 1 (scan_jobs d') = Some (complete running_job)"
proof -
  let ?env = "empty_world (constant_registry healthy healthy)"
  let ?report = "\<lparr>pr_digest = None, pr_artifact_name = None,
      pr_findings = [sample_entry ''C1'' HIGH, sample_entry ''C2'' UNKNOWN]\<rparr>"
  have rep: "parse_report sample_lib sample_raw = Inr ?report" by code_simp
  have dig: "resolve_digest sample_lib 0 (constant_registry healthy healthy) (parse_reference ''nginx'' ''1.19'') = Inr ''sha256:1''"
    by code_simp
  have run: "run_scan (env_spawn ?env) (reference sample_image) default_settings = Inr sample_raw"
    by (simp add: run_scan_def run_process_def empty_world_def build_argv_def)
  have p: "perform ?env default_settings zero_times sample_plan = Inr (Scanned ''sha256:1'' ?report)"
    using dig rep run
    by (simp add: perform_def Let_def sample_plan_def zero_times_def) (simp add: empty_world_def sample_image_def is_unchanged_def)
  have b: "consistent (id running_db)" "running_job \<in> set (scan_jobs (id running_db))"
    "j_status running_job = RUNNING" "sp_image sample_plan \<in> set (images (id running_db))"
    using running_consistent by (simp_all add: running_defs sample_plan_def)
  have f: "run_fits (plan_meta sample_plan (str_or (pr_digest ?report) ''sha256:1'') (t_completed zero_times))"
    by code_simp
  have g: "report_fits ?report" by code_simp
  from scanned_job_is_completed [where between = id, OF sample_prepare p b f g]
  obtain d' where d': "execute ?env default_settings zero_times id running_job running_db = (d', None)"
    "image_view d' = (image_view (id running_db))(i_id (sp_image sample_plan) := report_view ?report)"
    "find_row j_id (j_id running_job) (scan_jobs d') = Some (complete running_job)" by blast
  moreover have "i_id (sp_image sample_plan) = 1" "j_id running_job = 1"
    by (simp_all add: sample_plan_def running_defs)
  ultimately show ?thesis using rep by (intro exI [of _ d'] exI [of _ ?report]) simp
qed

section \<open>The end of the process\<close>

definition settled :: "int \<Rightarrow> db \<Rightarrow> bool" where
  "settled k d \<longleftrightarrow> (\<forall>j \<in> set (scan_jobs d). j_id j = k \<longrightarrow> j_status j \<noteq> RUNNING)"

text \<open>Writing back a job that is no longer running settles it: the status is a changed column, or
  the object was read in the same transaction.\<close>

lemma save_job_settles:
  assumes "save_job loaded new d = Inr d'" and "j_status new \<noteq> RUNNING"
    and "j_status loaded = RUNNING \<or> unique_on j_id (scan_jobs d) \<and> loaded \<in> set (scan_jobs d)"
  shows "settled (j_id loaded) d'"
proof -
  have "j_status (merge_job loaded new r) \<noteq> RUNNING" if "r \<in> set (scan_jobs d)" "j_id r = j_id loaded" for r
    using assms(2,3) that unique_onD [of j_id "scan_jobs d" r loaded] by (auto simp: merge_job_def pick_def)
  then show ?thesis
    by (auto simp: settled_def save_job_tables(6) [OF assms(1)] set_update_rows)
qed

lemma rolled_back_shape:
  assumes "consistent d" "j_status job = RUNNING" "rolled_back_job b job d = Some j"
  shows "j_id j = j_id job" "j_status j = RUNNING \<or> unique_on j_id (scan_jobs d) \<and> j \<in> set (scan_jobs d)"
  using assms find_row_SomeD [of j_id "j_id job" "scan_jobs d" j]
  by (auto simp: rolled_back_job_def consistent_def keys_ok_def split: if_splits)

lemma record_job_failure_settles:
  assumes "consistent d" "j_status job = RUNNING" "record_job_failure s b job img e p t d = Inr d'"
  shows "settled (j_id job) d'"
proof -
  from assms(3) obtain j where j: "rolled_back_job b job d = Some j"
    by (auto simp: record_job_failure_def split: option.splits)
  note shape = rolled_back_shape [OF assms(1,2) j]
  let ?new = "fail j (error_message e) (if p then 1 else max_attempts s)
     (backoff_base_seconds s) (backoff_max_seconds s) (t_fail t)"
  obtain d1 where d1: "scan_jobs d1 = scan_jobs d" "save_job j ?new d1 = Inr d'"
  proof (cases "if b then find_row i_id (j_image_id j) (images d) else img")
    case None
    with assms(3) j that [of d] show ?thesis by (simp add: record_job_failure_def Let_def)
  next
    case (Some i)
    let ?r = "record_failure i (Some j) (empty_metadata (t_fail_started t) (t_fail_completed t))
        (error_message e) (j_status ?new = FAILED) d"
    from assms(3) j Some obtain d1 k where r: "?r = Inr (d1, k)"
      by (cases ?r) (auto simp: record_job_failure_def Let_def)
    with assms(3) j Some have "save_job j ?new d1 = Inr d'" by (simp add: record_job_failure_def Let_def)
    moreover have "scan_jobs d1 = scan_jobs d" using failure.quiet [OF r] by (elim exE conjE) simp
    ultimately show ?thesis by (rule that [rotated])
  qed
  from save_job_settles [OF d1(2) exit_fail.not_running] shape show ?thesis by (auto simp: d1(1))
qed

lemma handle_error_settles:
  assumes "consistent d" "j_status job = RUNNING" "handle_error s b job img e t d = Inr d'"
  shows "settled (j_id job) d'"
proof -
  have "settled (j_id job) d'" if dj: "defer_for_backpressure b job e t d = Inr d'"
  proof -
    obtain j where j: "rolled_back_job b job d = Some j"
      "save_job j (defer_job j (int_or (retry_after_of e) DEFAULT_DEFER_SECONDS) (error_message e) (t_fail t)) d = Inr d'"
      using dj by (auto simp: defer_for_backpressure_def queue_defer_def split: option.splits)
    note shape = rolled_back_shape [OF assms(1,2) j(1)]
    from save_job_settles [OF j(2) exit_defer.not_running shape(2)] shape(1) show ?thesis by simp
  qed
  with assms(3) record_job_failure_settles [OF assms(1,2)] show ?thesis
    by (auto simp: handle_error_def split: if_splits)
qed

lemma error_settles:
  assumes "consistent d" "j_status job = RUNNING" "commit d (handle_error s b job img e t d) = (d', None)"
  shows "settled (j_id job) d'"
  using assms(3) handle_error_settles [OF assms(1,2)] by (auto simp: commit_def split: sum.splits)

lemma write_result_settles:
  assumes "j_status job = RUNNING" "write_result plan job t result d = Inr d'"
  shows "settled (j_id job) d'"
proof -
  obtain d1 where "save_job job (complete job) d1 = Inr d'"
    using assms(2) by (auto simp: write_result_def split: sum.splits scan_result.splits)
  from save_job_settles [OF this exit_complete.not_running] assms(1) show ?thesis by simp
qed

lemma execute_settles:
  assumes "consistent d" "consistent (between d)" "j_status job = RUNNING"
    and "execute env s t between job d = (d', None)"
  shows "settled (j_id job) d'"
  using assms(4) error_settles [OF assms(1,3)] error_settles [OF assms(2,3)] write_result_settles [OF assms(3)]
    save_job_settles [of job "complete job" d, OF _ exit_complete.not_running] assms(3)
  by (auto simp: execute_def finish_job_def split: sum.splits option.splits)

lemma run_once_settles:
  assumes "run_once env s t locked after_claim between d = (d', None, True)" and "consistent d"
    and "\<And>x. consistent x \<Longrightarrow> consistent (after_claim x)" "\<And>x. consistent x \<Longrightarrow> consistent (between x)"
    and "snd (claim locked (t_stmt t) (t_claim t) (lease_seconds s) d) = Some job"
  shows "settled (j_id job) d'"
proof -
  obtain d0 where c: "claim locked (t_stmt t) (t_claim t) (lease_seconds s) d = (d0, Some job)"
    using assms(5) by (metis prod.collapse)
  have d0: "consistent (after_claim d0)"
    using clm.keeps_consistent [OF assms(2), of locked "t_stmt t" "t_claim t" "lease_seconds s"] c assms(3) by simp
  have "j_status job = RUNNING" using c by (auto simp: claim_def Let_def split: option.splits)
  moreover have "execute env s t between job (after_claim d0) = (d', None)"
    using assms(1) c by (auto simp: run_once_def split: prod.splits)
  ultimately show ?thesis using execute_settles [where between = between, OF d0 assms(4) [OF d0]] by blast
qed

lemma worker_loop_append:
  "\<forall>w \<in> set pre. \<not> wr_signal w \<Longrightarrow> worker_loop s False (pre @ ws) d =
     (let (_, d0, n0) = worker_loop s False pre d; (ended, d', n) = worker_loop s False ws d0 in (ended, d', n0 + n))"
  by (induction pre arbitrary: d) (auto simp: Let_def split: prod.splits)

text \<open>C9. A signal stops the worker in order. The round under way when the first signal arrives is
  carried to its end, no further round begins and nothing more is claimed, whatever jobs and
  rounds are left, and the process ends. If that round had claimed a job and no error escaped
  it, the job is no longer running: it is done, failed, or back in the queue.\<close>

theorem worker_stops_gracefully:
  assumes "probe_versions (env_lib env) (env_spawn env) (env_fs env) s = Inr versions"
    and "\<forall>v \<in> set pre. \<not> wr_signal v" and "wr_signal w"
    and "worker_loop s False pre d = (False, d0, n0)" and "consistent d0"
    and "\<And>x. consistent x \<Longrightarrow> consistent (wr_after_claim w x)" "\<And>x. consistent x \<Longrightarrow> consistent (wr_between w x)"
  shows "\<exists>d1 did_work. worker_body s w d0 = (d1, did_work) \<and>
    worker_main env s False (pre @ w # post) d = Inr (True, wr_others w d1, if did_work then n0 else Suc n0) \<and>
    (\<forall>job. did_work \<and> snd (claim (wr_locked w) (t_stmt (wr_times w)) (t_claim (wr_times w)) (lease_seconds s) d0) = Some job \<longrightarrow>
       (\<forall>j \<in> set (scan_jobs d1). j_id j = j_id job \<longrightarrow> j_status j \<noteq> RUNNING))"
proof -
  obtain d1 did_work where body: "worker_body s w d0 = (d1, did_work)" by (cases "worker_body s w d0")
  have "worker_loop s True post x = (True, x, 0)" for x by (cases post) simp_all
  then have "worker_main env s False (pre @ w # post) d = Inr (True, wr_others w d1, if did_work then n0 else Suc n0)"
    using assms(1,3,4) body by (simp add: worker_main_def worker_loop_append [OF assms(2)])
  moreover have "settled (j_id job) d1"
    if "did_work" "snd (claim (wr_locked w) (t_stmt (wr_times w)) (t_claim (wr_times w)) (lease_seconds s) d0) = Some job" for job
  proof (rule run_once_settles [OF _ assms(5-7) that(2)])
    show "run_once (wr_env w) s (wr_times w) (wr_locked w) (wr_after_claim w) (wr_between w) d0 = (d1, None, True)"
      using body that(1) by (auto simp: worker_body_def split: if_splits prod.splits option.splits)
  qed
  ultimately show ?thesis using body by (auto simp: settled_def)
qed

definition last_round :: worker_round where
  "last_round = \<lparr>wr_env = empty_world (constant_registry throttled throttled), wr_times = zero_times, wr_locked = [],
     wr_after_claim = id, wr_between = id, wr_others = id, wr_down = False, wr_signal = True\<rparr>"

theorem worker_stops_gracefully_witness:
  "\<exists>d1. worker_main (empty_world (constant_registry silent silent)) default_settings False [last_round, last_round] sample_db = Inr (True, d1, 0) \<and>
     (\<forall>j \<in> set (scan_jobs d1). j_id j = 2 \<longrightarrow> j_status j \<noteq> RUNNING)"
proof -
  have p: "probe_versions (env_lib (empty_world (constant_registry silent silent))) (env_spawn (empty_world (constant_registry silent silent))) (env_fs (empty_world (constant_registry silent silent))) default_settings
      = Inr (''1'', ''unknown'')"
    using probe_world [of "constant_registry silent silent"] by (simp add: empty_world_def)
  have work: "snd (worker_body default_settings last_round sample_db)" by code_simp
  have "case snd (claim [] 0 0 (lease_seconds default_settings) sample_db) of None \<Rightarrow> False | Some j \<Rightarrow> j_id j = 2"
    by code_simp
  then obtain job where job: "snd (claim [] 0 0 (lease_seconds default_settings) sample_db) = Some job" "j_id job = 2"
    by (auto split: option.splits)
  have "\<exists>d1 did_work. worker_body default_settings last_round sample_db = (d1, did_work) \<and>
    worker_main (empty_world (constant_registry silent silent)) default_settings False ([] @ last_round # [last_round]) sample_db
      = Inr (True, wr_others last_round d1, if did_work then 0 else Suc 0) \<and>
    (\<forall>job. did_work \<and> snd (claim (wr_locked last_round) (t_stmt (wr_times last_round)) (t_claim (wr_times last_round))
        (lease_seconds default_settings) sample_db) = Some job \<longrightarrow>
       (\<forall>j \<in> set (scan_jobs d1). j_id j = j_id job \<longrightarrow> j_status j \<noteq> RUNNING))"
    by (rule worker_stops_gracefully [OF p]) (simp_all add: last_round_def sample_consistent)
  then show ?thesis
    using work job by (auto simp: last_round_def zero_times_def)
qed

end
