(* ===== verification/Api.thy ===== *)
theory Api
  imports Queue Config Pyfloat
begin

text \<open>
  The HTTP API (src/app/api/deps.py, schemas.py and routes/): validation of the query
  parameters, the cache validator, and each endpoint as a function of the database. A reply
  is the response model of the code, a 304, or an HTTP error; the order of text in the
  database is that of its collation, given by a sort key (\<open>coll\<close>, as strxfrm gives it); the
  floating-point results of PostgreSQL's percentiles and of the ratios are parameters.
\<close>

section \<open>Replies\<close>

datatype 'a reply =
    NotModified
  | HttpError int string
  | Reply 'a

record 'a page =
  page_items :: "'a list"
  page_total :: int
  page_limit :: int
  page_offset :: int

record severity_counts =
  n_critical :: int
  n_high :: int
  n_medium :: int
  n_low :: int
  n_unknown :: int

definition no_counts :: severity_counts where
  "no_counts = \<lparr>n_critical = 0, n_high = 0, n_medium = 0, n_low = 0, n_unknown = 0\<rparr>"

definition counts_total :: "severity_counts \<Rightarrow> int" where
  "counts_total c = n_critical c + n_high c + n_medium c + n_low c + n_unknown c"

record image_summary =
  is_name :: string
  is_tag :: string
  is_digest :: "string option"
  is_last_scan_at :: "time option"
  is_last_scan_status :: "run_status option"
  is_consecutive_failures :: int
  is_scan_interval_seconds :: int
  is_total_cves :: int
  is_severity_counts :: severity_counts

record cve_in_image =
  ci_cve_id :: string
  ci_title :: "string option"
  ci_severity :: severity
  ci_package :: "string \<times> string \<times> string"
  ci_fixed_version :: "string option"
  ci_first_seen_at :: "time option"
  ci_last_seen_at :: "time option"

record affected_image =
  ai_name :: string
  ai_tag :: string
  ai_digest :: "string option"
  ai_severity :: severity
  ai_package :: "string \<times> string \<times> string"
  ai_fixed_version :: "string option"
  ai_last_seen_at :: "time option"

record cve_summary =
  cs_cve_id :: string
  cs_title :: "string option"
  cs_max_severity :: severity
  cs_published_at :: "time option"
  cs_last_modified_at :: "time option"
  cs_affected_image_count :: int

section \<open>Dependencies\<close>

record page_params =
  pp_limit :: int
  pp_offset :: int

text \<open>FastAPI answers 422 for a limit below 1 or an offset below 0.\<close>

definition get_page_params :: "settings \<Rightarrow> int option \<Rightarrow> int \<Rightarrow> page_params reply" where
  "get_page_params s limit offset =
     (if (case limit of None \<Rightarrow> False | Some l \<Rightarrow> l < 1) \<or> offset < 0 then HttpError 422 []
      else Reply \<lparr>pp_limit = min (int_or limit (page_size_default s)) (page_size_max s), pp_offset = offset\<rparr>)"

definition severity_filter :: "string option \<Rightarrow> severity option reply" where
  "severity_filter sev =
     (case sev of
        None \<Rightarrow> Reply None
      | Some raw \<Rightarrow>
          (case severity_of (upper (strip raw)) of
             Some parsed \<Rightarrow>
               if parsed \<in> set FILTERABLE then Reply (Some parsed)
               else HttpError 400 (''severity must be one of '' @ join '', '' (map severity_value FILTERABLE))
           | None \<Rightarrow> HttpError 400 (''severity must be one of '' @ join '', '' (map severity_value FILTERABLE))))"

text \<open>MAX over the non-null values of a column.\<close>

definition sql_max :: "time option list \<Rightarrow> time option" where
  "sql_max xs = (case List.map_filter (\<lambda>x. x) xs of [] \<Rightarrow> None | t # ts \<Rightarrow> Some (foldl max t ts))"

definition newest_completion :: "db \<Rightarrow> time option" where
  "newest_completion d = sql_max (map r_completed_at (scan_runs d))"

record validators =
  v_etag :: string
  v_last_modified :: string
  v_cache_control :: string

definition etag_of :: "time \<Rightarrow> string" where
  "etag_of newest = ''W/'' @ CHR 0x22 # str_of_int (trunc_seconds newest) @ [CHR 0x22]"

definition apply_freshness ::
    "(time \<Rightarrow> string) \<Rightarrow> string option \<Rightarrow> db \<Rightarrow> validators option \<times> bool" where
  "apply_freshness http_date if_none_match d =
     (case newest_completion d of
        None \<Rightarrow> (None, False)
      | Some newest \<Rightarrow>
          (Some \<lparr>v_etag = etag_of newest, v_last_modified = http_date newest,
                 v_cache_control = ''public, max-age=30''\<rparr>,
           if_none_match = Some (etag_of newest)))"

text \<open>\<open>LIMIT\<close> and \<open>OFFSET\<close>, and the envelope.\<close>

definition slice :: "page_params \<Rightarrow> 'a list \<Rightarrow> 'a list" where
  "slice p xs = take (nat (pp_limit p)) (drop (nat (pp_offset p)) xs)"

definition page_of :: "page_params \<Rightarrow> int \<Rightarrow> 'a list \<Rightarrow> 'a page" where
  "page_of p n items = \<lparr>page_items = items, page_total = n, page_limit = pp_limit p, page_offset = pp_offset p\<rparr>"

section \<open>Images\<close>

definition find_image :: "string \<Rightarrow> string \<Rightarrow> db \<Rightarrow> image option" where
  "find_image name tag d = find_row image_key (name, tag) (images d)"

definition summary_of :: "settings \<Rightarrow> image \<Rightarrow> image_summary" where
  "summary_of s img = \<lparr>is_name = i_name img, is_tag = i_tag img, is_digest = None,
     is_last_scan_at = i_last_scan_at img, is_last_scan_status = i_last_scan_status img,
     is_consecutive_failures = i_consecutive_failures img,
     is_scan_interval_seconds = int_or (i_scan_interval_seconds img) (default_scan_interval_seconds s),
     is_total_cves = 0, is_severity_counts = no_counts\<rparr>"

definition run_counts :: "scan_run \<Rightarrow> severity_counts" where
  "run_counts r = \<lparr>n_critical = int_or (r_finding_count_critical r) 0, n_high = int_or (r_finding_count_high r) 0,
     n_medium = int_or (r_finding_count_medium r) 0, n_low = int_or (r_finding_count_low r) 0,
     n_unknown = int_or (r_finding_count_unknown r) 0\<rparr>"

definition with_run :: "scan_run \<Rightarrow> image_summary \<Rightarrow> image_summary" where
  "with_run r sm = sm\<lparr>is_digest := r_digest r, is_severity_counts := run_counts r,
     is_total_cves := counts_total (run_counts r)\<rparr>"

text \<open>The runs some image points at (the join), restricted to the images of the page; each
  updates the summary of the image it belongs to.\<close>

definition current_runs :: "int list \<Rightarrow> db \<Rightarrow> scan_run list" where
  "current_runs ids d = concat (map (\<lambda>r. map (\<lambda>_. r)
     (filter (\<lambda>i. i_current_scan_run_id i = Some (r_id r) \<and> r_image_id r \<in> set ids) (images d))) (scan_runs d))"

definition list_images ::
    "settings \<Rightarrow> (string \<Rightarrow> string) \<Rightarrow> page_params \<Rightarrow> bool \<Rightarrow> db \<Rightarrow> image_summary page reply" where
  "list_images s coll p not_modified d =
     (if not_modified then NotModified
      else (let imgs = slice p (sort_key (\<lambda>i. (coll (i_name i), coll (i_tag i))) (images d));
                summaries = map (\<lambda>i. (i_id i, summary_of s i)) imgs;
                runs = current_runs (map i_id imgs) d;
                filled = foldl (\<lambda>ss r. map (\<lambda>(k, sm). (k, if k = r_image_id r then with_run r sm else sm)) ss)
                           summaries runs
            in Reply (page_of p (int (length (images d))) (map snd filled))))"

record scan_accepted =
  sa_status :: string
  sa_job_id :: "int option"
  sa_time_sensitive :: bool

text \<open>Only the first two outcomes commit; the third leaves what a rolled-back transaction leaves,
  the advanced sequence.\<close>

definition request_scan ::
    "string \<Rightarrow> string \<Rightarrow> bool \<Rightarrow> time \<Rightarrow> time \<Rightarrow> db \<Rightarrow> sql_error + (db \<times> scan_accepted reply)" where
  "request_scan name tag time_sensitive now txn_ts d =
     (case find_image name tag d of
        None \<Rightarrow> Inr (d, HttpError 404 (''unknown image '' @ name @ '':'' @ tag))
      | Some img \<Rightarrow>
          (case build_enqueue_statement (i_id img)
                  (if time_sensitive then PRIORITY_TIME_SENSITIVE else PRIORITY_SCHEDULED) None now txn_ts d of
             Inl e \<Rightarrow> Inl e
           | Inr (d1, ids) \<Rightarrow>
               (case scalar_one_or_none ids of
                  Inl e \<Rightarrow> Inl e
                | Inr (Some k) \<Rightarrow>
                    Inr (d1, Reply \<lparr>sa_status = ''queued'', sa_job_id = Some k, sa_time_sensitive = time_sensitive\<rparr>)
                | Inr None \<Rightarrow>
                    (let busy = (d1, Reply \<lparr>sa_status = ''already_queued'', sa_job_id = None, sa_time_sensitive = time_sensitive\<rparr>)
                     in if time_sensitive then
                          (let (d2, promoted) = build_promote_statement (i_id img) now d1
                           in (case scalar_one_or_none promoted of
                                 Inl e \<Rightarrow> Inl e
                               | Inr (Some k) \<Rightarrow>
                                   Inr (d2, Reply \<lparr>sa_status = ''promoted'', sa_job_id = Some k, sa_time_sensitive = True\<rparr>)
                               | Inr None \<Rightarrow> Inr busy))
                        else Inr busy))))"

definition image_cve_rows :: "image \<Rightarrow> int \<Rightarrow> severity option \<Rightarrow> db \<Rightarrow> finding list" where
  "image_cve_rows img run_id sev d =
     filter (\<lambda>f. f_image_id f = i_id img \<and> f_last_seen_run_id f = run_id \<and>
       (case sev of None \<Rightarrow> True | Some v \<Rightarrow> f_severity_rank f = rank v)) (findings d)"

text \<open>The four inner joins of one finding; a row without a partner drops out.\<close>

definition cve_in_image_of :: "db \<Rightarrow> finding \<Rightarrow> cve_in_image option" where
  "cve_in_image_of d f =
     (case (find_row c_id (f_cve_id f) (cves d), find_row p_id (f_package_id f) (packages d),
            find_row r_id (f_first_seen_run_id f) (scan_runs d), find_row r_id (f_last_seen_run_id f) (scan_runs d)) of
        (Some c, Some p, Some r1, Some r2) \<Rightarrow> Some
          \<lparr>ci_cve_id = f_cve_id f, ci_title = c_title c, ci_severity = f_severity f,
           ci_package = (p_name p, p_version p, p_type p), ci_fixed_version = f_fixed_version f,
           ci_first_seen_at = r_completed_at r1, ci_last_seen_at = r_completed_at r2\<rparr>
      | _ \<Rightarrow> None)"

text \<open>A join followed by ORDER BY, LIMIT and OFFSET. PostgreSQL leaves open in which order rows with
  the same key come, and may answer differently from one query to the next: \<open>ties p\<close> is the place
  the query for page \<open>p\<close> gives a row among its equals.\<close>

type_synonym tie_breaker = "page_params \<Rightarrow> finding \<Rightarrow> int"

definition joined_page ::
    "tie_breaker \<Rightarrow> (finding \<Rightarrow> 'k::linorder) \<Rightarrow> (finding \<Rightarrow> 'a option) \<Rightarrow> page_params \<Rightarrow> finding list \<Rightarrow> 'a list" where
  "joined_page ties key join_row p fs =
     slice p (map (\<lambda>f. the (join_row f)) (sort_key (\<lambda>f. (key f, ties p f)) (filter (\<lambda>f. join_row f \<noteq> None) fs)))"

definition image_cves ::
    "tie_breaker \<Rightarrow> (string \<Rightarrow> string) \<Rightarrow> string \<Rightarrow> string \<Rightarrow> page_params \<Rightarrow> severity option \<Rightarrow> bool \<Rightarrow> db \<Rightarrow>
     cve_in_image page reply" where
  "image_cves ties coll name tag p sev not_modified d =
     (if not_modified then NotModified
      else case find_image name tag d of
        None \<Rightarrow> HttpError 404 (''unknown image '' @ name @ '':'' @ tag)
      | Some img \<Rightarrow>
          (case i_current_scan_run_id img of
             None \<Rightarrow> Reply (page_of p 0 [])
           | Some run_id \<Rightarrow>
               (let rows = image_cve_rows img run_id sev d
                in Reply (page_of p (int (length rows))
                     (joined_page ties (\<lambda>f. (- f_severity_rank f, coll (f_cve_id f))) (cve_in_image_of d) p rows)))))"

section \<open>CVEs\<close>

definition live_cves :: "severity option \<Rightarrow> db \<Rightarrow> cve list" where
  "live_cves sev d =
     filter (\<lambda>c. 0 < c_affected_image_count c \<and>
       (case sev of None \<Rightarrow> True | Some v \<Rightarrow> c_max_severity_rank c = rank v)) (cves d)"

definition cve_summary_of :: "cve \<Rightarrow> cve_summary" where
  "cve_summary_of c = \<lparr>cs_cve_id = c_id c, cs_title = c_title c, cs_max_severity = c_max_severity c,
     cs_published_at = c_published_at c, cs_last_modified_at = c_last_modified_at c,
     cs_affected_image_count = c_affected_image_count c\<rparr>"

definition list_cves ::
    "(string \<Rightarrow> string) \<Rightarrow> page_params \<Rightarrow> severity option \<Rightarrow> bool \<Rightarrow> db \<Rightarrow> cve_summary page reply" where
  "list_cves coll p sev not_modified d =
     (if not_modified then NotModified
      else (let rows = live_cves sev d
            in Reply (page_of p (int (length rows))
                 (slice p (map cve_summary_of (sort_key (\<lambda>c. (- c_max_severity_rank c, coll (c_id c))) rows))))))"

definition affected_image_of :: "db \<Rightarrow> finding \<Rightarrow> affected_image option" where
  "affected_image_of d f =
     (case (find_row i_id (f_image_id f) (images d), find_row p_id (f_package_id f) (packages d),
            find_row r_id (f_last_seen_run_id f) (scan_runs d)) of
        (Some i, Some p, Some r) \<Rightarrow> Some
          \<lparr>ai_name = i_name i, ai_tag = i_tag i, ai_digest = r_digest r, ai_severity = f_severity f,
           ai_package = (p_name p, p_version p, p_type p), ai_fixed_version = f_fixed_version f,
           ai_last_seen_at = r_completed_at r\<rparr>
      | _ \<Rightarrow> None)"

definition image_name_key :: "(string \<Rightarrow> string) \<Rightarrow> db \<Rightarrow> int \<Rightarrow> string \<times> string" where
  "image_name_key coll d k =
     (case find_row i_id k (images d) of None \<Rightarrow> ([], []) | Some i \<Rightarrow> (coll (i_name i), coll (i_tag i)))"

definition cve_images ::
    "tie_breaker \<Rightarrow> (string \<Rightarrow> string) \<Rightarrow> string \<Rightarrow> page_params \<Rightarrow> bool \<Rightarrow> db \<Rightarrow> affected_image page reply" where
  "cve_images ties coll cid p not_modified d =
     (if not_modified then NotModified
      else if cid \<notin> c_id ` set (cves d) then HttpError 404 (''unknown CVE '' @ cid)
      else (let rows = findings_of_cve d cid
            in Reply (page_of p (int (length rows))
                 (joined_page ties (\<lambda>f. (- f_severity_rank f, image_name_key coll d (f_image_id f)))
                    (affected_image_of d) p rows))))"

section \<open>Health\<close>

record health_report =
  h_status_code :: int
  h_status :: string
  h_database :: string
  h_images_enabled :: "int option"
  h_jobs_pending :: "int option"
  h_last_successful_scan_at :: "time option"

text \<open>None is any exception of the three queries.\<close>

definition health :: "db option \<Rightarrow> health_report" where
  "health db_opt =
     (case db_opt of
        None \<Rightarrow> \<lparr>h_status_code = 503, h_status = ''degraded'', h_database = ''unavailable'',
                 h_images_enabled = None, h_jobs_pending = None, h_last_successful_scan_at = None\<rparr>
      | Some d \<Rightarrow> \<lparr>h_status_code = 200, h_status = ''ok'', h_database = ''ok'',
          h_images_enabled = Some (int (length (filter i_enabled (images d)))),
          h_jobs_pending = Some (int (length (filter (\<lambda>j. j_status j = PENDING) (scan_jobs d)))),
          h_last_successful_scan_at =
            sql_max (map r_completed_at (filter (\<lambda>r. r_status r = SUCCESS) (scan_runs d)))\<rparr>)"

section \<open>Statistics\<close>

definition FAILURE_REASON_LIMIT :: nat where
  "FAILURE_REASON_LIMIT = 10"

record 'f stats_report =
  st_generated_at :: time
  st_window_hours :: int
  st_pending :: int
  st_running :: int
  st_failed_jobs :: int
  st_oldest_pending_age :: "'f option"
  st_images_total :: int
  st_images_enabled :: int
  st_images_never_scanned :: int
  st_images_failing :: int
  st_runs_success :: int
  st_runs_failed :: int
  st_runs_skipped :: int
  st_skip_ratio :: 'f
  st_duration_count :: int
  st_duration_p50 :: "int option"
  st_duration_p95 :: "int option"
  st_duration_max :: "int option"
  st_recent_failures :: "(string \<times> int) list"
  st_findings :: severity_counts

text \<open>The floating-point results: the age of a job in seconds rounded to one digit, the ratio
  rounded to three, and the truncated percentile_cont of a non-empty group.\<close>

record 'f float_ops =
  fl_age :: "time \<Rightarrow> 'f"
  fl_ratio :: "int \<Rightarrow> int \<Rightarrow> 'f"
  fl_zero :: 'f
  fl_percentile :: "int \<Rightarrow> int list \<Rightarrow> int"

text \<open>\<open>split_part(error, ': ', 1)\<close>.\<close>

fun before_sep :: "string \<Rightarrow> string \<Rightarrow> string" where
  "before_sep sep [] = []"
| "before_sep sep (c # cs) = (if starts_with sep (c # cs) then [] else c # before_sep sep cs)"

definition in_window :: "time \<Rightarrow> scan_run \<Rightarrow> bool" where
  "in_window cutoff r = (case r_completed_at r of None \<Rightarrow> False | Some t \<Rightarrow> cutoff \<le> t)"

definition count_jobs :: "job_status \<Rightarrow> db \<Rightarrow> int" where
  "count_jobs st d = int (length (filter (\<lambda>j. j_status j = st) (scan_jobs d)))"

definition count_runs :: "time \<Rightarrow> run_status \<Rightarrow> db \<Rightarrow> int" where
  "count_runs cutoff st d = int (length (filter (\<lambda>r. in_window cutoff r \<and> r_status r = st) (scan_runs d)))"

definition oldest_due :: "time \<Rightarrow> db \<Rightarrow> time option" where
  "oldest_due stmt_ts d =
     (case map j_scheduled_for (filter (\<lambda>j. j_status j = PENDING \<and> j_scheduled_for j \<le> stmt_ts) (scan_jobs d)) of
        [] \<Rightarrow> None
      | t # ts \<Rightarrow> Some (stmt_ts - foldl min t ts))"

definition failure_reasons :: "time \<Rightarrow> db \<Rightarrow> string list" where
  "failure_reasons cutoff d = List.map_filter (\<lambda>r. if r_status r = RUN_FAILED \<and> in_window cutoff r
       then map_option (before_sep '': '') (r_error r) else None) (scan_runs d)"

definition recent_failures :: "(string \<Rightarrow> string) \<Rightarrow> time \<Rightarrow> db \<Rightarrow> (string \<times> int) list" where
  "recent_failures coll cutoff d =
     (let reasons = failure_reasons cutoff d;
          groups = map (\<lambda>x. (x, int (count_list reasons x))) (remdups reasons)
      in take FAILURE_REASON_LIMIT (sort_key (\<lambda>(x, n). (- n, coll x)) groups))"

definition durations :: "time \<Rightarrow> db \<Rightarrow> int list" where
  "durations cutoff d = List.map_filter
     (\<lambda>r. if r_status r = SUCCESS \<and> in_window cutoff r then r_duration_ms r else None) (scan_runs d)"

definition sum_counts :: "(scan_run \<Rightarrow> int option) \<Rightarrow> db \<Rightarrow> int" where
  "sum_counts col d = sum_list (map (\<lambda>r. case col r of None \<Rightarrow> 0 | Some n \<Rightarrow> n)
     (current_runs (map r_image_id (scan_runs d)) d))"

definition stats ::
    "'f float_ops \<Rightarrow> (string \<Rightarrow> string) \<Rightarrow> int \<Rightarrow> time \<Rightarrow> time \<Rightarrow> time \<Rightarrow> db \<Rightarrow> 'f stats_report reply" where
  "stats fl coll window_hours now stmt_ts generated d =
     (if window_hours < 1 \<or> 720 < window_hours then HttpError 422 []
      else (let cutoff = now - seconds (3600 * window_hours);
                ds = durations cutoff d;
                success = count_runs cutoff SUCCESS d; failed = count_runs cutoff RUN_FAILED d;
                skipped = count_runs cutoff SKIPPED d;
                attempts = success + failed + skipped
            in Reply \<lparr>st_generated_at = generated, st_window_hours = window_hours,
                 st_pending = count_jobs PENDING d, st_running = count_jobs RUNNING d, st_failed_jobs = count_jobs FAILED d,
                 st_oldest_pending_age = map_option (fl_age fl) (oldest_due stmt_ts d),
                 st_images_total = int (length (images d)),
                 st_images_enabled = int (length (filter i_enabled (images d))),
                 st_images_never_scanned = int (length (filter (\<lambda>i. i_last_scan_at i = None) (images d))),
                 st_images_failing = int (length (filter (\<lambda>i. 0 < i_consecutive_failures i) (images d))),
                 st_runs_success = success, st_runs_failed = failed, st_runs_skipped = skipped,
                 st_skip_ratio = (if attempts = 0 then fl_zero fl else fl_ratio fl skipped attempts),
                 st_duration_count = int (length ds),
                 st_duration_p50 = (if ds = [] then None else Some (fl_percentile fl 50 ds)),
                 st_duration_p95 = (if ds = [] then None else Some (fl_percentile fl 95 ds)),
                 st_duration_max = (case ds of [] \<Rightarrow> None | t # ts \<Rightarrow> Some (foldl max t ts)),
                 st_recent_failures = recent_failures coll cutoff d,
                 st_findings = \<lparr>n_critical = sum_counts r_finding_count_critical d, n_high = sum_counts r_finding_count_high d,
                   n_medium = sum_counts r_finding_count_medium d, n_low = sum_counts r_finding_count_low d,
                   n_unknown = sum_counts r_finding_count_unknown d\<rparr>\<rparr>))"

end
