(* ===== verification/Api_Specs.thy ===== *)
theory Api_Specs
  imports Api Persist_Specs Queue_Props "HOL-Library.Multiset"
begin

text \<open>
  What the listings of the API promise: a client that walks the pages sees every row once and in
  order (\<open>paged_listing\<close>, fulfilled by the four listings, by those of findings when ties come in
  one order on every page), or at least sees the right keys (\<open>keyed_listing\<close>, fulfilled whatever
  the order of ties), and, on a consistent database, what the rows of each listing are in terms of
  the current findings.
\<close>

section \<open>Pages\<close>

definition items_of :: "'a page reply \<Rightarrow> 'a list" where
  "items_of r = (case r of Reply pg \<Rightarrow> page_items pg | _ \<Rightarrow> [])"

text \<open>A client that asks for \<open>n\<close> pages of a fixed size, each from where the last one ended.\<close>

definition walk :: "(page_params \<Rightarrow> 'a page reply) \<Rightarrow> int \<Rightarrow> nat \<Rightarrow> 'a list" where
  "walk serve lim n =
     concat (map (\<lambda>k. items_of (serve \<lparr>pp_limit = lim, pp_offset = int k * lim\<rparr>)) [0..<n])"

lemma slice_map: "slice p (map f xs) = map f (slice p xs)"
  by (simp add: slice_def take_map drop_map)

lemma slices_join:
  assumes "0 < lim"
  shows "concat (map (\<lambda>k. slice \<lparr>pp_limit = lim, pp_offset = int k * lim\<rparr> xs) [0..<n]) = take (n * nat lim) xs"
proof (induction n)
  case 0
  then show ?case by simp
next
  case (Suc n)
  have "nat (int n * lim) = n * nat lim"
    using assms by (simp add: nat_mult_distrib)
  with Suc show ?case
    by (simp add: slice_def take_add add.commute [of "nat lim"])
qed

text \<open>The contract: on the databases it is stated for, a listing answers every page request with
  the slice of one list of rows and with the length of that list as the total.\<close>

locale paged_listing =
  fixes serve :: "db \<Rightarrow> page_params \<Rightarrow> 'a page reply"
    and rows :: "db \<Rightarrow> 'a list"
    and fits :: "db \<Rightarrow> bool"
  assumes serves: "fits d \<Longrightarrow> serve d p = Reply (page_of p (int (length (rows d))) (slice p (rows d)))"
begin

lemma walk_prefix:
  assumes "fits d" "0 < lim"
  shows "walk (serve d) lim n = take (n * nat lim) (rows d)"
  using slices_join [OF assms(2)] by (simp add: walk_def items_of_def serves [OF assms(1)] page_of_def)

lemma walk_all:
  assumes "fits d" "0 < lim" "int (length (rows d)) \<le> int n * lim"
  shows "walk (serve d) lim n = rows d"
proof -
  have "int n * lim = int (n * nat lim)" using assms(2) by simp
  with assms(3) have "length (rows d) \<le> n * nat lim" by linarith
  then show ?thesis using walk_prefix [OF assms(1,2)] by simp
qed

lemma total: "fits d \<Longrightarrow> serve d p = Reply pg \<Longrightarrow> page_total pg = int (length (rows d))"
  by (auto simp: serves page_of_def)

lemma page_bounded:
  assumes "fits d" "serve d p = Reply pg"
  shows "length (page_items pg) \<le> nat (pp_limit p)"
  using assms by (auto simp: serves page_of_def slice_def)

end

text \<open>The weaker contract of a listing whose rows can tie: whatever the order of equal rows, every page
  has rows of the listing only, and their keys are the slice of one list of keys.\<close>

locale keyed_listing =
  fixes serve :: "db \<Rightarrow> page_params \<Rightarrow> 'a page reply"
    and key :: "'a \<Rightarrow> 'k"
    and keys :: "db \<Rightarrow> 'k list"
    and universe :: "db \<Rightarrow> 'a set"
    and fits :: "db \<Rightarrow> bool"
  assumes serves: "fits d \<Longrightarrow> \<exists>items. serve d p = Reply (page_of p (int (length (keys d))) items) \<and>
    map key items = slice p (keys d) \<and> set items \<subseteq> universe d"
begin

lemma page_items:
  assumes "fits d"
  shows "map key (items_of (serve d p)) = slice p (keys d)" "set (items_of (serve d p)) \<subseteq> universe d"
  using serves [OF assms, of p] by (auto simp: items_of_def page_of_def)

lemma walk_keys:
  assumes "fits d" "0 < lim" "int (length (keys d)) \<le> int n * lim"
  shows "map key (walk (serve d) lim n) = keys d"
proof -
  have "map key (walk (serve d) lim n) = take (n * nat lim) (keys d)"
    using slices_join [OF assms(2)] by (simp add: walk_def map_concat comp_def page_items(1) [OF assms(1)])
  moreover have "int n * lim = int (n * nat lim)" using assms(2) by simp
  ultimately show ?thesis using assms(3) by simp
qed

lemma walk_universe: "fits d \<Longrightarrow> set (walk (serve d) lim n) \<subseteq> universe d"
  using page_items(2) by (fastforce simp: walk_def)

lemma keyed_total: "fits d \<Longrightarrow> serve d p = Reply pg \<Longrightarrow> page_total pg = int (length (keys d))"
  using serves [of d p] by (auto simp: page_of_def)

end

text \<open>A listing without ties is the special case whose keys are the rows themselves.\<close>

sublocale paged_listing \<subseteq> keyed: keyed_listing serve "\<lambda>x. x" rows "\<lambda>d. set (rows d)" fits
  by unfold_locales (auto simp: serves slice_def dest: in_set_takeD in_set_dropD)

section \<open>CVEs\<close>

definition cve_listing :: "(string \<Rightarrow> string) \<Rightarrow> severity option \<Rightarrow> db \<Rightarrow> cve_summary list" where
  "cve_listing coll sev d =
     map cve_summary_of (sort_key (\<lambda>c. (- c_max_severity_rank c, coll (c_id c))) (live_cves sev d))"

interpretation cve_pages: paged_listing "\<lambda>d p. list_cves coll p sev False d" "cve_listing coll sev" "\<lambda>_. True"
  for coll sev
  by unfold_locales (simp add: list_cves_def cve_listing_def Let_def)

text \<open>On a consistent database a CVE is live iff some finding of it is current.\<close>

lemma live_iff:
  assumes "consistent d" "c \<in> set (cves d)"
  shows "0 < c_affected_image_count c \<longleftrightarrow> findings_of_cve d (c_id c) \<noteq> []"
proof -
  have "c_affected_image_count c = current_image_count d (c_id c)"
    using assms by (simp add: consistent_def rollups_ok_def rollup_ok_for_def)
  then show ?thesis
    by (simp add: current_image_count_card card_gt_0_iff)
qed

lemma current_refs:
  assumes "consistent d" "f \<in> set (current_findings d)"
  shows "f \<in> set (findings d)" "f_cve_id f \<in> c_id ` set (cves d)" "f_package_id f \<in> p_id ` set (packages d)"
    "f_image_id f \<in> i_id ` set (images d)" "f_severity_rank f = rank (f_severity f)"
  using assms by (auto simp: consistent_def references_ok_def ranks_ok_def current_findings_def)

lemma sort_key_sorted_wrt: "sorted_wrt (\<lambda>x y. f x \<le> f y) (sort_key f xs)"
  using sorted_sort_key [of f xs] by (simp add: sorted_wrt_map)


section \<open>Images\<close>

lemma filter_only:
  assumes "distinct xs" "a \<in> set xs" "\<And>x. x \<in> set xs \<Longrightarrow> P x \<Longrightarrow> x = a"
  shows "filter P xs = (if P a then [a] else [])"
proof -
  obtain ys zs where xs: "xs = ys @ a # zs" using assms(2) by (auto simp: in_set_conv_decomp)
  have "\<not> P x" if "x \<in> set ys \<union> set zs" for x
    using that assms(1) assms(3) [of x] by (auto simp: xs)
  then have "filter P ys = []" "filter P zs = []" by (simp_all add: filter_empty_conv)
  then show ?thesis by (simp add: xs)
qed

lemma foldl_map: "foldl (\<lambda>ss r. map (F r) ss) ss rs = map (\<lambda>x. foldl (\<lambda>x r. F r x) x rs) ss"
  by (induction rs arbitrary: ss) simp_all

lemma foldl_entry:
  "foldl (\<lambda>x r. case x of (k, sm) \<Rightarrow> (k, if k = g r then h r sm else sm)) (k, sm) rs
    = (k, foldl (\<lambda>sm r. h r sm) sm (filter (\<lambda>r. k = g r) rs))"
  by (induction rs arbitrary: sm) simp_all

lemma foldl_map_entries:
  "foldl (\<lambda>ss r. map (\<lambda>(k, sm). (k, if k = g r then h r sm else sm)) ss) ss rs
    = map (\<lambda>(k, sm). (k, foldl (\<lambda>sm r. h r sm) sm (filter (\<lambda>r. k = g r) rs))) ss"
  unfolding foldl_map by (rule map_cong [OF refl]) (auto simp only: foldl_entry prod.case)

text \<open>The run a consistent database has for an image's pointer, and its counts.\<close>

definition current_run :: "db \<Rightarrow> image \<Rightarrow> scan_run option" where
  "current_run d i = (case i_current_scan_run_id i of None \<Rightarrow> None | Some k \<Rightarrow> find_row r_id k (scan_runs d))"

lemma current_run_SomeD:
  assumes "current_run d i = Some r"
  shows "r \<in> set (scan_runs d)" "i_current_scan_run_id i = Some (r_id r)"
  using assms find_row_SomeD [of r_id _ "scan_runs d" r] by (auto simp: current_run_def split: option.splits)

lemma current_run_owner:
  assumes "consistent d" "i \<in> set (images d)" "r \<in> set (scan_runs d)" "i_current_scan_run_id i = Some (r_id r)"
  shows "r_image_id r = i_id i" "r_status r = SUCCESS"
proof -
  from assms have "success_run_of d (i_id i) (r_id r)"
    by (auto simp: consistent_def pointers_ok_def)
  then obtain r' where r': "r' \<in> set (scan_runs d)" "r_id r' = r_id r" "r_image_id r' = i_id i" "r_status r' = SUCCESS"
    by (auto simp: success_run_of_def)
  moreover have "unique_on r_id (scan_runs d)" using assms(1) by (simp add: consistent_def keys_ok_def)
  ultimately have "r' = r" using assms(3) unique_onD by metis
  with r' show "r_image_id r = i_id i" "r_status r = SUCCESS" by simp_all
qed

lemma current_run_Some_iff:
  assumes "consistent d" "i \<in> set (images d)"
  shows "current_run d i = None \<longleftrightarrow> i_current_scan_run_id i = None"
proof (cases "i_current_scan_run_id i")
  case None
  then show ?thesis by (simp add: current_run_def)
next
  case (Some k)
  with assms have "success_run_of d (i_id i) k" by (auto simp: consistent_def pointers_ok_def)
  with Some show ?thesis
    by (auto simp: current_run_def find_row_None_iff success_run_of_def)
qed

text \<open>The pointer of an image leads to its current run and no other.\<close>

lemma pointed_runs:
  assumes con: "consistent d" and i: "i \<in> set (images d)"
  shows "filter (\<lambda>r. i_current_scan_run_id i = Some (r_id r)) (scan_runs d)
    = (case current_run d i of None \<Rightarrow> [] | Some r \<Rightarrow> [r])"
proof (cases "current_run d i")
  case None
  then have "i_current_scan_run_id i = None" using current_run_Some_iff [OF con i] by simp
  with None show ?thesis by simp
next
  case (Some r)
  have ur: "unique_on r_id (scan_runs d)" using con by (simp add: consistent_def keys_ok_def)
  have "x = r" if "x \<in> set (scan_runs d)" "i_current_scan_run_id i = Some (r_id x)" for x
    using unique_onD [OF ur that(1) current_run_SomeD(1) [OF Some]] that(2) current_run_SomeD(2) [OF Some] by simp
  moreover have "distinct (scan_runs d)" using ur by (simp add: distinct_map)
  ultimately have "filter (\<lambda>r. i_current_scan_run_id i = Some (r_id r)) (scan_runs d)
      = (if i_current_scan_run_id i = Some (r_id r) then [r] else [])"
    by (intro filter_only current_run_SomeD(1) [OF Some])
  with current_run_SomeD(2) [OF Some] Some show ?thesis by simp
qed

text \<open>The join of \<open>list_images\<close> finds for each image of the page exactly its current run.\<close>

lemma concat_filter: "concat (map (\<lambda>x. if p x then [x] else []) xs) = filter p xs"
  by (induction xs) auto

lemma joined_runs:
  assumes con: "consistent d" and i: "i \<in> set (images d)" "i_id i \<in> set ids"
  shows "filter (\<lambda>r. i_id i = r_image_id r) (current_runs ids d) = (case current_run d i of None \<Rightarrow> [] | Some r \<Rightarrow> [r])"
proof -
  have ui: "unique_on i_id (images d)"
    using con by (simp add: consistent_def keys_ok_def)
  have one: "filter (\<lambda>x. i_id i = r_image_id x) (map (\<lambda>_. r)
        (filter (\<lambda>i. i_current_scan_run_id i = Some (r_id r) \<and> r_image_id r \<in> set ids) (images d)))
      = (if i_current_scan_run_id i = Some (r_id r) then [r] else [])" if r: "r \<in> set (scan_runs d)" for r
  proof (cases "i_id i = r_image_id r")
    case True
    have "x = i" if "x \<in> set (images d)" "i_current_scan_run_id x = Some (r_id r)" for x
      using unique_onD [OF ui that(1) i(1)] current_run_owner(1) [OF con that(1) r that(2)] True by simp
    moreover have "distinct (images d)" using ui by (simp add: distinct_map)
    ultimately have "filter (\<lambda>i. i_current_scan_run_id i = Some (r_id r)) (images d)
        = (if i_current_scan_run_id i = Some (r_id r) then [i] else [])"
      by (intro filter_only i)
    with True i(2) show ?thesis by simp
  next
    case False
    then have "i_current_scan_run_id i \<noteq> Some (r_id r)"
      using current_run_owner(1) [OF con i(1) r] by auto
    with False show ?thesis by simp
  qed
  have "filter (\<lambda>r. i_id i = r_image_id r) (current_runs ids d)
      = concat (map (\<lambda>r. if i_current_scan_run_id i = Some (r_id r) then [r] else []) (scan_runs d))"
    unfolding current_runs_def filter_concat map_map
    by (rule arg_cong [of _ _ concat], rule map_cong [OF refl]) (simp only: comp_def one)
  also have "\<dots> = filter (\<lambda>r. i_current_scan_run_id i = Some (r_id r)) (scan_runs d)"
    by (rule concat_filter)
  also have "\<dots> = (case current_run d i of None \<Rightarrow> [] | Some r \<Rightarrow> [r])"
    by (rule pointed_runs [OF con i(1)])
  finally show ?thesis .
qed

text \<open>The row of an image in the listing.\<close>

definition image_row :: "settings \<Rightarrow> db \<Rightarrow> image \<Rightarrow> image_summary" where
  "image_row s d i = (case current_run d i of None \<Rightarrow> summary_of s i | Some r \<Rightarrow> with_run r (summary_of s i))"

definition image_listing :: "settings \<Rightarrow> (string \<Rightarrow> string) \<Rightarrow> db \<Rightarrow> image_summary list" where
  "image_listing s coll d = map (image_row s d) (sort_key (\<lambda>i. (coll (i_name i), coll (i_tag i))) (images d))"

lemma in_slice: "x \<in> set (slice p xs) \<Longrightarrow> x \<in> set xs"
  unfolding slice_def by (meson in_set_dropD in_set_takeD)

interpretation image_pages: paged_listing "\<lambda>d p. list_images s coll p False d" "image_listing s coll" consistent
  for s coll
proof
  fix d p
  assume con: "consistent d"
  let ?imgs = "slice p (sort_key (\<lambda>i. (coll (i_name i), coll (i_tag i))) (images d))"
  have "foldl (\<lambda>sm r. with_run r sm) (summary_of s i)
        (filter (\<lambda>r. i_id i = r_image_id r) (current_runs (map i_id ?imgs) d)) = image_row s d i"
    if "i \<in> set ?imgs" for i
    using joined_runs [OF con, of i "map i_id ?imgs"] in_slice [OF that] that
    by (simp add: image_row_def split: option.splits)
  then have fill: "map (\<lambda>i. foldl (\<lambda>sm r. with_run r sm) (summary_of s i)
        (filter (\<lambda>r. i_id i = r_image_id r) (current_runs (map i_id ?imgs) d))) ?imgs = map (image_row s d) ?imgs"
    by (intro map_cong refl)
  have "list_images s coll p False d = Reply (page_of p (int (length (images d)))
      (map (\<lambda>i. foldl (\<lambda>sm r. with_run r sm) (summary_of s i)
        (filter (\<lambda>r. i_id i = r_image_id r) (current_runs (map i_id ?imgs) d))) ?imgs))"
    by (simp add: list_images_def foldl_map_entries [of r_image_id with_run] comp_def Let_def)
  then show "list_images s coll p False d
      = Reply (page_of p (int (length (image_listing s coll d))) (slice p (image_listing s coll d)))"
    unfolding fill by (simp add: image_listing_def slice_map)
qed


text \<open>The findings of an image that are current, optionally of one severity.\<close>

definition matches :: "severity option \<Rightarrow> severity \<Rightarrow> bool" where
  "matches sev v = (case sev of None \<Rightarrow> True | Some w \<Rightarrow> v = w)"

definition current_of :: "db \<Rightarrow> image \<Rightarrow> severity option \<Rightarrow> finding list" where
  "current_of d i sev = filter (\<lambda>f. f_image_id f = i_id i \<and> matches sev (f_severity f)) (current_findings d)"

lemma current_run_of_image:
  assumes "consistent d" "i \<in> set (images d)"
  shows "current_run_of d (i_id i) = i_current_scan_run_id i"
proof -
  have "unique_on i_id (images d)" using assms(1) by (simp add: consistent_def keys_ok_def)
  with find_row_unique [of i_id "images d" i] assms(2) show ?thesis by (simp add: current_run_of_def)
qed

lemma current_of_none:
  assumes "consistent d" "i \<in> set (images d)" "i_current_scan_run_id i = None"
  shows "current_of d i sev = []"
proof -
  have "\<not> is_current d f" if "f_image_id f = i_id i" for f
    using current_run_of_image [OF assms(1,2)] assms(3) that by (simp add: is_current_def)
  then show ?thesis by (auto simp: current_of_def current_findings_def filter_empty_conv)
qed

lemma current_count_of: "current_count d (i_id i) v = int (length (current_of d i (Some v)))"
  by (simp add: current_count_def current_of_def matches_def)

definition counts_of :: "db \<Rightarrow> image \<Rightarrow> severity_counts" where
  "counts_of d i = \<lparr>n_critical = int (length (current_of d i (Some CRITICAL))),
     n_high = int (length (current_of d i (Some HIGH))), n_medium = int (length (current_of d i (Some MEDIUM))),
     n_low = int (length (current_of d i (Some LOW))), n_unknown = int (length (current_of d i (Some UNKNOWN)))\<rparr>"

lemma length_by_severity:
  "int (length (filter P xs)) = int (length (filter (\<lambda>x. P x \<and> g x = CRITICAL) xs))
     + int (length (filter (\<lambda>x. P x \<and> g x = HIGH) xs)) + int (length (filter (\<lambda>x. P x \<and> g x = MEDIUM) xs))
     + int (length (filter (\<lambda>x. P x \<and> g x = LOW) xs)) + int (length (filter (\<lambda>x. P x \<and> g x = UNKNOWN) xs))"
proof (induction xs)
  case Nil
  then show ?case by simp
next
  case (Cons x xs)
  then show ?case by (cases "g x") simp_all
qed

lemma counts_of_total: "counts_total (counts_of d i) = int (length (current_of d i None))"
  using length_by_severity [of "\<lambda>f. f_image_id f = i_id i" "current_findings d" f_severity]
  by (simp add: counts_total_def counts_of_def current_of_def matches_def)

lemma run_counts_current:
  assumes "consistent d" "i \<in> set (images d)" "current_run d i = Some r"
  shows "run_counts r = counts_of d i"
proof -
  note r = current_run_SomeD [OF assms(3)]
  have "r_finding_count r v = Some (int (length (current_of d i (Some v))))" for v
    using assms(1,2) r by (simp add: consistent_def counts_ok_def current_count_of)
  from this [of CRITICAL] this [of HIGH] this [of MEDIUM] this [of LOW] this [of UNKNOWN]
  show ?thesis by (simp add: run_counts_def counts_of_def)
qed

lemma image_row_fields:
  assumes "consistent d" "i \<in> set (images d)"
  shows "is_name (image_row s d i) = i_name i" "is_tag (image_row s d i) = i_tag i"
    "is_last_scan_at (image_row s d i) = i_last_scan_at i"
    "is_last_scan_status (image_row s d i) = i_last_scan_status i"
    "is_consecutive_failures (image_row s d i) = i_consecutive_failures i"
    "is_severity_counts (image_row s d i) = counts_of d i"
    "is_total_cves (image_row s d i) = int (length (current_of d i None))"
    "is_digest (image_row s d i) = Option.bind (current_run d i) r_digest"
proof -
  have "counts_of d i = no_counts \<and> current_of d i None = []" if "current_run d i = None"
    using that current_run_Some_iff [OF assms] current_of_none [OF assms]
    by (simp add: counts_of_def no_counts_def)
  then show "is_severity_counts (image_row s d i) = counts_of d i"
    "is_total_cves (image_row s d i) = int (length (current_of d i None))"
    using run_counts_current [OF assms] counts_of_total [of d i]
    by (auto simp: image_row_def summary_of_def with_run_def split: option.splits)
qed (auto simp: image_row_def summary_of_def with_run_def split: option.splits)

section \<open>The findings of an image and of a CVE\<close>

lemma run_exists:
  assumes "success_run_of d k rid"
  shows "find_row r_id rid (scan_runs d) \<noteq> None"
  using assms by (auto simp: success_run_of_def find_row_None_iff)

lemma current_joins:
  assumes "consistent d" "f \<in> set (current_findings d)"
  shows "find_row c_id (f_cve_id f) (cves d) \<noteq> None" "find_row p_id (f_package_id f) (packages d) \<noteq> None"
    "find_row i_id (f_image_id f) (images d) \<noteq> None" "find_row r_id (f_first_seen_run_id f) (scan_runs d) \<noteq> None"
    "find_row r_id (f_last_seen_run_id f) (scan_runs d) \<noteq> None"
proof -
  have "f \<in> set (findings d)" using assms(2) by (simp add: current_findings_def)
  then have "success_run_of d (f_image_id f) (f_first_seen_run_id f)" "success_run_of d (f_image_id f) (f_last_seen_run_id f)"
    using assms(1) by (simp_all add: consistent_def pointers_ok_def)
  then show "find_row r_id (f_first_seen_run_id f) (scan_runs d) \<noteq> None"
    "find_row r_id (f_last_seen_run_id f) (scan_runs d) \<noteq> None"
    by (blast dest: run_exists)+
qed (use current_refs [OF assms] in \<open>simp_all only: find_row_None_iff not_not\<close>)

lemma joined_page_all:
  assumes "\<And>f. f \<in> set fs \<Longrightarrow> join_row f \<noteq> None"
  shows "joined_page ties key join_row p fs
    = slice p (map (\<lambda>f. the (join_row f)) (sort_key (\<lambda>f. (key f, ties p f)) fs))"
proof -
  have "filter (\<lambda>f. join_row f \<noteq> None) fs = fs" using assms by (simp add: filter_id_conv)
  then show ?thesis by (simp add: joined_page_def)
qed

text \<open>Ties never show in the keys.\<close>

lemma map_key_ties: "map key (sort_key (\<lambda>f. (key f, ties f)) fs) = map key (sort_key key fs)"
proof -
  have "sorted (map key (sort_key (\<lambda>f. (key f, ties f)) fs))"
    using sort_key_sorted_wrt [of "\<lambda>f. (key f, ties f)" fs]
    unfolding sorted_map by (rule sorted_wrt_mono_rel [rotated]) (auto simp: less_eq_prod_def)
  moreover have "mset (map key (sort_key (\<lambda>f. (key f, ties f)) fs)) = mset (map key (sort_key key fs))"
    by simp
  ultimately show ?thesis
    by (metis properties_for_sort sorted_sort_key)
qed

text \<open>A page of a join, row by row, and through the keys of its rows.\<close>

lemma joined_page_keys:
  assumes "\<And>f. f \<in> set fs \<Longrightarrow> join_row f \<noteq> None"
    and "\<And>f. f \<in> set fs \<Longrightarrow> row_key (the (join_row f)) = conv (key f)"
  shows "map row_key (joined_page ties key join_row p fs) = slice p (map conv (map key (sort_key key fs)))"
    and "set (joined_page ties key join_row p fs) \<subseteq> (\<lambda>f. the (join_row f)) ` set fs"
proof -
  have "map row_key (map (\<lambda>f. the (join_row f)) (sort_key (\<lambda>f. (key f, ties p f)) fs))
      = map conv (map key (sort_key (\<lambda>f. (key f, ties p f)) fs))"
    using assms(2) by simp
  then show "map row_key (joined_page ties key join_row p fs) = slice p (map conv (map key (sort_key key fs)))"
    using joined_page_all [of fs join_row ties key p] assms(1) map_key_ties [of key "ties p" fs]
    by (simp add: slice_map [symmetric] del: map_map)
  show "set (joined_page ties key join_row p fs) \<subseteq> (\<lambda>f. the (join_row f)) ` set fs"
    using joined_page_all [of fs join_row ties key p] assms(1) by (auto dest: in_slice)
qed

definition finding_order :: "(string \<Rightarrow> string) \<Rightarrow> finding \<Rightarrow> int \<times> string" where
  "finding_order coll f = (- f_severity_rank f, coll (f_cve_id f))"

text \<open>The rows in the order of one and the same tie breaker for all pages, and the keys in the order
  that every tie breaker gives.\<close>

definition image_cve_listing ::
    "(finding \<Rightarrow> int) \<Rightarrow> (string \<Rightarrow> string) \<Rightarrow> image \<Rightarrow> severity option \<Rightarrow> db \<Rightarrow> cve_in_image list" where
  "image_cve_listing tie coll i sev d =
     map (\<lambda>f. the (cve_in_image_of d f)) (sort_key (\<lambda>f. (finding_order coll f, tie f)) (current_of d i sev))"

definition row_order :: "(string \<Rightarrow> string) \<Rightarrow> cve_in_image \<Rightarrow> int \<times> string" where
  "row_order coll e = (- rank (ci_severity e), coll (ci_cve_id e))"

definition image_cve_keys :: "(string \<Rightarrow> string) \<Rightarrow> image \<Rightarrow> severity option \<Rightarrow> db \<Rightarrow> (int \<times> string) list" where
  "image_cve_keys coll i sev d = map (finding_order coll) (sort_key (finding_order coll) (current_of d i sev))"

lemma image_cve_rows_current:
  assumes "consistent d" "i \<in> set (images d)" "i_current_scan_run_id i = Some rid"
  shows "image_cve_rows i rid sev d = current_of d i sev"
proof -
  have "f_severity_rank f = rank (f_severity f)" if "f \<in> set (findings d)" for f
    using that assms(1) by (simp add: consistent_def ranks_ok_def)
  moreover have "is_current d f \<longleftrightarrow> f_last_seen_run_id f = rid" if "f_image_id f = i_id i" for f
    using current_run_of_image [OF assms(1,2)] assms(3) that by (auto simp: is_current_def)
  ultimately show ?thesis
    unfolding image_cve_rows_def current_of_def current_findings_def filter_filter
    by (intro filter_cong refl) (auto simp: matches_def split: option.splits)
qed

lemma find_image_SomeD: "find_image name tag d = Some i \<Longrightarrow> i \<in> set (images d) \<and> i_name i = name \<and> i_tag i = tag"
  using find_row_SomeD [of image_key "(name, tag)" "images d" i] by (simp add: find_image_def image_key_def)

lemma cve_in_image_total: "consistent d \<Longrightarrow> f \<in> set (current_findings d) \<Longrightarrow> cve_in_image_of d f \<noteq> None"
  using current_joins [of d f] by (auto simp: cve_in_image_of_def split: option.splits)

lemma affected_image_total: "consistent d \<Longrightarrow> f \<in> set (current_findings d) \<Longrightarrow> affected_image_of d f \<noteq> None"
  using current_joins [of d f] by (auto simp: affected_image_of_def split: option.splits)

lemma row_order_of_finding:
  assumes "consistent d" "f \<in> set (current_findings d)"
  shows "row_order coll (the (cve_in_image_of d f)) = finding_order coll f"
  using current_joins [OF assms] current_refs(5) [OF assms]
  by (auto simp: row_order_def finding_order_def cve_in_image_of_def split: option.splits)

interpretation image_cve_pages: paged_listing "\<lambda>d p. image_cves (\<lambda>_. tie) coll name tag p sev False d"
    "image_cve_listing tie coll img sev" "\<lambda>d. consistent d \<and> find_image name tag d = Some img"
  for tie coll name tag sev img
proof
  fix d p
  assume fits: "consistent d \<and> find_image name tag d = Some img"
  then have i: "img \<in> set (images d)" using find_image_SomeD by blast
  show "image_cves (\<lambda>_. tie) coll name tag p sev False d
      = Reply (page_of p (int (length (image_cve_listing tie coll img sev d))) (slice p (image_cve_listing tie coll img sev d)))"
  proof (cases "i_current_scan_run_id img")
    case None
    with fits current_of_none [OF _ i None] show ?thesis
      by (simp add: image_cves_def image_cve_listing_def slice_def)
  next
    case (Some rid)
    have "joined_page (\<lambda>_. tie) (finding_order coll) (cve_in_image_of d) p (current_of d img sev)
        = slice p (image_cve_listing tie coll img sev d)"
      using fits cve_in_image_total [of d]
      by (subst joined_page_all) (auto simp: current_of_def image_cve_listing_def)
    with fits Some image_cve_rows_current [OF _ i Some] show ?thesis
      by (simp add: image_cves_def image_cve_listing_def finding_order_def [abs_def] Let_def)
  qed
qed

interpretation image_cve_keyed: keyed_listing "\<lambda>d p. image_cves ties coll name tag p sev False d"
    "row_order coll" "image_cve_keys coll img sev" "\<lambda>d. (\<lambda>f. the (cve_in_image_of d f)) ` set (current_of d img sev)"
    "\<lambda>d. consistent d \<and> find_image name tag d = Some img"
  for ties coll name tag sev img
proof
  fix d p
  assume fits: "consistent d \<and> find_image name tag d = Some img"
  then have i: "img \<in> set (images d)" using find_image_SomeD by blast
  let ?U = "(\<lambda>f. the (cve_in_image_of d f)) ` set (current_of d img sev)"
  have cur: "f \<in> set (current_findings d)" if "f \<in> set (current_of d img sev)" for f
    using that by (simp add: current_of_def)
  show "\<exists>items. image_cves ties coll name tag p sev False d = Reply (page_of p (int (length (image_cve_keys coll img sev d))) items) \<and>
      map (row_order coll) items = slice p (image_cve_keys coll img sev d) \<and> set items \<subseteq> ?U"
  proof (cases "i_current_scan_run_id img")
    case None
    with fits current_of_none [OF _ i None] show ?thesis
      by (simp add: image_cves_def image_cve_keys_def slice_def)
  next
    case (Some rid)
    let ?items = "joined_page ties (finding_order coll) (cve_in_image_of d) p (current_of d img sev)"
    have "map (row_order coll) ?items = slice p (image_cve_keys coll img sev d)" "set ?items \<subseteq> ?U"
      using joined_page_keys [of "current_of d img sev" "cve_in_image_of d" "row_order coll" "\<lambda>x. x" "finding_order coll" ties p]
        cve_in_image_total [of d] row_order_of_finding [of d] fits cur
      by (simp_all add: image_cve_keys_def)
    with fits Some image_cve_rows_current [OF _ i Some] show ?thesis
      by (intro exI [of _ ?items]) (simp add: image_cves_def image_cve_keys_def finding_order_def [abs_def] Let_def)
  qed
qed

definition affected_order :: "(string \<Rightarrow> string) \<Rightarrow> db \<Rightarrow> finding \<Rightarrow> int \<times> string \<times> string" where
  "affected_order coll d f = (- f_severity_rank f, image_name_key coll d (f_image_id f))"

definition affected_listing :: "(finding \<Rightarrow> int) \<Rightarrow> (string \<Rightarrow> string) \<Rightarrow> string \<Rightarrow> db \<Rightarrow> affected_image list" where
  "affected_listing tie coll cid d =
     map (\<lambda>f. the (affected_image_of d f)) (sort_key (\<lambda>f. (affected_order coll d f, tie f)) (findings_of_cve d cid))"

definition affected_row_order :: "(string \<Rightarrow> string) \<Rightarrow> affected_image \<Rightarrow> int \<times> string \<times> string" where
  "affected_row_order coll e = (- rank (ai_severity e), coll (ai_name e), coll (ai_tag e))"

definition affected_keys :: "(string \<Rightarrow> string) \<Rightarrow> string \<Rightarrow> db \<Rightarrow> (int \<times> string \<times> string) list" where
  "affected_keys coll cid d = map (affected_order coll d) (sort_key (affected_order coll d) (findings_of_cve d cid))"

lemma affected_order_of_finding:
  assumes "consistent d" "f \<in> set (current_findings d)"
  shows "affected_row_order coll (the (affected_image_of d f)) = affected_order coll d f"
  using current_joins [OF assms] current_refs(5) [OF assms]
  by (auto simp: affected_row_order_def affected_order_def affected_image_of_def image_name_key_def split: option.splits)

interpretation affected_pages: paged_listing "\<lambda>d p. cve_images (\<lambda>_. tie) coll cid p False d"
    "affected_listing tie coll cid" "\<lambda>d. consistent d \<and> cid \<in> c_id ` set (cves d)"
  for tie coll cid
proof
  fix d p
  assume fits: "consistent d \<and> cid \<in> c_id ` set (cves d)"
  have "joined_page (\<lambda>_. tie) (affected_order coll d) (affected_image_of d) p (findings_of_cve d cid)
      = slice p (affected_listing tie coll cid d)"
    using fits affected_image_total [of d]
    by (subst joined_page_all) (auto simp: findings_of_cve_def affected_listing_def)
  with fits show "cve_images (\<lambda>_. tie) coll cid p False d
      = Reply (page_of p (int (length (affected_listing tie coll cid d))) (slice p (affected_listing tie coll cid d)))"
    by (simp add: cve_images_def affected_listing_def affected_order_def [abs_def] Let_def)
qed

interpretation affected_keyed: keyed_listing "\<lambda>d p. cve_images ties coll cid p False d"
    "affected_row_order coll" "affected_keys coll cid" "\<lambda>d. (\<lambda>f. the (affected_image_of d f)) ` set (findings_of_cve d cid)"
    "\<lambda>d. consistent d \<and> cid \<in> c_id ` set (cves d)"
  for ties coll cid
proof
  fix d p
  assume fits: "consistent d \<and> cid \<in> c_id ` set (cves d)"
  let ?U = "(\<lambda>f. the (affected_image_of d f)) ` set (findings_of_cve d cid)"
  let ?items = "joined_page ties (affected_order coll d) (affected_image_of d) p (findings_of_cve d cid)"
  have cur: "f \<in> set (current_findings d)" if "f \<in> set (findings_of_cve d cid)" for f
    using that by (simp add: findings_of_cve_def)
  have "map (affected_row_order coll) ?items = slice p (affected_keys coll cid d)" "set ?items \<subseteq> ?U"
    using joined_page_keys [of "findings_of_cve d cid" "affected_image_of d" "affected_row_order coll" "\<lambda>x. x"
        "affected_order coll d" ties p]
      affected_image_total [of d] affected_order_of_finding [of d] fits cur
    by (simp_all add: affected_keys_def)
  with fits show "\<exists>items. cve_images ties coll cid p False d = Reply (page_of p (int (length (affected_keys coll cid d))) items) \<and>
      map (affected_row_order coll) items = slice p (affected_keys coll cid d) \<and> set items \<subseteq> ?U"
    by (intro exI [of _ ?items]) (simp add: cve_images_def affected_keys_def affected_order_def [abs_def] Let_def)
qed

end
