(* ===== verification/Api_Props.thy ===== *)
theory Api_Props
  imports Api_Specs Persist_Props
begin

text \<open>
  The properties of the API on a consistent database: what each listing shows in terms of the
  current findings, that its pages partition it, what an on-demand scan request does to the
  queue, and what the cache validator can and cannot tell apart.
\<close>

section \<open>CVEs\<close>

text \<open>The severity a CVE has over the current findings.\<close>

definition worst_severity :: "db \<Rightarrow> string \<Rightarrow> severity" where
  "worst_severity d cid = Max (f_severity ` set (findings_of_cve d cid))"

lemma rank_mono: "mono rank"
  by (simp add: mono_def less_eq_severity_def)

lemma live_severity:
  assumes "consistent d" "c \<in> set (cves d)" "findings_of_cve d (c_id c) \<noteq> []"
  shows "c_max_severity c = worst_severity d (c_id c)"
proof -
  let ?F = "set (findings_of_cve d (c_id c))"
  have ranks: "f_severity_rank ` ?F = rank ` f_severity ` ?F"
    unfolding image_image
    by (rule image_cong) (use current_refs(5) [OF assms(1)] in \<open>auto simp: findings_of_cve_def\<close>)
  have "rank (c_max_severity c) = c_max_severity_rank c"
    using assms(1,2) by (simp add: consistent_def ranks_ok_def)
  also have "\<dots> = Max (insert 0 (f_severity_rank ` ?F))"
    unfolding current_rank_Max [symmetric]
    using assms(1,2) by (simp add: consistent_def rollups_ok_def rollup_ok_for_def)
  also have "\<dots> = Max (insert 0 (rank ` f_severity ` ?F))" by (simp only: ranks)
  also have "\<dots> = max 0 (Max (rank ` f_severity ` ?F))"
    using assms(3) by (intro Max_insert) simp_all
  also have "Max (rank ` f_severity ` ?F) = rank (worst_severity d (c_id c))"
    unfolding worst_severity_def using assms(3) by (intro mono_Max_commute [symmetric] rank_mono) simp_all
  finally show ?thesis by simp
qed

lemma live_cves_iff:
  assumes "consistent d"
  shows "c \<in> set (live_cves sev d) \<longleftrightarrow>
    c \<in> set (cves d) \<and> findings_of_cve d (c_id c) \<noteq> [] \<and> matches sev (worst_severity d (c_id c))"
  using live_iff [OF assms, of c] live_severity [OF assms, of c] assms
  by (auto simp: live_cves_def matches_def consistent_def ranks_ok_def split: option.splits)

lemma live_cves_ids:
  assumes "consistent d"
  shows "c_id ` set (live_cves sev d) = {cid. findings_of_cve d cid \<noteq> [] \<and> matches sev (worst_severity d cid)}"
    (is "_ = ?S")
proof (intro equalityI subsetI)
  fix cid
  assume "cid \<in> c_id ` set (live_cves sev d)"
  then show "cid \<in> ?S" using live_cves_iff [OF assms] by auto
next
  fix cid
  assume cid: "cid \<in> ?S"
  then obtain f where f: "f \<in> set (current_findings d)" "f_cve_id f = cid"
    by (auto simp: findings_of_cve_def filter_empty_conv)
  from current_refs(2) [OF assms f(1)] f(2) obtain c where "c \<in> set (cves d)" "c_id c = cid" by auto
  with cid have "c \<in> set (live_cves sev d)" by (simp add: live_cves_iff [OF assms])
  with \<open>c_id c = cid\<close> show "cid \<in> c_id ` set (live_cves sev d)" by blast
qed

text \<open>C6. The CVE listing, walked page by page with any page size, gives every CVE that some current
  finding has (of the severity asked for) exactly once, and no other; the severity shown is the
  worst over its current findings in all images and the count is the number of images that
  have it now; the worst severities come first, equal ones ordered by identifier.\<close>

theorem list_cves_shows_live_cves:
  assumes "consistent d" and "0 < lim" and "int (length (cves d)) \<le> int n * lim"
    and "out = walk (\<lambda>p. list_cves coll p sev False d) lim n"
  shows "distinct (map cs_cve_id out) \<and>
    cs_cve_id ` set out = {cid. findings_of_cve d cid \<noteq> [] \<and> matches sev (worst_severity d cid)} \<and>
    (\<forall>e \<in> set out. cs_max_severity e = worst_severity d (cs_cve_id e) \<and>
       cs_affected_image_count e = int (card (f_image_id ` set (findings_of_cve d (cs_cve_id e))))) \<and>
    sorted_wrt (\<lambda>a b. cs_max_severity b \<le> cs_max_severity a \<and>
       (cs_max_severity a = cs_max_severity b \<longrightarrow> coll (cs_cve_id a) \<le> coll (cs_cve_id b))) out"
proof -
  let ?cs = "sort_key (\<lambda>c. (- c_max_severity_rank c, coll (c_id c))) (live_cves sev d)"
  have "length (live_cves sev d) \<le> length (cves d)" by (simp add: live_cves_def)
  with assms(3) have "int (length (cve_listing coll sev d)) \<le> int n * lim"
    by (simp add: cve_listing_def)
  then have out: "out = map cve_summary_of ?cs"
    using cve_pages.walk_all [OF TrueI assms(2)] assms(4) by (simp add: cve_listing_def)
  have ids: "map cs_cve_id out = map c_id ?cs" by (simp add: out cve_summary_of_def)
  have "distinct (map c_id (live_cves sev d))"
    using assms(1) by (auto simp: consistent_def keys_ok_def live_cves_def distinct_map intro: inj_on_subset)
  then have dist: "distinct (map cs_cve_id out)"
    unfolding ids by (simp add: distinct_map)
  have all: "cs_cve_id ` set out = c_id ` set (live_cves sev d)"
    using arg_cong [OF ids, of set] by simp
  have each: "cs_max_severity e = worst_severity d (cs_cve_id e) \<and>
      cs_affected_image_count e = int (card (f_image_id ` set (findings_of_cve d (cs_cve_id e))))" if "e \<in> set out" for e
  proof -
    from that obtain c where c: "e = cve_summary_of c" "c \<in> set (live_cves sev d)" by (auto simp: out)
    then have mem: "c \<in> set (cves d)" "findings_of_cve d (c_id c) \<noteq> []"
      using live_cves_iff [OF assms(1)] by blast+
    then have "c_affected_image_count c = current_image_count d (c_id c)"
      using assms(1) by (simp add: consistent_def rollups_ok_def rollup_ok_for_def)
    with live_severity [OF assms(1) mem] c(1) show ?thesis
      by (simp add: cve_summary_of_def current_image_count_card)
  qed
  have rk: "c_max_severity_rank c = rank (c_max_severity c)" if "c \<in> set ?cs" for c
    using that assms(1) live_cves_iff [OF assms(1)] by (auto simp: consistent_def ranks_ok_def)
  have "sorted_wrt (\<lambda>a b. cs_max_severity b \<le> cs_max_severity a \<and>
      (cs_max_severity a = cs_max_severity b \<longrightarrow> coll (cs_cve_id a) \<le> coll (cs_cve_id b))) out"
    unfolding out sorted_wrt_map
  proof (rule sorted_wrt_mono_rel [OF _ sort_key_sorted_wrt])
    fix a b
    assume ab: "a \<in> set ?cs" "b \<in> set ?cs"
      and le: "(- c_max_severity_rank a, coll (c_id a)) \<le> (- c_max_severity_rank b, coll (c_id b))"
    show "cs_max_severity (cve_summary_of b) \<le> cs_max_severity (cve_summary_of a) \<and>
      (cs_max_severity (cve_summary_of a) = cs_max_severity (cve_summary_of b) \<longrightarrow>
         coll (cs_cve_id (cve_summary_of a)) \<le> coll (cs_cve_id (cve_summary_of b)))"
      using le unfolding rk [OF ab(1)] rk [OF ab(2)]
      by (auto simp: cve_summary_of_def less_eq_severity_def less_eq_prod_def)
  qed
  with dist all each show ?thesis
    by (intro conjI ballI) (simp_all only: live_cves_ids [OF assms(1)])
qed

theorem list_cves_shows_live_cves_witness:
  "cs_cve_id ` set (walk (\<lambda>p. list_cves id p (Some HIGH) False once_db) 1 2)
     = {cid. findings_of_cve once_db cid \<noteq> [] \<and> worst_severity once_db cid = HIGH}"
proof -
  have "map c_id (cves once_db) = [''A'', ''B'']" by code_simp
  from arg_cong [OF this, of length] have "int (length (cves once_db)) \<le> int 2 * 1" by simp
  from list_cves_shows_live_cves [OF once_consistent _ this refl, of id "Some HIGH"]
  show ?thesis by (simp add: matches_def)
qed

section \<open>Images\<close>

text \<open>C12. The image listing, walked page by page, gives every image exactly once, ordered by name
  and tag. The counts it shows per severity, read from the denormalised columns of one run, are
  the numbers of current findings of the image, its total is the number of all of them, and the
  digest is that of the run they come from (none before the first success).\<close>

theorem list_images_counts_current_findings:
  assumes "consistent d" and "0 < lim" and "int (length (images d)) \<le> int n * lim"
    and "out = walk (\<lambda>p. list_images s coll p False d) lim n"
  shows "\<exists>imgs. distinct imgs \<and> set imgs = set (images d) \<and>
    sorted (map (\<lambda>i. (coll (i_name i), coll (i_tag i))) imgs) \<and>
    list_all2 (\<lambda>i e. is_name e = i_name i \<and> is_tag e = i_tag i \<and>
      is_consecutive_failures e = i_consecutive_failures i \<and> is_last_scan_status e = i_last_scan_status i \<and>
      is_severity_counts e = counts_of d i \<and> is_total_cves e = int (length (current_of d i None)) \<and>
      is_digest e = Option.bind (current_run d i) r_digest) imgs out"
proof (intro exI conjI)
  let ?imgs = "sort_key (\<lambda>i. (coll (i_name i), coll (i_tag i))) (images d)"
  have out: "out = map (image_row s d) ?imgs"
    using image_pages.walk_all [OF assms(1,2)] assms(3,4) by (simp add: image_listing_def)
  show "distinct ?imgs"
    using assms(1) by (simp add: consistent_def keys_ok_def distinct_map)
  show "set ?imgs = set (images d)" by simp
  show "sorted (map (\<lambda>i. (coll (i_name i), coll (i_tag i))) ?imgs)" by simp
  show "list_all2 (\<lambda>i e. is_name e = i_name i \<and> is_tag e = i_tag i \<and>
      is_consecutive_failures e = i_consecutive_failures i \<and> is_last_scan_status e = i_last_scan_status i \<and>
      is_severity_counts e = counts_of d i \<and> is_total_cves e = int (length (current_of d i None)) \<and>
      is_digest e = Option.bind (current_run d i) r_digest) ?imgs out"
    unfolding out list_all2_map2
    by (rule list.rel_refl_strong) (use image_row_fields [OF assms(1)] in simp)
qed

theorem list_images_counts_current_findings_witness:
  "\<exists>imgs. set imgs = set (images once_db) \<and> list_all2 (\<lambda>i e. is_severity_counts e = counts_of once_db i) imgs
     (walk (\<lambda>p. list_images default_settings id p False once_db) 1 2)"
proof -
  have "map i_id (images once_db) = [1, 2]" by code_simp
  from arg_cong [OF this, of length] have "int (length (images once_db)) \<le> int 2 * 1" by simp
  from list_images_counts_current_findings [OF once_consistent _ this refl, where s = default_settings and coll = id]
  show ?thesis by (auto elim!: list_all2_mono)
qed

definition entry_of_row :: "cve_in_image \<Rightarrow> view_entry" where
  "entry_of_row e = (ci_cve_id e, ci_package e, ci_severity e, ci_fixed_version e)"

lemma entry_of_finding:
  assumes "consistent d" "f \<in> set (current_findings d)"
  shows "entry_of_row (the (cve_in_image_of d f)) = view_entry_of d f"
  using current_joins [OF assms]
  by (auto simp: entry_of_row_def cve_in_image_of_def view_entry_of_def package_of_def package_key_def split: option.splits)

text \<open>C20. The CVEs of an image, walked page by page, worst severity first and equal ones by identifier.
  In whatever order PostgreSQL returns rows that tie, and even when it changes from page to page,
  every row is one of the image's current findings (of the severity asked for), no finding is
  lost in the four joins, there are as many rows as findings, and the severities and identifiers
  shown are exactly those of the findings, each as often as it occurs; the total on every page
  is the number the image listing shows for that severity. When ties come in the same order on
  every page, each finding is shown exactly once; only the findings of one CVE in several
  packages tie.\<close>

theorem image_cves_shows_image_view:
  assumes "consistent d" and "find_image name tag d = Some img" and "0 < lim"
    and "int (length (findings d)) \<le> int n * lim"
    and "out = walk (\<lambda>p. image_cves ties coll name tag p sev False d) lim n"
  shows "set (map entry_of_row out) \<subseteq> {e \<in> image_view d (i_id img). matches sev (fst (snd (snd e)))} \<and>
    sorted_wrt (\<lambda>a b. ci_severity b \<le> ci_severity a \<and>
      (ci_severity a = ci_severity b \<longrightarrow> coll (ci_cve_id a) \<le> coll (ci_cve_id b))) out \<and>
    mset (map (\<lambda>e. (ci_severity e, coll (ci_cve_id e))) out)
      = mset (map (\<lambda>f. (f_severity f, coll (f_cve_id f))) (current_of d img sev)) \<and>
    ((\<forall>p q. ties p = ties q) \<longrightarrow>
      mset (map entry_of_row out) = mset (map (view_entry_of d) (current_of d img sev)) \<and>
      set (map entry_of_row out) = {e \<in> image_view d (i_id img). matches sev (fst (snd (snd e)))}) \<and>
    length out = length (current_of d img sev) \<and>
    (\<forall>p pg. image_cves ties coll name tag p sev False d = Reply pg \<longrightarrow> page_total pg =
       (case sev of None \<Rightarrow> counts_total (counts_of d img) | Some v \<Rightarrow> current_count d (i_id img) v))"
proof -
  let ?F = "current_of d img sev"
  have fits: "consistent d \<and> find_image name tag d = Some img" using assms(1,2) by simp
  have "length ?F \<le> length (findings d)" by (simp add: current_of_def current_findings_def)
  with assms(4) have enough: "int (length ?F) \<le> int n * lim" by simp
  have mem: "f \<in> set (current_findings d)" if "f \<in> set ?F" for f using that by (simp add: current_of_def)
  have keys: "map (row_order coll) out = image_cve_keys coll img sev d"
    using image_cve_keyed.walk_keys [OF fits assms(3)] enough assms(5) by (simp add: image_cve_keys_def)
  have view: "view_entry_of d ` set ?F = {e \<in> image_view d (i_id img). matches sev (fst (snd (snd e)))}"
    by (auto simp: image_view_def current_of_def view_entry_of_def)
  have entries: "map entry_of_row (map (\<lambda>f. the (cve_in_image_of d f)) fs) = map (view_entry_of d) fs"
    if "set fs \<subseteq> set ?F" for fs
    using that entry_of_finding [OF assms(1) mem] by auto
  have subset: "set (map entry_of_row out) \<subseteq> {e \<in> image_view d (i_id img). matches sev (fst (snd (snd e)))}"
    using image_cve_keyed.walk_universe [OF fits] entry_of_finding [OF assms(1) mem]
    unfolding view [symmetric] assms(5) by fastforce
  have sorted: "sorted_wrt (\<lambda>a b. row_order coll a \<le> row_order coll b) out"
    using sort_key_sorted_wrt [of "finding_order coll" ?F] unfolding sorted_wrt_map [symmetric] keys
    by (simp add: image_cve_keys_def sorted_wrt_map)
  have order: "sorted_wrt (\<lambda>a b. ci_severity b \<le> ci_severity a \<and>
      (ci_severity a = ci_severity b \<longrightarrow> coll (ci_cve_id a) \<le> coll (ci_cve_id b))) out"
    by (rule sorted_wrt_mono_rel [OF _ sorted]) (auto simp: row_order_def less_eq_severity_def less_eq_prod_def)
  have rk: "f_severity_rank f = rank (f_severity f)" if "f \<in> set ?F" for f
    using current_refs(5) [OF assms(1) mem [OF that]] .
  let ?unkey = "\<lambda>(r, c). (rank_name (- r), c :: string)"
  have "map (\<lambda>e. (ci_severity e, coll (ci_cve_id e))) out = map ?unkey (map (row_order coll) out)"
    by (simp add: row_order_def rank_name_def)
  also have "\<dots> = map ?unkey (map (finding_order coll) (sort_key (finding_order coll) ?F))"
    unfolding keys by (simp add: image_cve_keys_def)
  also have "\<dots> = map (\<lambda>f. (f_severity f, coll (f_cve_id f))) (sort_key (finding_order coll) ?F)"
    using rk by (simp add: finding_order_def rank_name_def)
  finally have shown: "mset (map (\<lambda>e. (ci_severity e, coll (ci_cve_id e))) out)
      = mset (map (\<lambda>f. (f_severity f, coll (f_cve_id f))) ?F)" by simp
  have exact: "mset (map entry_of_row out) = mset (map (view_entry_of d) ?F)" if same: "\<forall>p q. ties p = ties q"
  proof -
    have t: "ties = (\<lambda>_. ties p)" for p using same by blast
    then obtain tie where "ties = (\<lambda>_. tie)" by blast
    then have "out = map (\<lambda>f. the (cve_in_image_of d f)) (sort_key (\<lambda>f. (finding_order coll f, tie f)) ?F)"
      using image_cve_pages.walk_all [OF fits assms(3), where tie = tie and coll = coll and sev = sev and n = n] enough assms(5)
      by (simp add: image_cve_listing_def)
    then have "map entry_of_row out = map (view_entry_of d) (sort_key (\<lambda>f. (finding_order coll f, tie f)) ?F)"
      using entries [of "sort_key (\<lambda>f. (finding_order coll f, tie f)) ?F"] by (simp del: map_map)
    then have "mset (map entry_of_row out) = mset (map (view_entry_of d) (sort_key (\<lambda>f. (finding_order coll f, tie f)) ?F))"
      by (rule arg_cong)
    then show ?thesis by simp
  qed
  have total: "page_total pg = (case sev of None \<Rightarrow> counts_total (counts_of d img) | Some v \<Rightarrow> current_count d (i_id img) v)"
    if "image_cves ties coll name tag p sev False d = Reply pg" for p pg
  proof -
    have "page_total pg = int (length ?F)"
      using image_cve_keyed.keyed_total [OF fits that] by (simp add: image_cve_keys_def)
    then show ?thesis by (cases sev) (simp_all add: counts_of_total current_count_of)
  qed
  have "set (map entry_of_row out) = {e \<in> image_view d (i_id img). matches sev (fst (snd (snd e)))}"
    if "\<forall>p q. ties p = ties q"
    using mset_eq_setD [OF exact [OF that]] view by simp
  moreover have "length out = length ?F" using arg_cong [OF keys, of length] by (simp add: image_cve_keys_def)
  ultimately show ?thesis using subset order shown exact total by blast
qed

theorem image_cves_shows_image_view_witness:
  "set (map entry_of_row (walk (\<lambda>p. image_cves (\<lambda>_. f_id) id ''nginx'' ''1'' p None False once_db) 1 2)) = image_view once_db 1 \<and>
   sorted_wrt (\<lambda>a b. ci_severity b \<le> ci_severity a)
     (walk (\<lambda>p. image_cves (\<lambda>_. f_id) id ''nginx'' ''1'' p None False once_db) 1 2)"
proof -
  have img: "map_option i_id (find_image ''nginx'' ''1'' once_db) = Some 1" by code_simp
  then obtain img where "find_image ''nginx'' ''1'' once_db = Some img" "i_id img = 1" by blast
  moreover have "map f_id (findings once_db) = [1, 2]" by code_simp
  from arg_cong [OF this, of length] have "int (length (findings once_db)) \<le> int 2 * 1" by simp
  ultimately show ?thesis
    using image_cves_shows_image_view [OF once_consistent _ _ _ refl, of "''nginx''" "''1''" img 1 2 "\<lambda>_. f_id" id None]
    by (auto simp: matches_def elim: sorted_wrt_mono_rel [rotated])
qed

text \<open>When ties may come in another order on another page, a walk can show one finding twice and
  another never: one CVE in two packages, one row a page.\<close>

definition two_packages :: parsed_report where
  "two_packages = report_of [finding_on ''A'' HIGH, (finding_on ''A'' HIGH)\<lparr>pf_package_name := ''y''\<rparr>]"

definition tied_db :: db where
  "tied_db = (case record_success img1 None two_packages (meta_at 5) fresh_db of Inr (d, _) \<Rightarrow> d | Inl _ \<Rightarrow> fresh_db)"

theorem changing_ties_repeat_and_miss:
  "length (current_findings tied_db) = 2 \<and>
   map ci_package (walk (\<lambda>p. image_cves (\<lambda>p f. if pp_offset p = 0 then f_id f else - f_id f) id
       ''nginx'' ''1'' p None False tied_db) 1 2) = [(''z'', ''1'', ''deb''), (''z'', ''1'', ''deb'')]"
  by code_simp

section \<open>From a CVE back to the images\<close>






section \<open>Requesting a scan\<close>

lemma request_when_idle:
  assumes "consistent d" "find_image name tag d = Some img" "active_job_of d (i_id img) = None"
  shows "\<exists>d'. request_scan name tag urgent now ts d = Inr (d',
      Reply \<lparr>sa_status = ''queued'', sa_job_id = Some (next_job_id d), sa_time_sensitive = urgent\<rparr>) \<and> consistent d' \<and>
    active_job_of d' = (active_job_of d)(i_id img \<mapsto>
      queued_job d (i_id img) (if urgent then PRIORITY_TIME_SENSITIVE else PRIORITY_SCHEDULED) None now ts)"
proof -
  let ?k = "i_id img"
  let ?prio = "if urgent then PRIORITY_TIME_SENSITIVE else PRIORITY_SCHEDULED"
  have img: "?k \<in> i_id ` set (images d)" using find_image_SomeD [OF assms(2)] by blast
  from enqueue_statement_free [OF consistent_jobs_ok [OF assms(1)] img assms(3), of ?prio None now ts] obtain d'
    where e: "build_enqueue_statement ?k ?prio None now ts d = Inr (d', [next_job_id d])"
      and act: "active_job_of d' = (active_job_of d)(?k \<mapsto> queued_job d ?k ?prio None now ts)" by blast
  have "consistent d'"
    using enq.keeps_consistent [OF assms(1), of ?k ?prio None now ts] e by simp
  with e act assms(2) show ?thesis by (simp add: request_scan_def)
qed

lemma request_when_busy:
  assumes "consistent d" "find_image name tag d = Some img" "active_job_of d (i_id img) = Some j"
  shows "\<exists>d'. consistent d' \<and>
    (if urgent \<and> j_status j = PENDING \<and> j_priority j < PRIORITY_TIME_SENSITIVE
     then request_scan name tag urgent now ts d = Inr (d',
         Reply \<lparr>sa_status = ''promoted'', sa_job_id = Some (j_id j), sa_time_sensitive = True\<rparr>) \<and>
       active_job_of d' = (active_job_of d)(i_id img \<mapsto> promoted_job now j)
     else request_scan name tag urgent now ts d = Inr (d',
         Reply \<lparr>sa_status = ''already_queued'', sa_job_id = None, sa_time_sensitive = urgent\<rparr>) \<and>
       active_job_of d' = active_job_of d)"
proof -
  let ?k = "i_id img"
  let ?prio = "if urgent then PRIORITY_TIME_SENSITIVE else PRIORITY_SCHEDULED"
  let ?d = "d\<lparr>next_job_id := next_job_id d + 1\<rparr>" and ?p = "build_promote_statement (i_id img) now (d\<lparr>next_job_id := next_job_id d + 1\<rparr>)"
  have lane: "j_status j = PENDING \<and> j_priority j < PRIORITY_TIME_SENSITIVE \<longleftrightarrow> promotable ?k j"
    using assms(3) active_job_of_Some_iff [OF consistent_jobs_ok [OF assms(1)]] by (auto simp: promotable_def)
  note busy = enqueue_statement_busy [of d ?k]
  have e: "build_enqueue_statement ?k ?prio None now ts d = Inr (?d, [])"
    using busy(1) assms(3) by simp
  have same: "active_job_of ?d = active_job_of d"
    using busy(2) assms(3) by simp
  have con: "consistent ?d"
    using enq.keeps_consistent [OF assms(1), of ?k ?prio None now ts] e by simp
  note djobs = consistent_jobs_ok [OF con]
  have ids: "snd ?p = (if promotable ?k j then [j_id j] else [])"
    using promoted_ids [OF djobs, of ?k] assms(3) same by (simp add: build_promote_statement_def)
  have "consistent (fst ?p)" by (rule prom.keeps_consistent [OF con])
  moreover have "active_job_of (fst ?p) = (active_job_of d)(?k \<mapsto> promoted_job now j)" if "promotable ?k j"
    using promote_statement_jobs [OF djobs, of ?k now] assms(3) same that by simp
  ultimately show ?thesis
    unfolding lane using e ids con same assms(2)
    by (intro exI [of _ "if urgent \<and> promotable ?k j then fst ?p else ?d"])
       (auto simp: request_scan_def split_beta Let_def)
qed

text \<open>C15. A scan request for a known image always succeeds and never queues a duplicate. With no
  active job it queues one, due at once, in the lane asked for; an urgent request for an image
  whose pending job is in the ordinary lane promotes that job; every other request leaves the
  queue as it is and says so. A job id that is returned is that of the image's active job.\<close>

theorem request_scan_outcomes:
  assumes "consistent d" and "find_image name tag d = Some img"
  shows "\<exists>d' r. request_scan name tag urgent now ts d = Inr (d', Reply r) \<and> consistent d' \<and>
    sa_time_sensitive r = urgent \<and>
    (case active_job_of d (i_id img) of
       None \<Rightarrow> sa_status r = ''queued'' \<and> sa_job_id r = Some (next_job_id d) \<and>
         active_job_of d' = (active_job_of d)(i_id img \<mapsto>
           queued_job d (i_id img) (if urgent then PRIORITY_TIME_SENSITIVE else PRIORITY_SCHEDULED) None now ts)
     | Some j \<Rightarrow>
         if urgent \<and> j_status j = PENDING \<and> j_priority j < PRIORITY_TIME_SENSITIVE
         then sa_status r = ''promoted'' \<and> sa_job_id r = Some (j_id j) \<and>
           active_job_of d' = (active_job_of d)(i_id img \<mapsto> promoted_job now j)
         else sa_status r = ''already_queued'' \<and> sa_job_id r = None \<and> active_job_of d' = active_job_of d)"
proof (cases "active_job_of d (i_id img)")
  case None
  with request_when_idle [OF assms None, of urgent now ts] show ?thesis by auto
next
  case (Some j)
  from request_when_busy [OF assms Some, of urgent now ts] obtain d' where
    "consistent d'" "if urgent \<and> j_status j = PENDING \<and> j_priority j < PRIORITY_TIME_SENSITIVE
     then request_scan name tag urgent now ts d = Inr (d',
         Reply \<lparr>sa_status = ''promoted'', sa_job_id = Some (j_id j), sa_time_sensitive = True\<rparr>) \<and>
       active_job_of d' = (active_job_of d)(i_id img \<mapsto> promoted_job now j)
     else request_scan name tag urgent now ts d = Inr (d',
         Reply \<lparr>sa_status = ''already_queued'', sa_job_id = None, sa_time_sensitive = urgent\<rparr>) \<and>
       active_job_of d' = active_job_of d" by blast
  with Some show ?thesis by (auto split: if_splits)
qed

theorem request_scan_outcomes_witness:
  "\<exists>d' r. request_scan ''nginx'' ''1'' True 9 9 once_db = Inr (d', Reply r) \<and> sa_status r = ''queued'' \<and> consistent d'"
proof -
  have "map_option i_id (find_image ''nginx'' ''1'' once_db) = Some 1" by code_simp
  then obtain img where "find_image ''nginx'' ''1'' once_db = Some img" "i_id img = 1" by blast
  moreover have "active_job_of once_db 1 = None" by code_simp
  ultimately show ?thesis
    using request_scan_outcomes [OF once_consistent, of "''nginx''" "''1''" img True 9 9] by auto
qed

section \<open>The cache validator\<close>

lemma newest_completion_Max:
  "newest_completion d = (let S = {t. \<exists>r \<in> set (scan_runs d). r_completed_at r = Some t} in
     if S = {} then None else Some (Max S))"
proof -
  let ?ts = "List.map_filter (\<lambda>x. x) (map r_completed_at (scan_runs d))"
  have set: "set ?ts = {t. \<exists>r \<in> set (scan_runs d). r_completed_at r = Some t}"
    by (auto simp: List.map_filter_def image_iff) (metis option.sel option.distinct(1))
  have "foldl max t ts = Max (set (t # ts))" for t :: time and ts
    by (simp only: Max.set_eq_fold foldl_conv_fold) (simp add: max.commute fold_cong fun_eq_iff)
  then have "sql_max (map r_completed_at (scan_runs d)) = (if set ?ts = {} then None else Some (Max (set ?ts)))"
    by (cases ?ts) (simp_all add: sql_max_def)
  then show ?thesis by (simp add: newest_completion_def set Let_def)
qed

lemma etag_of_inject: "etag_of t = etag_of u \<longleftrightarrow> trunc_seconds t = trunc_seconds u"
proof -
  show ?thesis by (simp add: etag_of_def str_of_int_inject)
qed

text \<open>A client that revalidates with the tag it was given gets a 304 exactly when the newest
  completion of any run, failed and skipped ones included, lies in the same whole second as
  the one its tag was made from. So a run that completes in a later second always invalidates.\<close>

theorem not_modified_iff_same_second:
  "snd (apply_freshness http_date (Some (etag_of seen)) d) \<longleftrightarrow>
     (\<exists>r \<in> set (scan_runs d). \<exists>t. r_completed_at r = Some t \<and> trunc_seconds t = trunc_seconds seen \<and>
        (\<forall>r' \<in> set (scan_runs d). \<forall>t'. r_completed_at r' = Some t' \<longrightarrow> t' \<le> t))"
proof -
  let ?S = "{t. \<exists>r \<in> set (scan_runs d). r_completed_at r = Some t}"
  have fin: "finite ?S"
    by (rule finite_subset [of _ "(\<lambda>r. the (r_completed_at r)) ` set (scan_runs d)"]) force+
  have "snd (apply_freshness http_date (Some (etag_of seen)) d)
      \<longleftrightarrow> ?S \<noteq> {} \<and> trunc_seconds (Max ?S) = trunc_seconds seen"
    by (simp add: apply_freshness_def newest_completion_Max etag_of_inject eq_commute Let_def)
  also have "\<dots> \<longleftrightarrow> (\<exists>t \<in> ?S. trunc_seconds t = trunc_seconds seen \<and> (\<forall>t' \<in> ?S. t' \<le> t))"
    using Max_in [OF fin] Max_ge [OF fin] by (metis (no_types, lifting) Max_eqI fin empty_iff)
  finally show ?thesis by blast
qed

theorem not_modified_iff_same_second_witness:
  "snd (apply_freshness (\<lambda>_. []) (Some (etag_of 7)) once_db) \<longleftrightarrow> trunc_seconds 1005 = trunc_seconds 7"
proof -
  have "map r_completed_at (scan_runs once_db) = [Some 1005]" by code_simp
  then obtain r where runs: "scan_runs once_db = [r]" "r_completed_at r = Some 1005" by auto
  show ?thesis
    unfolding not_modified_iff_same_second by (simp add: runs)
qed

text \<open>The tag has whole seconds only. Two scans that complete within one second leave the same tag,
  so a client that saw the first is told by a 304 that nothing changed, while the listing it
  would have been given is a different one.\<close>

theorem second_scan_in_same_second_unseen:
  "newest_completion once_db = Some 1005 \<and>
   record_success once_img None report2 (meta_at 50) once_db = Inr (twice_db, 2) \<and>
   snd (apply_freshness http_date (Some (etag_of 1005)) twice_db) \<and>
   map cs_cve_id (items_of (list_cves id \<lparr>pp_limit = 10, pp_offset = 0\<rparr> None False once_db)) = [''A'', ''B''] \<and>
   map cs_cve_id (items_of (list_cves id \<lparr>pp_limit = 10, pp_offset = 0\<rparr> None False twice_db)) = [''B'']"
proof (intro conjI)
  show "newest_completion once_db = Some 1005" by code_simp
  show "record_success once_img None report2 (meta_at 50) once_db = Inr (twice_db, 2)" by (rule twice_eq)
  have "newest_completion twice_db = Some 1050" by code_simp
  moreover have "trunc_seconds 1050 = trunc_seconds 1005" by code_simp
  ultimately show "snd (apply_freshness http_date (Some (etag_of 1005)) twice_db)"
    by (simp add: apply_freshness_def etag_of_inject)
  show "map cs_cve_id (items_of (list_cves id \<lparr>pp_limit = 10, pp_offset = 0\<rparr> None False once_db)) = [''A'', ''B'']"
    by code_simp
  show "map cs_cve_id (items_of (list_cves id \<lparr>pp_limit = 10, pp_offset = 0\<rparr> None False twice_db)) = [''B'']"
    by code_simp
qed

end
