(* ===== verification/Stats_Props.thy ===== *)
theory Stats_Props
  imports Api_Specs Persist_Props
begin

text \<open>
  What the statistics endpoint (src/app/api/routes/stats.py) promises: the totals it sums from the
  denormalised columns are those of the current findings, its counts add up, and the failure
  reasons it lists are the most frequent ones.
\<close>

section \<open>The totals of the current runs\<close>

lemma sum_if_filter: "sum_list (map (\<lambda>x. if p x then g x else (0::int)) xs) = sum_list (map g (filter p xs))"
  by (induction xs) simp_all

lemma sum_join:
  fixes c :: "'r \<Rightarrow> int"
  shows "sum_list (map c (concat (map (\<lambda>r. map (\<lambda>_. r) (filter (\<lambda>x. P x r) xs)) rs)))
    = sum_list (map (\<lambda>x. sum_list (map c (filter (P x) rs))) xs)"
proof (induction rs)
  case (Cons r rs)
  have "sum_list (map c (map (\<lambda>_. r) (filter (\<lambda>x. P x r) xs))) = sum_list (map (\<lambda>x. if P x r then c r else 0) xs)"
    unfolding sum_if_filter by (simp add: comp_def)
  then show ?case
    by (simp add: Cons.IH sum_list_addf [symmetric] if_distrib [of "\<lambda>y. y + _"] comp_def)
       (rule arg_cong [of _ _ sum_list], simp)
qed simp

text \<open>Counting the rows of a list by an owner each has exactly once.\<close>

lemma count_by_owner:
  assumes "distinct (map key xs)" "\<And>f. f \<in> set fs \<Longrightarrow> owner f \<in> key ` set xs"
  shows "sum_list (map (\<lambda>x. int (length (filter (\<lambda>f. owner f = key x) fs))) xs) = int (length fs)"
  using assms(2)
proof (induction fs)
  case Nil
  then show ?case by (simp add: sum_list_triv)
next
  case (Cons f fs)
  have "sum_list (map (\<lambda>x. if owner f = key x then 1 else (0::int)) xs) = 1"
  proof -
    from Cons.prems [of f] obtain x where x: "x \<in> set xs" "owner f = key x" by auto
    have "filter (\<lambda>y. owner f = key y) xs = [x]"
    proof (subst filter_only)
      show "distinct xs" using assms(1) by (simp add: distinct_map)
      show "y = x" if "y \<in> set xs" "owner f = key y" for y
        using unique_onD [OF assms(1) that(1) x(1)] that(2) x(2) by simp
    qed (simp_all add: x)
    then show ?thesis unfolding sum_if_filter by simp
  qed
  moreover have "sum_list (map (\<lambda>x. int (length (filter (\<lambda>f. owner f = key x) (f # fs)))) xs)
      = sum_list (map (\<lambda>x. (if owner f = key x then 1 else 0) + int (length (filter (\<lambda>f. owner f = key x) fs))) xs)"
    by (rule arg_cong [of _ _ sum_list]) simp
  ultimately show ?case using Cons by (simp add: sum_list_addf)
qed

lemma sum_counts_current:
  assumes con: "consistent d" and col: "\<And>r. r \<in> set (scan_runs d) \<Longrightarrow> col r = r_finding_count r v"
  shows "sum_counts col d = int (length (filter (\<lambda>f. f_severity f = v) (current_findings d)))"
proof -
  let ?c = "\<lambda>r. case col r of None \<Rightarrow> 0 | Some n \<Rightarrow> n"
  have "sum_counts col d = sum_list (map (\<lambda>i. sum_list (map ?c
      (filter (\<lambda>r. i_current_scan_run_id i = Some (r_id r) \<and> r_image_id r \<in> set (map r_image_id (scan_runs d))) (scan_runs d)))) (images d))"
    unfolding sum_counts_def current_runs_def by (rule sum_join)
  also have "\<dots> = sum_list (map (\<lambda>i. int (length (filter (\<lambda>f. f_image_id f = i_id i)
      (filter (\<lambda>f. f_severity f = v) (current_findings d))))) (images d))"
  proof (rule arg_cong [of _ _ sum_list], rule map_cong [OF refl])
    fix i
    assume i: "i \<in> set (images d)"
    have "filter (\<lambda>r. i_current_scan_run_id i = Some (r_id r) \<and> r_image_id r \<in> set (map r_image_id (scan_runs d))) (scan_runs d)
        = filter (\<lambda>r. i_current_scan_run_id i = Some (r_id r)) (scan_runs d)"
      by (rule filter_cong) auto
    also have "\<dots> = (case current_run d i of None \<Rightarrow> [] | Some r \<Rightarrow> [r])" by (rule pointed_runs [OF con i])
    finally have runs: "filter (\<lambda>r. i_current_scan_run_id i = Some (r_id r) \<and> r_image_id r \<in> set (map r_image_id (scan_runs d))) (scan_runs d)
        = (case current_run d i of None \<Rightarrow> [] | Some r \<Rightarrow> [r])" .
    have "sum_list (map ?c (case current_run d i of None \<Rightarrow> [] | Some r \<Rightarrow> [r])) = current_count d (i_id i) v"
    proof (cases "current_run d i")
      case None
      with current_run_Some_iff [OF con i] current_of_none [OF con i] show ?thesis
        by (simp add: current_count_of)
    next
      case (Some r)
      note r = current_run_SomeD [OF Some]
      have "col r = Some (current_count d (i_id i) v)"
        using con i r by (simp add: col consistent_def counts_ok_def)
      with Some show ?thesis by simp
    qed
    also have "\<dots> = int (length (filter (\<lambda>f. f_image_id f = i_id i) (filter (\<lambda>f. f_severity f = v) (current_findings d))))"
      by (simp add: current_count_def conj_commute)
    finally show "sum_list (map ?c (filter (\<lambda>r. i_current_scan_run_id i = Some (r_id r)
        \<and> r_image_id r \<in> set (map r_image_id (scan_runs d))) (scan_runs d)))
      = int (length (filter (\<lambda>f. f_image_id f = i_id i) (filter (\<lambda>f. f_severity f = v) (current_findings d))))"
      unfolding runs .
  qed
  also have "\<dots> = int (length (filter (\<lambda>f. f_severity f = v) (current_findings d)))"
    by (rule count_by_owner) (use keys_okD(1) [OF consistentD(1) [OF con]] current_refs(4) [OF con] in auto)
  finally show ?thesis .
qed

section \<open>The most frequent reasons\<close>

text \<open>How often a reason occurs among the failed runs of the window.\<close>

definition reason_count :: "time \<Rightarrow> db \<Rightarrow> string \<Rightarrow> nat" where
  "reason_count cutoff d x = length (filter (\<lambda>r. r_status r = RUN_FAILED \<and> in_window cutoff r \<and>
     map_option (before_sep '': '') (r_error r) = Some x) (scan_runs d))"

lemma count_map_filter: "count_list (List.map_filter f xs) x = length (filter (\<lambda>y. f y = Some x) xs)"
  by (induction xs) (simp_all add: List.map_filter_simps split: option.splits)

lemma reason_count_list: "count_list (failure_reasons cutoff d) x = reason_count cutoff d x"
  unfolding failure_reasons_def count_map_filter reason_count_def
  by (rule arg_cong [of _ _ length], rule filter_cong) auto

lemma take_sorted_least:
  fixes key :: "'a \<Rightarrow> 'k::linorder"
  assumes "x \<in> set (take k (sort_key key xs))" "y \<in> set xs" "y \<notin> set (take k (sort_key key xs))"
  shows "key x \<le> key y"
proof -
  have "y \<in> set (take k (sort_key key xs) @ drop k (sort_key key xs))" using assms(2) by simp
  with assms(3) have y: "y \<in> set (drop k (sort_key key xs))" by (simp only: set_append) blast
  have "sorted (map key (take k (sort_key key xs) @ drop k (sort_key key xs)))" by simp
  then have "\<forall>a \<in> set (map key (take k (sort_key key xs))). \<forall>b \<in> set (map key (drop k (sort_key key xs))). a \<le> b"
    by (simp only: map_append sorted_append) blast
  with assms(1) y show ?thesis by auto
qed

lemma recent_failures_top:
  assumes "out = recent_failures coll cutoff d"
  shows "length out \<le> 10" "distinct (map fst out)" "sorted_wrt (\<ge>) (map snd out)"
    "\<And>x n. (x, n) \<in> set out \<Longrightarrow> n = int (reason_count cutoff d x) \<and> 0 < n"
    "\<And>x n y. (x, n) \<in> set out \<Longrightarrow> y \<notin> fst ` set out \<Longrightarrow> int (reason_count cutoff d y) \<le> n"
proof -
  let ?reasons = "failure_reasons cutoff d"
  let ?groups = "map (\<lambda>x. (x, int (count_list ?reasons x))) (remdups ?reasons)"
  let ?key = "\<lambda>(x, n). (- n, coll x)"
  have out: "out = take 10 (sort_key ?key ?groups)"
    by (simp add: assms recent_failures_def FAILURE_REASON_LIMIT_def Let_def)
  show "length out \<le> 10" by (simp add: out)
  have fsts: "map fst ?groups = remdups ?reasons" by (simp add: comp_def)
  have "distinct (map fst (sort_key ?key ?groups))"
  proof -
    have "distinct (map fst ?groups)" unfolding fsts by simp
    then have "distinct ?groups" "inj_on fst (set ?groups)" by (simp_all only: distinct_map)
    then show ?thesis by (simp only: distinct_map distinct_sort set_sort)
  qed
  then show "distinct (map fst out)" unfolding out take_map [symmetric] by (rule distinct_take)
  have "sorted_wrt (\<lambda>a b. snd a \<ge> snd b) (sort_key ?key ?groups)"
    by (rule sorted_wrt_mono_rel [OF _ sort_key_sorted_wrt]) (auto simp: less_eq_prod_def split: prod.splits)
  then have "sorted_wrt (\<lambda>a b. snd a \<ge> snd b) out" unfolding out by (rule sorted_wrt_take)
  then show "sorted_wrt (\<ge>) (map snd out)" by (simp add: sorted_wrt_map)
  have mem: "n = int (count_list ?reasons x) \<and> x \<in> set ?reasons" if "(x, n) \<in> set out" for x n
    using in_set_takeD [OF that [unfolded out]] by auto
  show "n = int (reason_count cutoff d x) \<and> 0 < n" if "(x, n) \<in> set out" for x n
    using mem [OF that] reason_count_list [of cutoff d x] count_list_0_iff [of ?reasons x] by auto
  show "int (reason_count cutoff d y) \<le> n" if "(x, n) \<in> set out" "y \<notin> fst ` set out" for x n y
  proof (cases "y \<in> set ?reasons")
    case True
    let ?y = "(y, int (count_list ?reasons y))"
    have "?y \<in> set ?groups" using True by simp
    moreover have "?y \<notin> set out" using that(2) by force
    ultimately have "?key (x, n) \<le> ?key ?y"
      using take_sorted_least [of "(x, n)" 10 ?key ?groups ?y] that(1) unfolding out by blast
    then show ?thesis by (auto simp: reason_count_list less_eq_prod_def)
  next
    case False
    then have "reason_count cutoff d y = 0" using reason_count_list [of cutoff d y] by simp
    with mem [OF that(1)] show ?thesis by simp
  qed
qed

section \<open>The report\<close>

lemma map_filter_le: "(\<And>x. f x \<noteq> None \<Longrightarrow> p x) \<Longrightarrow> length (List.map_filter f xs) \<le> length (filter p xs)"
  by (induction xs) (auto simp: List.map_filter_simps le_SucI split: option.splits)

lemma durations_count: "int (length (durations cutoff d)) \<le> count_runs cutoff SUCCESS d"
  unfolding durations_def count_runs_def of_nat_le_iff
  by (rule map_filter_le) (simp split: if_splits)

lemma runs_by_status:
  "count_runs cutoff SUCCESS d + count_runs cutoff RUN_FAILED d + count_runs cutoff SKIPPED d
    = int (length (filter (in_window cutoff) (scan_runs d)))"
proof -
  have "int (length (filter (\<lambda>r. p r \<and> r_status r = SUCCESS) xs)) + int (length (filter (\<lambda>r. p r \<and> r_status r = RUN_FAILED) xs))
      + int (length (filter (\<lambda>r. p r \<and> r_status r = SKIPPED) xs)) = int (length (filter p xs))" for p :: "scan_run \<Rightarrow> bool" and xs
  proof (induction xs)
    case (Cons r xs)
    then show ?case by (cases "r_status r") auto
  qed simp
  then show ?thesis by (simp add: count_runs_def)
qed

text \<open>C24. The statistics agree with the tables. The totals by severity, summed over denormalised
  columns of runs, are the numbers of current findings in the whole database; successes,
  failures and skips add up to the runs completed in the window, and no more durations are
  summarised than there were successes; and the failure reasons listed are at most ten,
  different, with their exact counts, most frequent first, and none that is left out is more
  frequent than one that is listed.\<close>

theorem stats_agree_with_tables:
  assumes "consistent d" and "stats fl coll hours now stmt_ts gen d = Reply r"
    and "cutoff = now - seconds (3600 * hours)"
  shows "st_findings r =
      \<lparr>n_critical = int (length (filter (\<lambda>f. f_severity f = CRITICAL) (current_findings d))),
       n_high = int (length (filter (\<lambda>f. f_severity f = HIGH) (current_findings d))),
       n_medium = int (length (filter (\<lambda>f. f_severity f = MEDIUM) (current_findings d))),
       n_low = int (length (filter (\<lambda>f. f_severity f = LOW) (current_findings d))),
       n_unknown = int (length (filter (\<lambda>f. f_severity f = UNKNOWN) (current_findings d)))\<rparr> \<and>
    st_runs_success r + st_runs_failed r + st_runs_skipped r = int (length (filter (in_window cutoff) (scan_runs d))) \<and>
    st_duration_count r \<le> st_runs_success r \<and>
    length (st_recent_failures r) \<le> 10 \<and> distinct (map fst (st_recent_failures r)) \<and>
    sorted_wrt (\<ge>) (map snd (st_recent_failures r)) \<and>
    (\<forall>(x, n) \<in> set (st_recent_failures r). n = int (reason_count cutoff d x) \<and> 0 < n \<and>
       (\<forall>y. y \<notin> fst ` set (st_recent_failures r) \<longrightarrow> int (reason_count cutoff d y) \<le> n))"
proof -
  from assms(2) have r: "st_findings r = \<lparr>n_critical = sum_counts r_finding_count_critical d,
       n_high = sum_counts r_finding_count_high d, n_medium = sum_counts r_finding_count_medium d,
       n_low = sum_counts r_finding_count_low d, n_unknown = sum_counts r_finding_count_unknown d\<rparr>"
    "st_runs_success r = count_runs cutoff SUCCESS d" "st_runs_failed r = count_runs cutoff RUN_FAILED d"
    "st_runs_skipped r = count_runs cutoff SKIPPED d" "st_duration_count r = int (length (durations cutoff d))"
    "st_recent_failures r = recent_failures coll cutoff d"
    by (auto simp: stats_def assms(3) Let_def split: if_splits)
  note top = recent_failures_top [OF r(6)]
  have "\<forall>(x, n) \<in> set (st_recent_failures r). n = int (reason_count cutoff d x) \<and> 0 < n \<and>
      (\<forall>y. y \<notin> fst ` set (st_recent_failures r) \<longrightarrow> int (reason_count cutoff d y) \<le> n)"
    using top(4,5) by blast
  moreover have "st_findings r =
      \<lparr>n_critical = int (length (filter (\<lambda>f. f_severity f = CRITICAL) (current_findings d))),
       n_high = int (length (filter (\<lambda>f. f_severity f = HIGH) (current_findings d))),
       n_medium = int (length (filter (\<lambda>f. f_severity f = MEDIUM) (current_findings d))),
       n_low = int (length (filter (\<lambda>f. f_severity f = LOW) (current_findings d))),
       n_unknown = int (length (filter (\<lambda>f. f_severity f = UNKNOWN) (current_findings d)))\<rparr>"
    unfolding r(1) by (simp add: sum_counts_current [OF assms(1)])
  ultimately show ?thesis
    using top(1-3) runs_by_status [of cutoff d] durations_count [of cutoff d] r(2-5) by simp
qed

theorem stats_agree_with_tables_witness:
  "\<exists>r. stats \<lparr>fl_age = (\<lambda>t. t), fl_ratio = (\<lambda>a b. a), fl_zero = 0, fl_percentile = (\<lambda>p xs. hd xs)\<rparr> id 24 9 9 9 once_db = Reply r \<and>
     st_runs_success r + st_runs_failed r + st_runs_skipped r
       = int (length (filter (in_window (9 - seconds 86400)) (scan_runs once_db)))"
proof -
  let ?fl = "\<lparr>fl_age = (\<lambda>t. t), fl_ratio = (\<lambda>a b. a), fl_zero = 0, fl_percentile = (\<lambda>p xs. hd xs)\<rparr> :: int float_ops"
  obtain r where "stats ?fl id 24 9 9 9 once_db = Reply r" by (simp add: stats_def Let_def)
  with stats_agree_with_tables [OF once_consistent this refl] show ?thesis by auto
qed

end
