(* ===== verification/Seed.thy ===== *)
theory Seed
  imports Persist_Specs
begin

text \<open>
  Seeding the watch list (src/app/db/seed.py): one multi-row INSERT ... ON CONFLICT DO NOTHING
  on the (name, tag) constraint. The id sequence advances for the rows that conflict too.
\<close>

definition BRIEF_IMAGES :: "(string \<times> string) list" where
  "BRIEF_IMAGES =
     [(''nginx'', ''1.19''), (''postgres'', ''12''), (''redis'', ''6.0''), (''node'', ''14-alpine''),
      (''python'', ''3.8-slim''), (''alpine'', ''3.12''), (''ubuntu'', ''20.04''), (''mysql'', ''8.0''),
      (''mongo'', ''4.4''), (''httpd'', ''2.4'')]"

text \<open>A row of only a name and a tag; the other columns take their defaults.\<close>

definition new_image :: "time \<Rightarrow> string \<times> string \<Rightarrow> int \<Rightarrow> image" where
  "new_image txn_ts nt k = \<lparr>i_id = k, i_name = fst nt, i_tag = snd nt, i_scan_interval_seconds = None,
     i_enabled = True, i_current_scan_run_id = None, i_consecutive_failures = 0, i_last_scan_at = None,
     i_last_scan_status = None, i_created_at = txn_ts\<rparr>"

fun insert_images :: "time \<Rightarrow> (string \<times> string) list \<Rightarrow> db \<Rightarrow> db \<times> int list" where
  "insert_images txn_ts [] d = (d, [])"
| "insert_images txn_ts (nt # nts) d =
     (let k = next_image_id d; d' = d\<lparr>next_image_id := k + 1\<rparr>
      in if nt \<in> image_key ` set (images d) then insert_images txn_ts nts d'
         else (let (d'', ids) = insert_images txn_ts nts (d'\<lparr>images := images d @ [new_image txn_ts nt k]\<rparr>)
               in (d'', k # ids)))"

definition seed :: "time \<Rightarrow> db \<Rightarrow> db \<times> int" where
  "seed txn_ts d = (let (d', ids) = insert_images txn_ts BRIEF_IMAGES d in (d', int (length ids)))"

section \<open>Adding an image\<close>

lemma bump_consistent: "consistent d \<Longrightarrow> consistent (d\<lparr>next_image_id := next_image_id d + 1\<rparr>)"
proof -
  assume con: "consistent d"
  let ?d = "d\<lparr>next_image_id := next_image_id d + 1\<rparr>"
  have "rollups_ok ?d" "counts_ok ?d" "pointers_ok ?d"
    using consistentD(5,7,8) [OF con] rollups_ok_cong [of ?d d] counts_ok_cong [of ?d d] pointers_ok_cong [of ?d d]
    by simp_all
  moreover have "keys_ok ?d" "sequences_ok ?d" "one_active_job ?d" "references_ok ?d" "ranks_ok ?d"
    using consistentD(1-4,6) [OF con]
    by (auto simp: keys_ok_def sequences_ok_def one_active_job_def references_ok_def ranks_ok_def intro: less_trans)
  ultimately show "consistent ?d" by (simp add: consistent_def)
qed

lemma add_image_current:
  assumes "consistent d" "i_id i = next_image_id d" "i_current_scan_run_id i = None"
  shows "current_findings (d\<lparr>images := images d @ [i], next_image_id := n\<rparr>) = current_findings d"
proof -
  have "is_current (d\<lparr>images := images d @ [i], next_image_id := n\<rparr>) f = is_current d f" for f
    using assms(3) by (auto simp: is_current_def current_run_of_def find_row_append split: option.splits)
  then have "is_current (d\<lparr>images := images d @ [i], next_image_id := n\<rparr>) = is_current d" by (rule ext)
  then show ?thesis by (simp add: current_findings_def)
qed

lemma add_image_consistent:
  assumes con: "consistent d" and i: "i_id i = next_image_id d" "i_current_scan_run_id i = None"
    and new: "image_key i \<notin> image_key ` set (images d)"
  shows "consistent (d\<lparr>images := images d @ [i], next_image_id := next_image_id d + 1\<rparr>)"
proof -
  let ?d = "d\<lparr>images := images d @ [i], next_image_id := next_image_id d + 1\<rparr>"
  have below: "\<forall>x \<in> set (images d). i_id x < next_image_id d"
    using consistentD(2) [OF con] by (simp add: sequences_ok_def)
  then have fresh: "next_image_id d \<notin> i_id ` set (images d)" by auto
  note cur = add_image_current [OF con i, of "next_image_id d + 1"]
  have run: "success_run_of ?d = success_run_of d" by (simp add: success_run_of_def fun_eq_iff)
  have "keys_ok ?d" using consistentD(1) [OF con] fresh new i(1) by (simp add: keys_ok_def)
  moreover have "sequences_ok ?d" using consistentD(2) [OF con] i(1) by (auto simp: sequences_ok_def)
  moreover have "one_active_job ?d" "references_ok ?d" "ranks_ok ?d"
    using consistentD(3,4,6) [OF con] by (auto simp: one_active_job_def references_ok_def ranks_ok_def)
  moreover have "pointers_ok ?d"
    using consistentD(5) [OF con] i(2) by (auto simp: pointers_ok_def run)
  moreover have "counts_ok ?d"
    using consistentD(7) [OF con] i(2) by (auto simp: counts_ok_def current_count_def cur)
  moreover have "rollups_ok ?d"
    using consistentD(8) [OF con]
    by (simp add: rollups_ok_def rollup_ok_for_def current_rank_def current_image_count_def findings_of_cve_def cur)
  ultimately show ?thesis by (simp add: consistent_def)
qed

lemma insert_images_facts:
  assumes "consistent d" "distinct nts" "insert_images ts nts d = (d', ids)"
  shows "consistent d'" "current_findings d' = current_findings d"
    "\<exists>new. d' = d\<lparr>images := images d @ new, next_image_id := next_image_id d'\<rparr> \<and>
       map image_key new = filter (\<lambda>nt. nt \<notin> image_key ` set (images d)) nts \<and> map i_id new = ids \<and>
       (\<forall>i \<in> set new. i_enabled i \<and> i_last_scan_at i = None \<and> i_scan_interval_seconds i = None \<and> i_created_at i = ts)"
  using assms
proof (atomize (full), induction ts nts d arbitrary: ids rule: insert_images.induct)
  case (1 ts d)
  then show ?case by simp
next
  case (2 ts nt nts d)
  let ?d = "d\<lparr>next_image_id := next_image_id d + 1\<rparr>"
  show ?case
  proof (cases "nt \<in> image_key ` set (images d)")
    case True
    have "current_findings ?d = current_findings d" by (rule current_findings_cong) simp_all
    with True 2 bump_consistent [OF 2(3)] show ?thesis by (auto simp: Let_def)
  next
    case False
    let ?i = "new_image ts nt (next_image_id d)"
    let ?d1 = "?d\<lparr>images := images d @ [?i]\<rparr>"
    have i: "i_id ?i = next_image_id d" "i_current_scan_run_id ?i = None" "image_key ?i = nt"
      by (simp_all add: new_image_def image_key_def)
    have eq: "?d1 = d\<lparr>images := images d @ [?i], next_image_id := next_image_id d + 1\<rparr>" by simp
    have con: "consistent ?d1"
      unfolding eq using add_image_consistent [OF 2(3) i(1,2)] i(3) False by simp
    have cur: "current_findings ?d1 = current_findings d"
      unfolding eq by (rule add_image_current [OF 2(3) i(1,2)])
    from 2(5) False obtain ids' where rest: "insert_images ts nts ?d1 = (d', ids')" "ids = next_image_id d # ids'"
      by (auto simp: Let_def split: prod.splits)
    from 2(2) [OF refl refl False con _ rest(1)] 2(4) obtain new where
      IH: "consistent d'" "current_findings d' = current_findings ?d1"
        "d' = ?d1\<lparr>images := images ?d1 @ new, next_image_id := next_image_id d'\<rparr>"
        "map image_key new = filter (\<lambda>x. x \<notin> image_key ` set (images ?d1)) nts" "map i_id new = ids'"
        "\<forall>i \<in> set new. i_enabled i \<and> i_last_scan_at i = None \<and> i_scan_interval_seconds i = None \<and> i_created_at i = ts"
      by auto
    have "d' = d\<lparr>images := images d @ ?i # new, next_image_id := next_image_id d'\<rparr>"
      by (subst IH(3)) simp
    moreover have "filter (\<lambda>x. x \<notin> image_key ` set (images ?d1)) nts = filter (\<lambda>x. x \<notin> image_key ` set (images d)) nts"
      using 2(4) by (intro filter_cong refl) (auto simp: i(3))
    ultimately show ?thesis
      using IH cur False rest(2) i
      by (intro conjI exI [of _ "?i # new"]) (simp_all add: new_image_def)
  qed
qed

section \<open>Seeding\<close>

text \<open>Seeding is idempotent and additive. It keeps the database consistent and every finding's
  currency, leaves every image there is as it was, adds exactly the missing images of the
  brief, each due for its first scan, and reports their number; seeding again adds nothing.\<close>

theorem seed_adds_missing_images:
  assumes "consistent d" and "seed ts d = (d', n)"
  shows "consistent d' \<and> current_findings d' = current_findings d \<and>
    (\<exists>new. images d' = images d @ new \<and> n = int (length new) \<and>
       map image_key new = filter (\<lambda>nt. nt \<notin> image_key ` set (images d)) BRIEF_IMAGES \<and>
       (\<forall>i \<in> set new. i_enabled i \<and> i_last_scan_at i = None)) \<and>
    scan_jobs d' = scan_jobs d \<and> findings d' = findings d \<and>
    set BRIEF_IMAGES \<subseteq> image_key ` set (images d') \<and>
    (\<exists>d''. seed ts' d' = (d'', 0) \<and> images d'' = images d')"
proof -
  have dist: "distinct BRIEF_IMAGES" by code_simp
  from assms(2) obtain ids where ins: "insert_images ts BRIEF_IMAGES d = (d', ids)" "n = int (length ids)"
    by (auto simp: seed_def split: prod.splits)
  note f = insert_images_facts [OF assms(1) dist ins(1)]
  from f(3) obtain new where new: "d' = d\<lparr>images := images d @ new, next_image_id := next_image_id d'\<rparr>"
    "map image_key new = filter (\<lambda>nt. nt \<notin> image_key ` set (images d)) BRIEF_IMAGES" "map i_id new = ids"
    "\<forall>i \<in> set new. i_enabled i \<and> i_last_scan_at i = None \<and> i_scan_interval_seconds i = None \<and> i_created_at i = ts" by blast
  have im: "images d' = images d @ new" "scan_jobs d' = scan_jobs d" "findings d' = findings d"
    by (subst new(1), simp)+
  have "image_key ` set new = {nt \<in> set BRIEF_IMAGES. nt \<notin> image_key ` set (images d)}"
    using arg_cong [OF new(2), of set] by simp
  then have all: "set BRIEF_IMAGES \<subseteq> image_key ` set (images d')"
    by (auto simp: im(1) image_Un)
  obtain d'' ids' where again: "insert_images ts' BRIEF_IMAGES d' = (d'', ids')" by (cases "insert_images ts' BRIEF_IMAGES d'")
  from insert_images_facts(3) [OF f(1) dist again] obtain new' where new':
    "d'' = d'\<lparr>images := images d' @ new', next_image_id := next_image_id d''\<rparr>"
    "map image_key new' = filter (\<lambda>nt. nt \<notin> image_key ` set (images d')) BRIEF_IMAGES" "map i_id new' = ids'" by blast
  have "filter (\<lambda>nt. nt \<notin> image_key ` set (images d')) BRIEF_IMAGES = []"
    using all by (auto simp: filter_empty_conv)
  with new'(2,3) have "new' = []" "ids' = []" by simp_all
  have same: "images d'' = images d'" by (subst new'(1)) (simp add: \<open>new' = []\<close>)
  from \<open>ids' = []\<close> have "seed ts' d' = (d'', 0)" by (simp add: seed_def again)
  moreover have "n = int (length new)" using arg_cong [OF new(3), of length] ins(2) by simp
  ultimately show ?thesis
    using f(1,2) new(2,4) im all same by auto
qed

theorem seed_adds_missing_images_witness:
  "consistent (fst (seed 0 empty_db)) \<and> snd (seed 5 (fst (seed 0 empty_db))) = 0"
  using seed_adds_missing_images [OF consistent_empty, of 0 "fst (seed 0 empty_db)" "snd (seed 0 empty_db)" 5] by auto

end
