(* ===== verification/System.thy ===== *)
theory System
  imports Worker Api Seed Queue_Props
begin

text \<open>
  The processes together: a step relation on the database and on what each worker holds between
  its transactions, with one rule per transaction of the API, the seed script, the scheduler and
  the workers. The reachable states are those of any interleaving in which a scheduler pass does
  not find the lease of a live worker expired (what the lease validator of the settings is for);
  a worker may die at any moment. Every operation fulfils one contract (\<open>system_op\<close>), and the
  invariant is proved from it.
\<close>

section \<open>States and steps\<close>

datatype phase =
    Idle
  | Claimed scan_job
  | Scanning scan_job scan_plan

fun job_of :: "phase \<Rightarrow> scan_job option" where
  "job_of Idle = None"
| "job_of (Claimed job) = Some job"
| "job_of (Scanning job plan) = Some job"

record system =
  sys_db :: db
  sys_phase :: "int \<Rightarrow> phase"

definition sys_init :: system where
  "sys_init = \<lparr>sys_db = empty_db, sys_phase = (\<lambda>_. Idle)\<rparr>"

text \<open>No live worker's lease has passed.\<close>

definition live_leases :: "time \<Rightarrow> system \<Rightarrow> bool" where
  "live_leases stmt_ts st \<longleftrightarrow> (\<forall>w job. job_of (sys_phase st w) = Some job \<longrightarrow> \<not> expired stmt_ts job)"

inductive sys_step :: "settings \<Rightarrow> system \<Rightarrow> system \<Rightarrow> bool" for s where
  seed_step: "seed ts (sys_db st) = (d', n) \<Longrightarrow> sys_step s st (st\<lparr>sys_db := d'\<rparr>)"
| request_step: "request_scan name tag urgent now ts (sys_db st) = Inr (d', r) \<Longrightarrow>
    sys_step s st (st\<lparr>sys_db := d'\<rparr>)"
| tick_step: "live_leases stmt_ts st \<Longrightarrow> tick s stmt_ts rc now ec ts (sys_db st) = Inr (d', n) \<Longrightarrow>
    sys_step s st (st\<lparr>sys_db := d'\<rparr>)"
| claim_step: "sys_phase st w = Idle \<Longrightarrow>
    claim locked stmt_ts now (lease_seconds s) (sys_db st) = (d', Some job) \<Longrightarrow>
    sys_step s st (st\<lparr>sys_db := d', sys_phase := (sys_phase st)(w := Claimed job)\<rparr>)"
| prepare_step: "sys_phase st w = Claimed job \<Longrightarrow> prepare env s t job (sys_db st) = Inr (Some plan) \<Longrightarrow>
    sys_step s st (st\<lparr>sys_phase := (sys_phase st)(w := Scanning job plan)\<rparr>)"
| unprepared_step: "sys_phase st w = Claimed job \<Longrightarrow> \<nexists>plan. prepare env s t job (sys_db st) = Inr (Some plan) \<Longrightarrow>
    execute env s t id job (sys_db st) = (d', err) \<Longrightarrow>
    sys_step s st (st\<lparr>sys_db := d', sys_phase := (sys_phase st)(w := Idle)\<rparr>)"
| finish_step: "sys_phase st w = Scanning job plan \<Longrightarrow> finish_job env s t job plan (sys_db st) = (d', err) \<Longrightarrow>
    sys_step s st (st\<lparr>sys_db := d', sys_phase := (sys_phase st)(w := Idle)\<rparr>)"
| crash_step: "sys_step s st (st\<lparr>sys_phase := (sys_phase st)(w := Idle)\<rparr>)"

inductive reachable :: "settings \<Rightarrow> system \<Rightarrow> bool" for s where
  start: "reachable s sys_init"
| step: "reachable s st \<Longrightarrow> sys_step s st st' \<Longrightarrow> reachable s st'"

section \<open>Rows an operation leaves alone\<close>

definition keeps_rows :: "(scan_job \<Rightarrow> bool) \<Rightarrow> (int \<Rightarrow> bool) \<Rightarrow> db \<Rightarrow> db \<Rightarrow> bool" where
  "keeps_rows P Q d d' \<longleftrightarrow> (\<forall>j \<in> set (scan_jobs d). P j \<longrightarrow> j \<in> set (scan_jobs d')) \<and>
     (\<forall>i \<in> set (images d). Q (i_id i) \<longrightarrow> i \<in> set (images d'))"

lemma keeps_rows_trans: "keeps_rows P Q d d' \<Longrightarrow> keeps_rows P Q d' d'' \<Longrightarrow> keeps_rows P Q d d''"
  by (simp add: keeps_rows_def)

lemma keeps_rows_mono:
  "keeps_rows P Q d d' \<Longrightarrow> (\<And>j. P' j \<Longrightarrow> P j) \<Longrightarrow> (\<And>k. Q' k \<Longrightarrow> Q k) \<Longrightarrow> keeps_rows P' Q' d d'"
  by (simp add: keeps_rows_def)

lemma keeps_rows_refl [simp]: "keeps_rows P Q d d"
  by (simp add: keeps_rows_def)

lemma keeps_rows_failure:
  assumes "record_failure img job meta error exhausted d = Inr (d', k)"
  shows "keeps_rows (\<lambda>_. True) (\<lambda>k. k \<noteq> i_id img) d d'" "scan_jobs d' = scan_jobs d"
  using failure.quiet [OF assms] by (auto simp: keeps_rows_def kept_by_update)

lemma keeps_rows_skip:
  assumes "record_skip img job meta d = Inr (d', k)"
  shows "keeps_rows (\<lambda>_. True) (\<lambda>k. k \<noteq> i_id img) d d'" "scan_jobs d' = scan_jobs d"
  using skip.quiet [OF assms] by (auto simp: keeps_rows_def kept_by_update)

lemma keeps_rows_success:
  assumes "record_success img job report meta d = Inr (d', k)"
  shows "keeps_rows (\<lambda>_. True) (\<lambda>k. k \<noteq> i_id img) d d'" "scan_jobs d' = scan_jobs d"
proof -
  have "d' = recompute_cve_rollup (affected_cves img report d) (base_db img job report meta d)"
    using assms by (simp add: record_success_eq)
  then show "keeps_rows (\<lambda>_. True) (\<lambda>k. k \<noteq> i_id img) d d'" "scan_jobs d' = scan_jobs d"
    by (simp_all add: base_db_def keeps_rows_def kept_by_update)
qed

lemma keeps_rows_save:
  "save_job loaded new d = Inr d' \<Longrightarrow> keeps_rows (\<lambda>j. j_id j \<noteq> j_id loaded) (\<lambda>_. True) d d'"
  using save_job_tables [of loaded new d d'] by (simp add: keeps_rows_def kept_by_update)

text \<open>What a worker's own outcome may touch: its job and its image.\<close>

abbreviation own_rows :: "scan_job \<Rightarrow> db \<Rightarrow> db \<Rightarrow> bool" where
  "own_rows job \<equiv> keeps_rows (\<lambda>j. j_id j \<noteq> j_id job) (\<lambda>k. k \<noteq> j_image_id job)"

lemma own_rows_save: "save_job job new d = Inr d' \<Longrightarrow> own_rows job d d'"
  by (erule keeps_rows_mono [OF keeps_rows_save]) simp_all

lemma own_rows_write:
  assumes "i_id (sp_image plan) = j_image_id job" "write_result plan job t result d = Inr d'"
  shows "own_rows job d d'"
proof -
  obtain d1 where d1: "keeps_rows (\<lambda>_. True) (\<lambda>k. k \<noteq> i_id (sp_image plan)) d d1" "save_job job (complete job) d1 = Inr d'"
    using assms(2) keeps_rows_skip(1) keeps_rows_success(1)
    by (cases result) (fastforce simp: write_result_def split: sum.splits)+
  have "own_rows job d d1" by (rule keeps_rows_mono [OF d1(1)]) (simp_all add: assms(1))
  from keeps_rows_trans [OF this own_rows_save [OF d1(2)]] show ?thesis .
qed

lemma own_rows_error:
  assumes "consistent d" "job \<in> set (scan_jobs d)" "\<And>i. img = Some i \<Longrightarrow> i_id i = j_image_id job"
  shows "own_rows job d (fst (commit d (handle_error s b job img e t d)))"
proof -
  have fail: "own_rows job d d'" if rf: "record_job_failure s b job img e p t d = Inr d'" for d' p
  proof -
    let ?img = "if b then find_row i_id (j_image_id job) (images d) else img"
    let ?j = "fail job (error_message e) (if p then 1 else max_attempts s) (backoff_base_seconds s) (backoff_max_seconds s) (t_fail t)"
    show ?thesis
    proof (cases ?img)
      case None
      with rf own_job_reread [OF assms(1,2)] have "save_job job ?j d = Inr d'"
        by (simp add: record_job_failure_def Let_def)
      then show ?thesis by (rule own_rows_save)
    next
      case (Some i)
      then have id: "i_id i = j_image_id job"
        using assms(3) find_row_SomeD [of i_id "j_image_id job" "images d" i] by (cases b) auto
      let ?r = "record_failure i (Some job) (empty_metadata (t_fail_started t) (t_fail_completed t))
          (error_message e) (j_status ?j = FAILED) d"
      note again = own_job_reread [OF assms(1,2), of b]
      from rf again Some obtain d1 k where "?r = Inr (d1, k)"
        by (cases ?r) (auto simp: record_job_failure_def Let_def)
      moreover from this rf again Some have "save_job job ?j d1 = Inr d'"
        by (simp add: record_job_failure_def Let_def)
      ultimately have r: "?r = Inr (d1, k)" "save_job job ?j d1 = Inr d'" by blast+
      have "own_rows job d d1"
        by (rule keeps_rows_mono [OF keeps_rows_failure(1) [OF r(1)]]) (simp_all add: id)
      from keeps_rows_trans [OF this own_rows_save [OF r(2)]] show ?thesis .
    qed
  qed
  have "own_rows job d d'" if "defer_for_backpressure b job e t d = Inr d'" for d'
    using that own_job_reread [OF assms(1,2)] own_rows_save
    by (auto simp: defer_for_backpressure_def split: option.splits)
  with fail show ?thesis
    by (auto simp: handle_error_def commit_def split: sum.splits)
qed

lemma own_rows_finish:
  assumes "consistent d" "job \<in> set (scan_jobs d)" "i_id (sp_image plan) = j_image_id job"
  shows "own_rows job d (fst (finish_job env s t job plan d))"
  using own_rows_error [OF assms(1,2), of "Some (sp_image plan)"] own_rows_error [OF assms(1,2), of None]
    own_rows_write [OF assms(3)] assms(3)
  by (auto simp: finish_job_def split: sum.splits)

lemma own_rows_unprepared:
  assumes "consistent d" "job \<in> set (scan_jobs d)" "\<nexists>plan. prepare env s t job d = Inr (Some plan)"
  shows "own_rows job d (fst (execute env s t id job d))" "consistent (fst (execute env s t id job d))"
  using own_rows_error [OF assms(1,2), of None] own_rows_save [of job _ d] error_keeps [OF assms(1)]
    save_job_consistent [OF _ assms(1)] assms(3)
  by (auto simp: execute_def split: sum.splits option.splits)

text \<open>A scheduler pass touches the expired jobs and their images.\<close>

lemma keeps_rows_reaped:
  "record_reaped clock es d = Inr d' \<Longrightarrow> keeps_rows (\<lambda>_. True) (\<lambda>k. k \<notin> rj_image_id ` set es) d d'"
proof (induction clock es d rule: record_reaped.induct)
  case (1 clock d)
  then show ?case by simp
next
  case (2 clock e es d)
  show ?case
  proof (cases "find_row i_id (rj_image_id e) (images d)")
    case None
    with 2(1) [OF None] 2(3) show ?thesis by (simp add: keeps_rows_def)
  next
    case (Some img)
    let ?r = "record_failure img (find_row j_id (rj_job_id e) (scan_jobs d)) (empty_metadata (clock 0) (clock 0))
        LEASE_EXPIRED_ERROR (rj_exhausted e) d"
    from 2(3) Some obtain d1 k where r: "?r = Inr (d1, k)" "record_reaped (\<lambda>n. clock (Suc n)) es d1 = Inr d'"
      by (cases ?r) auto
    have id: "i_id img = rj_image_id e" using find_row_SomeD [OF Some] by simp
    have "keeps_rows (\<lambda>_. True) (\<lambda>k. k \<notin> rj_image_id ` set es) d1 d'"
      by (rule 2(2) [OF Some r(1) refl r(2)])
    then have "keeps_rows (\<lambda>_. True) (\<lambda>k. k \<notin> rj_image_id ` set (e # es)) d1 d'"
      by (rule keeps_rows_mono) simp_all
    with keeps_rows_mono [OF keeps_rows_failure(1) [OF r(1)], of "\<lambda>_. True" "\<lambda>k. k \<notin> rj_image_id ` set (e # es)"] id
    show ?thesis by (auto intro: keeps_rows_trans)
  qed
qed

lemma keeps_rows_enqueue:
  "enqueue k p sf now ts d = Inr (d', b) \<Longrightarrow> keeps_rows (\<lambda>_. True) (\<lambda>_. True) d d'"
  by (auto simp: enqueue_def build_enqueue_statement_def keeps_rows_def Let_def split: if_splits)

lemma keeps_rows_enqueue_due:
  "enqueue_due clock ts imgs d = Inr (d', n) \<Longrightarrow> keeps_rows (\<lambda>_. True) (\<lambda>_. True) d d'"
proof (induction clock ts imgs d arbitrary: d' n rule: enqueue_due.induct)
  case (1 clock ts d)
  then show ?case by simp
next
  case (2 clock ts i imgs d)
  from 2(2) obtain d1 b n1 where e: "enqueue (i_id i) PRIORITY_SCHEDULED None (clock 0) ts d = Inr (d1, b)"
    "enqueue_due (\<lambda>n. clock (Suc n)) ts imgs d1 = Inr (d', n1)"
    by (auto split: sum.splits prod.splits)
  from keeps_rows_trans [OF keeps_rows_enqueue [OF e(1)] 2(1) [OF e(1) refl e(2)]] show ?case .
qed

lemma keeps_rows_tick:
  assumes "tick s ts rc now ec tt d = Inr (d', n)"
  shows "keeps_rows (\<lambda>j. \<not> expired ts j) (\<lambda>k. k \<notin> j_image_id ` {j \<in> set (scan_jobs d). expired ts j}) d d'"
proof -
  obtain d1 es where reap: "reap_expired_leases (max_attempts s) ts d = (d1, es)"
    by (cases "reap_expired_leases (max_attempts s) ts d")
  have d1: "keeps_rows (\<lambda>j. \<not> expired ts j) (\<lambda>_. True) d d1"
    using reap by (auto simp: reap_expired_leases_def keeps_rows_def kept_by_update)
  have es: "rj_image_id ` set es = j_image_id ` {j \<in> set (scan_jobs d). expired ts j}"
    using reap by (auto simp: reap_expired_leases_def image_image)
  from assms reap obtain d2 where d2: "record_reaped rc es d1 = Inr d2"
    "enqueue_due ec tt (due_images s now d2) d2 = Inr (d', n)"
    by (auto simp: tick_def split: sum.splits)
  have "keeps_rows (\<lambda>j. \<not> expired ts j) (\<lambda>k. k \<notin> rj_image_id ` set es) d d1"
    by (rule keeps_rows_mono [OF d1]) simp_all
  moreover have "keeps_rows (\<lambda>j. \<not> expired ts j) (\<lambda>k. k \<notin> rj_image_id ` set es) d1 d2"
    by (rule keeps_rows_mono [OF keeps_rows_reaped [OF d2(1)]]) simp_all
  moreover have "keeps_rows (\<lambda>j. \<not> expired ts j) (\<lambda>k. k \<notin> rj_image_id ` set es) d2 d'"
    by (rule keeps_rows_mono [OF keeps_rows_enqueue_due [OF d2(2)]]) simp_all
  ultimately show ?thesis unfolding es [symmetric] by (blast intro: keeps_rows_trans)
qed

section \<open>The invariant\<close>

text \<open>The job a worker holds is its row, still running; no two workers hold the same one; and the
  image object of a scan is as fresh as its row.\<close>

definition sys_inv :: "system \<Rightarrow> bool" where
  "sys_inv st \<longleftrightarrow> consistent (sys_db st) \<and>
     (\<forall>w job. job_of (sys_phase st w) = Some job \<longrightarrow> job \<in> set (scan_jobs (sys_db st)) \<and> j_status job = RUNNING) \<and>
     (\<forall>w v job job'. job_of (sys_phase st w) = Some job \<and> job_of (sys_phase st v) = Some job' \<and>
        j_id job = j_id job' \<longrightarrow> w = v) \<and>
     (\<forall>w job plan. sys_phase st w = Scanning job plan \<longrightarrow>
        sp_image plan \<in> set (images (sys_db st)) \<and> i_id (sp_image plan) = j_image_id job)"

lemma sys_invD:
  assumes "sys_inv st"
  shows "consistent (sys_db st)"
    and "job_of (sys_phase st w) = Some job \<Longrightarrow> job \<in> set (scan_jobs (sys_db st)) \<and> j_status job = RUNNING"
    and "sys_phase st w = Scanning job plan \<Longrightarrow> sp_image plan \<in> set (images (sys_db st)) \<and> i_id (sp_image plan) = j_image_id job"
  using assms by (auto simp: sys_inv_def)

lemma running_images_differ:
  assumes "consistent d" "j \<in> set (scan_jobs d)" "j' \<in> set (scan_jobs d)" "j_status j = RUNNING" "j_status j' = RUNNING"
    and "j_image_id j = j_image_id j'"
  shows "j = j'"
  using active_unique [OF consistent_jobs_ok [OF assms(1)] assms(2,3)] assms(4-6) by (simp add: active_def)

text \<open>The contract of a transaction: it keeps the database consistent, and a running job it spares
  keeps its row, and its image the row of the image.\<close>

locale system_op =
  fixes op :: "db \<Rightarrow> db" and fits :: "db \<Rightarrow> bool" and spares :: "scan_job \<Rightarrow> bool"
  assumes op_consistent: "consistent d \<Longrightarrow> fits d \<Longrightarrow> consistent (op d)"
    and op_keeps: "consistent d \<Longrightarrow> fits d \<Longrightarrow> j \<in> set (scan_jobs d) \<Longrightarrow> j_status j = RUNNING \<Longrightarrow> spares j \<Longrightarrow>
      j \<in> set (scan_jobs (op d)) \<and> (\<forall>i \<in> set (images d). i_id i = j_image_id j \<longrightarrow> i \<in> set (images (op d)))"
begin

lemma keeps_inv:
  assumes inv: "sys_inv st" and fits: "fits (sys_db st)"
    and phases: "\<And>w. p w = Idle \<or> p w = sys_phase st w \<and> (\<forall>job. job_of (p w) = Some job \<longrightarrow> spares job)"
  shows "sys_inv \<lparr>sys_db = op (sys_db st), sys_phase = p\<rparr>"
proof -
  note con = sys_invD(1) [OF inv]
  have held: "job_of (sys_phase st w) = Some job \<and> spares job" if "job_of (p w) = Some job" for w job
    using phases [of w] that by auto
  have row: "job \<in> set (scan_jobs (op (sys_db st))) \<and> j_status job = RUNNING \<and>
      (\<forall>i \<in> set (images (sys_db st)). i_id i = j_image_id job \<longrightarrow> i \<in> set (images (op (sys_db st))))"
    if "job_of (p w) = Some job" for w job
    using held [OF that] sys_invD(2) [OF inv, of w job] op_keeps [OF con fits, of job] by blast
  have scan: "sp_image plan \<in> set (images (op (sys_db st))) \<and> i_id (sp_image plan) = j_image_id job"
    if "p w = Scanning job plan" for w job plan
  proof -
    from that phases [of w] have "sys_phase st w = Scanning job plan" by auto
    from sys_invD(3) [OF inv this] row [of w job] that show ?thesis by simp
  qed
  show ?thesis
    unfolding sys_inv_def
    using op_consistent [OF con fits] row held scan inv by (simp add: sys_inv_def)
qed

end

interpretation sys_seed: system_op "\<lambda>d. fst (seed ts d)" "\<lambda>_. True" "\<lambda>_. True" for ts
proof
  fix d
  assume con: "consistent d"
  obtain d' n where s: "seed ts d = (d', n)" by (cases "seed ts d")
  have dist: "distinct BRIEF_IMAGES" by code_simp
  from s obtain ids where ins: "insert_images ts BRIEF_IMAGES d = (d', ids)"
    by (auto simp: seed_def split: prod.splits)
  note f = insert_images_facts [OF con dist ins]
  from f(1) s show "consistent (fst (seed ts d))" by simp
  from f(3) obtain new where new: "d' = d\<lparr>images := images d @ new, next_image_id := next_image_id d'\<rparr>" by blast
  have "scan_jobs d' = scan_jobs d" "images d' = images d @ new" by (subst new, simp)+
  with s show "j \<in> set (scan_jobs (fst (seed ts d))) \<and>
      (\<forall>i \<in> set (images d). i_id i = j_image_id j \<longrightarrow> i \<in> set (images (fst (seed ts d))))"
    if "j \<in> set (scan_jobs d)" for j using that by auto
qed

abbreviation request_op :: "string \<Rightarrow> string \<Rightarrow> bool \<Rightarrow> time \<Rightarrow> time \<Rightarrow> db \<Rightarrow> db" where
  "request_op name tag urgent now ts d \<equiv>
     (case request_scan name tag urgent now ts d of Inl _ \<Rightarrow> d | Inr (d', _) \<Rightarrow> d')"

abbreviation tick_op :: "settings \<Rightarrow> time \<Rightarrow> clock \<Rightarrow> time \<Rightarrow> clock \<Rightarrow> time \<Rightarrow> db \<Rightarrow> db" where
  "tick_op s ts rc now ec tt d \<equiv> (case tick s ts rc now ec tt d of Inl _ \<Rightarrow> d | Inr (d', _) \<Rightarrow> d')"

lemma request_op_cases:
  obtains "request_op name tag urgent now ts d = d"
  | k p where "map_option i_id (find_image name tag d) = Some k"
      "request_op name tag urgent now ts d = enqueue_step k p None now ts d"
  | k p where "map_option i_id (find_image name tag d) = Some k"
      "request_op name tag urgent now ts d = fst (build_promote_statement k now (enqueue_step k p None now ts d))"
proof (cases "find_image name tag d")
  case None
  then show ?thesis using that(1) by (simp add: request_scan_def)
next
  case (Some img)
  let ?k = "i_id img" and ?p = "if urgent then PRIORITY_TIME_SENSITIVE else PRIORITY_SCHEDULED"
  show ?thesis
  proof (cases "build_enqueue_statement ?k ?p None now ts d")
    case (Inl e)
    with Some show ?thesis using that(1) by (simp add: request_scan_def)
  next
    case (Inr r)
    obtain d1 ids where r: "r = (d1, ids)" by (cases r)
    from Some Inr r have "request_op name tag urgent now ts d
        \<in> {d, enqueue_step ?k ?p None now ts d, fst (build_promote_statement ?k now (enqueue_step ?k ?p None now ts d))}"
      by (simp add: request_scan_def split_beta Let_def split: sum.split option.split)
    moreover have "map_option i_id (find_image name tag d) = Some ?k" using Some by simp
    ultimately show ?thesis using that by blast
  qed
qed

lemma keeps_rows_enqueue_step: "keeps_rows (\<lambda>_. True) (\<lambda>_. True) d (enqueue_step k p sf now ts d)"
  by (auto simp: build_enqueue_statement_def keeps_rows_def Let_def)

lemma keeps_rows_promote:
  "keeps_rows (\<lambda>j. j_status j = RUNNING) (\<lambda>_. True) d (fst (build_promote_statement k now d))"
  by (auto simp: build_promote_statement_def keeps_rows_def promotable_def intro!: kept_by_update)

interpretation sys_request: system_op "request_op name tag urgent now ts" "\<lambda>_. True" "\<lambda>_. True"
  for name tag urgent now ts
proof
  fix d
  assume con: "consistent d"
  have keep: "keeps_rows (\<lambda>j. j_status j = RUNNING) (\<lambda>_. True) d (request_op name tag urgent now ts d)"
    by (cases rule: request_op_cases [where name = name and tag = tag and urgent = urgent and now = now and ts = ts and d = d])
       (auto intro: keeps_rows_trans [OF keeps_rows_mono [OF keeps_rows_enqueue_step] keeps_rows_promote]
          keeps_rows_mono [OF keeps_rows_enqueue_step])
  show "consistent (request_op name tag urgent now ts d)"
    by (cases rule: request_op_cases [where name = name and tag = tag and urgent = urgent and now = now and ts = ts and d = d])
       (simp_all only: con enq.keeps_consistent [OF con] prom.keeps_consistent [OF enq.keeps_consistent [OF con]])
  show "j \<in> set (scan_jobs (request_op name tag urgent now ts d)) \<and>
      (\<forall>i \<in> set (images d). i_id i = j_image_id j \<longrightarrow> i \<in> set (images (request_op name tag urgent now ts d)))"
    if "j \<in> set (scan_jobs d)" "j_status j = RUNNING" for j
    using keep that by (simp only: keeps_rows_def) blast
qed

lemma record_reaped_consistent: "record_reaped clock es d = Inr d' \<Longrightarrow> consistent d \<Longrightarrow> consistent d'"
proof (induction clock es d rule: record_reaped.induct)
  case (2 clock e es d)
  then show ?case
    using failure.keeps_consistent by (auto split: option.splits sum.splits)
qed simp

lemma enqueue_due_consistent: "enqueue_due clock ts imgs d = Inr (d', n) \<Longrightarrow> consistent d \<Longrightarrow> consistent d'"
proof (induction clock ts imgs d arbitrary: d' n rule: enqueue_due.induct)
  case (2 clock ts i imgs d)
  from 2(2) obtain d1 b n1 where e: "enqueue (i_id i) PRIORITY_SCHEDULED None (clock 0) ts d = Inr (d1, b)"
    "enqueue_due (\<lambda>n. clock (Suc n)) ts imgs d1 = Inr (d', n1)"
    by (auto split: sum.splits prod.splits)
  have "d1 = enqueue_step (i_id i) PRIORITY_SCHEDULED None (clock 0) ts d"
    using e(1) by (auto simp: enqueue_def split: sum.splits)
  with enq.keeps_consistent [OF 2(3)] have "consistent d1" by simp
  from 2(1) [OF e(1) refl e(2) this] show ?case .
qed simp

lemma tick_consistent:
  assumes "consistent d" "tick s ts rc now ec tt d = Inr (d', n)"
  shows "consistent d'"
proof -
  obtain d1 es where reap: "reap_expired_leases (max_attempts s) ts d = (d1, es)"
    by (cases "reap_expired_leases (max_attempts s) ts d")
  then have "consistent d1" using reap.keeps_consistent [OF assms(1), of "max_attempts s" ts] by simp
  with assms(2) reap show ?thesis
    by (auto simp: tick_def split: sum.splits dest: record_reaped_consistent enqueue_due_consistent)
qed

interpretation sys_tick: system_op "tick_op s ts rc now ec tt" "\<lambda>_. True" "\<lambda>j. \<not> expired ts j" for s ts rc now ec tt
proof
  fix d
  assume con: "consistent d"
  show "consistent (tick_op s ts rc now ec tt d)"
    using con tick_consistent [OF con] by (auto split: sum.splits)
  define X where "X = j_image_id ` {j \<in> set (scan_jobs d). expired ts j}"
  have keep: "keeps_rows (\<lambda>j. \<not> expired ts j) (\<lambda>k. k \<notin> X) d (tick_op s ts rc now ec tt d)"
    unfolding X_def using keeps_rows_tick by (auto split: sum.splits)
  fix j
  assume j: "j \<in> set (scan_jobs d)" "j_status j = RUNNING" "\<not> expired ts j"
  then have "j_image_id j \<notin> X"
    using running_images_differ [OF con j(1) _ j(2)] by (auto simp: X_def expired_def)
  with keep j show "j \<in> set (scan_jobs (tick_op s ts rc now ec tt d)) \<and>
      (\<forall>i \<in> set (images d). i_id i = j_image_id j \<longrightarrow> i \<in> set (images (tick_op s ts rc now ec tt d)))"
    by (simp add: keeps_rows_def)
qed

interpretation sys_claim: system_op "\<lambda>d. fst (claim locked ts now lease d)" "\<lambda>_. True" "\<lambda>_. True" for locked ts now lease
proof
  fix d
  assume con: "consistent d"
  show "consistent (fst (claim locked ts now lease d))" by (rule clm.keeps_consistent [OF con])
  fix j
  assume j: "j \<in> set (scan_jobs d)" "j_status j = RUNNING"
  have "j_id j \<noteq> j_id c" if "next_claimable locked ts d = Some c" for c
    using next_claimable_SomeD [OF that] j unique_onD [OF keys_okD(3) [OF consistentD(1) [OF con]] j(1)]
    by (auto simp: claimable_def)
  then show "j \<in> set (scan_jobs (fst (claim locked ts now lease d))) \<and>
      (\<forall>i \<in> set (images d). i_id i = j_image_id j \<longrightarrow> i \<in> set (images (fst (claim locked ts now lease d))))"
    using j(1) by (auto simp: claim_def Let_def kept_by_update split: option.split)
qed

text \<open>A worker's own job is fresh: its row runs, and the image object is the image's row.\<close>

definition own_job :: "scan_job \<Rightarrow> db \<Rightarrow> bool" where
  "own_job job d \<longleftrightarrow> job \<in> set (scan_jobs d) \<and> j_status job = RUNNING"

lemma own_rows_spare:
  assumes "consistent d" "own_job job d" "own_rows job d d'"
    and "j \<in> set (scan_jobs d)" "j_status j = RUNNING" "j_id j \<noteq> j_id job"
  shows "j \<in> set (scan_jobs d') \<and> (\<forall>i \<in> set (images d). i_id i = j_image_id j \<longrightarrow> i \<in> set (images d'))"
proof -
  have "j_image_id j \<noteq> j_image_id job"
    using running_images_differ [OF assms(1,4), of job] assms(2,5,6) by (auto simp: own_job_def)
  with assms(3-6) show ?thesis by (auto simp: keeps_rows_def)
qed

interpretation sys_finish: system_op "\<lambda>d. fst (finish_job env s t job plan d)"
    "\<lambda>d. own_job job d \<and> sp_image plan \<in> set (images d) \<and> i_id (sp_image plan) = j_image_id job"
    "\<lambda>j. j_id j \<noteq> j_id job" for env s t job plan
proof
  fix d
  assume con: "consistent d"
    and fits: "own_job job d \<and> sp_image plan \<in> set (images d) \<and> i_id (sp_image plan) = j_image_id job"
  then show "consistent (fst (finish_job env s t job plan d))" by (intro finish_job_keeps) simp_all
  have "own_rows job d (fst (finish_job env s t job plan d))"
    using fits by (intro own_rows_finish [OF con]) (simp_all add: own_job_def)
  with con fits show "j \<in> set (scan_jobs (fst (finish_job env s t job plan d))) \<and>
      (\<forall>i \<in> set (images d). i_id i = j_image_id j \<longrightarrow> i \<in> set (images (fst (finish_job env s t job plan d))))"
    if "j \<in> set (scan_jobs d)" "j_status j = RUNNING" "j_id j \<noteq> j_id job" for j
    using own_rows_spare that by blast
qed

interpretation sys_unprepared: system_op "\<lambda>d. fst (execute env s t id job d)"
    "\<lambda>d. own_job job d \<and> (\<nexists>plan. prepare env s t job d = Inr (Some plan))"
    "\<lambda>j. j_id j \<noteq> j_id job" for env s t job
proof
  fix d
  assume con: "consistent d" and fits: "own_job job d \<and> (\<nexists>plan. prepare env s t job d = Inr (Some plan))"
  then have job: "job \<in> set (scan_jobs d)" "\<nexists>plan. prepare env s t job d = Inr (Some plan)"
    by (simp_all add: own_job_def)
  show "consistent (fst (execute env s t id job d))" by (rule own_rows_unprepared(2) [OF con job])
  show "j \<in> set (scan_jobs (fst (execute env s t id job d))) \<and>
      (\<forall>i \<in> set (images d). i_id i = j_image_id j \<longrightarrow> i \<in> set (images (fst (execute env s t id job d))))"
    if "j \<in> set (scan_jobs d)" "j_status j = RUNNING" "j_id j \<noteq> j_id job" for j
    using own_rows_spare [OF con _ own_rows_unprepared(1) [OF con job]] fits that by blast
qed

end
