(* ===== verification/System_Props.thy ===== *)
theory System_Props
  imports System Worker_Props Api_Props
begin

text \<open>
  The properties of the processes together: the invariant of every reachable state and the
  refinement of the system to its views.
\<close>

section \<open>The invariant holds in every reachable state\<close>

lemma inv_init: "sys_inv sys_init"
  by (simp add: sys_inv_def sys_init_def consistent_empty)

lemma inv_claim:
  assumes "sys_inv st" "job \<in> set (scan_jobs (sys_db st))" "j_status job = RUNNING"
    and "\<And>v j. job_of (sys_phase st v) = Some j \<Longrightarrow> j_id j \<noteq> j_id job"
  shows "sys_inv (st\<lparr>sys_phase := (sys_phase st)(w := Claimed job)\<rparr>)"
  using assms(1-3) by (auto simp: sys_inv_def dest: assms(4) assms(4) [symmetric])

lemma inv_prepare:
  assumes "sys_inv st" "sys_phase st w = Claimed job" "sp_image plan \<in> set (images (sys_db st))"
    and "i_id (sp_image plan) = j_image_id job"
  shows "sys_inv (st\<lparr>sys_phase := (sys_phase st)(w := Scanning job plan)\<rparr>)"
proof -
  have "job_of (((sys_phase st)(w := Scanning job plan)) v) = job_of (sys_phase st v)" for v
    using assms(2) by simp
  then show ?thesis using assms by (simp add: sys_inv_def)
qed

lemma inv_release: "sys_inv st \<Longrightarrow> sys_inv (st\<lparr>sys_phase := (sys_phase st)(w := Idle)\<rparr>)"
  by (auto simp: sys_inv_def)

lemma same_holder:
  assumes "sys_inv st" "job_of (sys_phase st w) = Some job" "job_of (sys_phase st v) = Some job'" "v \<noteq> w"
  shows "j_id job' \<noteq> j_id job"
  using assms by (auto simp: sys_inv_def)

lemma with_db: "st\<lparr>sys_db := d\<rparr> = \<lparr>sys_db = d, sys_phase = sys_phase st\<rparr>"
  "st\<lparr>sys_db := d, sys_phase := p\<rparr> = \<lparr>sys_db = d, sys_phase = p\<rparr>"
  by (cases st; simp)+

lemma prepare_plan:
  assumes "prepare env s t job d = Inr (Some plan)"
  shows "sp_image plan \<in> set (images d)" "i_id (sp_image plan) = j_image_id job"
  using assms find_row_SomeD [of i_id "j_image_id job" "images d" "sp_image plan"]
  by (auto simp: prepare_def split: option.splits sum.splits prod.splits)

lemma claimed_job:
  assumes "consistent d" "claim locked ts now lease d = (d', Some job)"
  shows "job \<in> set (scan_jobs d')" "j_status job = RUNNING"
    "\<And>j. j \<in> set (scan_jobs d) \<Longrightarrow> j_status j = RUNNING \<Longrightarrow> j_id j \<noteq> j_id job"
proof -
  obtain c where c: "next_claimable locked ts d = Some c" "job = c\<lparr>j_status := RUNNING, j_lease_until := Some (now + seconds lease)\<rparr>"
    "scan_jobs d' = update_rows (\<lambda>r. j_id r = j_id c) (merge_job c job) (scan_jobs d)"
    using assms(2) by (auto simp: claim_def Let_def split: option.splits)
  note mem = next_claimable_SomeD(1) [OF c(1)]
  show "job \<in> set (scan_jobs d')"
    using mem c(2) unfolding c(3) set_update_rows by (auto intro!: image_eqI [where x = c])
  show "j_status job = RUNNING" by (simp add: c(2))
  show "j_id j \<noteq> j_id job" if "j \<in> set (scan_jobs d)" "j_status j = RUNNING" for j
    using next_claimable_SomeD [OF c(1)] that c(2)
      unique_onD [OF keys_okD(3) [OF consistentD(1) [OF assms(1)]] that(1) mem]
    by (auto simp: claimable_def)
qed

lemma step_inv:
  assumes "sys_step s st st'" "sys_inv st"
  shows "sys_inv st'"
  using assms(1)
proof (cases rule: sys_step.cases)
  case (seed_step ts d' n)
  with sys_seed.keeps_inv [OF assms(2), of "sys_phase st" ts] show ?thesis by (simp add: with_db)
next
  case (request_step name tag urgent now ts d' r)
  with sys_request.keeps_inv [OF assms(2), of "sys_phase st" name tag urgent now ts] show ?thesis by (simp add: with_db)
next
  case (tick_step stmt_ts rc now ec ts d' n)
  have "sys_inv \<lparr>sys_db = tick_op s stmt_ts rc now ec ts (sys_db st), sys_phase = sys_phase st\<rparr>"
    by (rule sys_tick.keeps_inv [OF assms(2)]) (use tick_step(2) in \<open>simp_all add: live_leases_def\<close>)
  with tick_step show ?thesis by (simp add: with_db)
next
  case (claim_step w locked stmt_ts now d' job)
  let ?st = "\<lparr>sys_db = fst (claim locked stmt_ts now (lease_seconds s) (sys_db st)), sys_phase = sys_phase st\<rparr>"
  have inv: "sys_inv ?st" by (rule sys_claim.keeps_inv [OF assms(2)]) simp_all
  note cl = claimed_job [OF sys_invD(1) [OF assms(2)] claim_step(3)]
  have "sys_inv (?st\<lparr>sys_phase := (sys_phase ?st)(w := Claimed job)\<rparr>)"
  proof (rule inv_claim [OF inv])
    show "job \<in> set (scan_jobs (sys_db ?st))" using cl(1) claim_step(3) by simp
    show "j_status job = RUNNING" by (rule cl(2))
    show "j_id j \<noteq> j_id job" if "job_of (sys_phase ?st v) = Some j" for v j
      using sys_invD(2) [OF assms(2), of v j] cl(3) that by simp
  qed
  with claim_step show ?thesis by (simp add: with_db)
next
  case (prepare_step w job env t plan)
  with inv_prepare [OF assms(2)] prepare_plan show ?thesis by blast
next
  case (unprepared_step w job env t d' err)
  have own: "own_job job (sys_db st)"
    using sys_invD(2) [OF assms(2), of w job] unprepared_step(2) by (simp add: own_job_def)
  have "sys_inv \<lparr>sys_db = fst (execute env s t id job (sys_db st)), sys_phase = (sys_phase st)(w := Idle)\<rparr>"
  proof (rule sys_unprepared.keeps_inv [OF assms(2)])
    show "own_job job (sys_db st) \<and> (\<nexists>plan. prepare env s t job (sys_db st) = Inr (Some plan))"
      using own unprepared_step(3) by blast
    show "((sys_phase st)(w := Idle)) v = Idle \<or> ((sys_phase st)(w := Idle)) v = sys_phase st v \<and>
        (\<forall>j. job_of (((sys_phase st)(w := Idle)) v) = Some j \<longrightarrow> j_id j \<noteq> j_id job)" for v
      using same_holder [OF assms(2), of w job v] unprepared_step(2) by auto
  qed
  with unprepared_step show ?thesis by (simp add: with_db)
next
  case (finish_step w job plan env t d' err)
  have own: "own_job job (sys_db st)"
    using sys_invD(2) [OF assms(2), of w job] finish_step(2) by (simp add: own_job_def)
  have "sys_inv \<lparr>sys_db = fst (finish_job env s t job plan (sys_db st)), sys_phase = (sys_phase st)(w := Idle)\<rparr>"
  proof (rule sys_finish.keeps_inv [OF assms(2)])
    show "own_job job (sys_db st) \<and> sp_image plan \<in> set (images (sys_db st)) \<and> i_id (sp_image plan) = j_image_id job"
      using own sys_invD(3) [OF assms(2) finish_step(2)] by blast
    show "((sys_phase st)(w := Idle)) v = Idle \<or> ((sys_phase st)(w := Idle)) v = sys_phase st v \<and>
        (\<forall>j. job_of (((sys_phase st)(w := Idle)) v) = Some j \<longrightarrow> j_id j \<noteq> j_id job)" for v
      using same_holder [OF assms(2), of w job v] finish_step(2) by auto
  qed
  with finish_step show ?thesis by (simp add: with_db)
next
  case (crash_step w)
  with inv_release [OF assms(2)] show ?thesis by simp
qed

lemma reachable_inv: "reachable s st \<Longrightarrow> sys_inv st"
  by (induction rule: reachable.induct) (blast intro: inv_init step_inv)+

lemma reachable_steps: "(sys_step s)\<^sup>*\<^sup>* st st' \<Longrightarrow> reachable s st \<Longrightarrow> reachable s st'"
  by (induction rule: rtranclp_induct) (auto intro: reachable.step)

text \<open>C1. In whatever order the transactions of the API, the seed script, the scheduler and any number
  of workers follow one another, each whole before the next, and wherever a worker dies, the
  database is consistent in every state the system can reach, as long as no scheduler pass finds
  a live worker's lease expired: every key and pointer is right, and every rollup and every count
  says what the current findings say. No two workers ever hold jobs of the same image, and a
  worker's job and image are as it read them.\<close>

theorem every_reachable_state_is_consistent:
  assumes "reachable s st"
  shows "consistent (sys_db st) \<and>
    (\<forall>w v job job'. w \<noteq> v \<and> job_of (sys_phase st w) = Some job \<and> job_of (sys_phase st v) = Some job' \<longrightarrow>
       j_image_id job \<noteq> j_image_id job') \<and>
    (\<forall>w job plan. sys_phase st w = Scanning job plan \<longrightarrow>
       job \<in> set (scan_jobs (sys_db st)) \<and> sp_image plan \<in> set (images (sys_db st)))"
proof -
  note inv = reachable_inv [OF assms]
  have "j_image_id job \<noteq> j_image_id job'"
    if "w \<noteq> v" "job_of (sys_phase st w) = Some job" "job_of (sys_phase st v) = Some job'" for w v job job'
    using running_images_differ [OF sys_invD(1) [OF inv], of job job'] sys_invD(2) [OF inv that(2)]
      sys_invD(2) [OF inv that(3)] same_holder [OF inv that(2,3)] that(1) by auto
  moreover have "job \<in> set (scan_jobs (sys_db st)) \<and> sp_image plan \<in> set (images (sys_db st))"
    if "sys_phase st w = Scanning job plan" for w job plan
    using sys_invD(2) [OF inv, of w job] sys_invD(3) [OF inv that] that by simp
  ultimately show ?thesis using sys_invD(1) [OF inv] by blast
qed

theorem every_reachable_state_is_consistent_witness:
  "\<exists>st job. reachable default_settings st \<and> job_of (sys_phase st 7) = Some job \<and> j_image_id job = 1 \<and> consistent (sys_db st)"
proof -
  let ?d1 = "fst (seed 0 empty_db)"
  have "case request_scan ''nginx'' ''1.19'' False 5 5 ?d1 of Inr (d2, r) \<Rightarrow>
      (case claim [] 10 10 (lease_seconds default_settings) d2 of (d3, Some job) \<Rightarrow> j_image_id job = 1 | _ \<Rightarrow> False)
    | Inl _ \<Rightarrow> False"
    by code_simp
  then obtain d2 r d3 job where run: "request_scan ''nginx'' ''1.19'' False 5 5 ?d1 = Inr (d2, r)"
    "claim [] 10 10 (lease_seconds default_settings) d2 = (d3, Some job)" "j_image_id job = 1"
    by (auto split: sum.splits prod.splits option.splits)
  let ?st1 = "sys_init\<lparr>sys_db := ?d1\<rparr>"
  let ?st2 = "?st1\<lparr>sys_db := d2\<rparr>"
  let ?st3 = "?st2\<lparr>sys_db := d3, sys_phase := (sys_phase ?st2)(7 := Claimed job)\<rparr>"
  have "sys_step default_settings sys_init ?st1"
    by (rule seed_step [of 0 _ _ "snd (seed 0 empty_db)"]) (simp add: sys_init_def)
  moreover have "sys_step default_settings ?st1 ?st2"
    by (rule request_step [where name = "''nginx''" and tag = "''1.19''" and urgent = False and now = 5 and ts = 5])
       (simp add: run(1))
  moreover have "sys_step default_settings ?st2 ?st3"
    by (rule claim_step [where locked = "[]" and stmt_ts = 10 and now = 10]) (simp_all add: run(2) sys_init_def)
  ultimately have "reachable default_settings ?st3"
    by (blast intro: reachable.intros)
  from this every_reachable_state_is_consistent [OF this] run(3) show ?thesis
    by (intro exI [of _ ?st3] exI [of _ job]) simp
qed

section \<open>The system refines its views\<close>

text \<open>The abstract system: what each image shows, starting from nothing; the only event publishes a
  parsed report as what one image shows.\<close>

inductive published :: "(int \<Rightarrow> view_entry set) \<Rightarrow> bool" where
  nothing: "published (\<lambda>_. {})"
| publish: "published v \<Longrightarrow> parse_report lib raw = Inr report \<Longrightarrow> published (v(k := report_view report))"

lemma queue_step_view:
  "image_view (enqueue_step k p sf now ts d) = image_view d"
  "image_view (fst (build_promote_statement k now d)) = image_view d"
  "image_view (fst (claim locked ts now lease d)) = image_view d"
  unfolding image_view_def [abs_def] view_entry_of_def [abs_def] package_of_def
  by (simp_all only: enq.same_tables enq.same_current prom.same_tables prom.same_current clm.same_tables clm.same_current)

lemma seed_view:
  assumes "consistent d" "seed ts d = (d', n)"
  shows "image_view d' = image_view d"
proof -
  have dist: "distinct BRIEF_IMAGES" by code_simp
  from assms(2) obtain ids where ins: "insert_images ts BRIEF_IMAGES d = (d', ids)"
    by (auto simp: seed_def split: prod.splits)
  note f = insert_images_facts [OF assms(1) dist ins]
  then obtain new where "d' = d\<lparr>images := images d @ new, next_image_id := next_image_id d'\<rparr>" by blast
  then have "packages d' = packages d" by (metis db.select_convs db.surjective db.update_convs)
  with f(2) show ?thesis by (simp add: image_view_def [abs_def] view_entry_of_def [abs_def] package_of_def)
qed

lemma request_view: "image_view (request_op name tag urgent now ts d) = image_view d"
  by (cases rule: request_op_cases [where name = name and tag = tag and urgent = urgent and now = now and ts = ts and d = d])
     (simp_all only: queue_step_view)

lemma request_view': "request_scan name tag urgent now ts d = Inr (d', r) \<Longrightarrow> image_view d' = image_view d"
  using request_view [where name = name and tag = tag and urgent = urgent and now = now and ts = ts and d = d] by simp

lemma perform_parsed:
  "perform env s t plan = Inr (Scanned digest report) \<Longrightarrow> \<exists>raw. parse_report (env_lib env) raw = Inr report"
  by (auto simp: perform_def Let_def split: sum.splits if_splits)

lemma tick_view: "consistent d \<Longrightarrow> tick s ts rc now ec tt d = Inr (d', n) \<Longrightarrow> image_view d' = image_view d"
  by (erule tick_goes_through [where s = s and stmt_ts = ts and rc = rc and now = now and ec = ec and txn_ts = tt]) simp

lemma error_view: "consistent d \<Longrightarrow> image_view (fst (commit d (handle_error s b job img e t d))) = image_view d"
  using handle_error_keeps(2) by (auto simp: commit_def split: sum.splits)

lemma unprepared_view:
  assumes "consistent d" "\<nexists>plan. prepare env s t job d = Inr (Some plan)"
  shows "image_view (fst (execute env s t id job d)) = image_view d"
  using assms error_view [OF assms(1)] save_job_view
  by (auto simp: execute_def split: sum.splits option.splits)

lemma write_result_view:
  assumes "consistent d" "sp_image plan \<in> set (images d)" "write_result plan job t result d = Inr d'"
  shows "image_view d' = (case result of Unchanged _ \<Rightarrow> image_view d
    | Scanned _ report \<Rightarrow> (image_view d)(i_id (sp_image plan) := report_view report))"
proof (cases result)
  case (Unchanged digest)
  let ?r = "record_skip (sp_image plan) (Some job) (plan_meta plan digest (t_completed t)) d"
  from assms(3) Unchanged obtain d1 k where r: "?r = Inr (d1, k)" "save_job job (complete job) d1 = Inr d'"
    by (cases ?r) (auto simp: write_result_def)
  from save_job_view [OF r(2)] skip.same_view [OF r(1)] Unchanged show ?thesis by (simp add: fun_eq_iff)
next
  case (Scanned digest report)
  let ?m = "plan_meta plan (str_or (pr_digest report) digest) (t_completed t)"
  let ?r = "record_success (sp_image plan) (Some job) report ?m d"
  from assms(3) Scanned obtain d1 k where r: "?r = Inr (d1, k)" "save_job job (complete job) d1 = Inr d'"
    by (cases ?r) (auto simp: write_result_def)
  then have rec: "recording (sp_image plan) report ?m d"
    "d1 = recompute_cve_rollup (affected_cves (sp_image plan) report d) (base_db (sp_image plan) (Some job) report ?m d)"
    using assms(1,2) by (auto simp: recording_def record_success_eq)
  from save_job_view [OF r(2)] recorded_view_this [OF rec(1)] recorded_view_other [OF rec(1)] Scanned show ?thesis
    by (auto simp: fun_eq_iff rec(2))
qed

text \<open>A step of the system is seen as a publication by a worker that finishes, or not at all.\<close>

definition publishes :: "settings \<Rightarrow> system \<Rightarrow> system \<Rightarrow> bool" where
  "publishes s st st' \<longleftrightarrow> (\<exists>w job plan env t digest report.
     sys_phase st w = Scanning job plan \<and> sys_phase st' w = Idle \<and> perform env s t plan = Inr (Scanned digest report) \<and>
     image_view (sys_db st') = (image_view (sys_db st))(j_image_id job := report_view report))"

lemma step_view:
  assumes "sys_inv st" "sys_step s st st'"
  shows "image_view (sys_db st') = image_view (sys_db st) \<or> publishes s st st'"
  using assms(2)
proof (cases rule: sys_step.cases)
  case (finish_step w job plan env t d' err)
  note con = sys_invD(1) [OF assms(1)] and scan = sys_invD(3) [OF assms(1) finish_step(2)]
  have fin: "finish_job env s t job plan (sys_db st) = (d', err)" by (rule finish_step(3))
  show ?thesis
  proof (cases "\<exists>result. perform env s t plan = Inr result \<and> (\<exists>x. write_result plan job t result (sys_db st) = Inr x)")
    case False
    then have "image_view d' = image_view (sys_db st)"
      using fin error_view [OF con] by (auto simp: finish_job_def split: sum.splits) (metis fst_conv)+
    with finish_step show ?thesis by simp
  next
    case True
    then obtain result where p: "perform env s t plan = Inr result" "write_result plan job t result (sys_db st) = Inr d'"
      using fin by (auto simp: finish_job_def split: sum.splits)
    note v = write_result_view [OF con _ p(2)]
    show ?thesis
    proof (cases result)
      case (Unchanged digest)
      with v scan finish_step show ?thesis by simp
    next
      case (Scanned digest report)
      have "sys_phase st' w = Idle" "image_view (sys_db st') = (image_view (sys_db st))(j_image_id job := report_view report)"
        using v scan Scanned finish_step(1) by simp_all
      with finish_step(2) p(1) Scanned have "publishes s st st'" unfolding publishes_def by blast
      then show ?thesis ..
    qed
  qed
next
  case (seed_step ts d' n)
  with seed_view [OF sys_invD(1) [OF assms(1)]] show ?thesis by simp
next
  case (request_step name tag urgent now ts d' r)
  with request_view' show ?thesis by simp
next
  case (tick_step stmt_ts rc now ec ts d' n)
  with tick_view [OF sys_invD(1) [OF assms(1)]] show ?thesis by simp
next
  case (claim_step w locked stmt_ts now d' job)
  with queue_step_view(3) [of locked stmt_ts now "lease_seconds s" "sys_db st"] show ?thesis by simp
next
  case (unprepared_step w job env t d' err)
  with unprepared_view [OF sys_invD(1) [OF assms(1)], of env s t job] show ?thesis by simp
qed simp_all

text \<open>C4. The system refines a map of published reports. In every reachable state what each image
  shows is nothing, or one whole report as the parser gave it, as if reports had been published
  one after the other; and a step changes what is shown only when a worker finishes a scan, and
  then only for that worker's image, at once and to exactly the report of that scan. No
  request, scheduler pass, seed, skip, failure, deferral or crash is ever seen.\<close>

theorem system_refines_views:
  assumes "reachable s st"
  shows "published (image_view (sys_db st)) \<and>
    (\<forall>st'. sys_step s st st' \<longrightarrow> image_view (sys_db st') = image_view (sys_db st) \<or> publishes s st st')"
proof
  show "published (image_view (sys_db st))"
    using assms
  proof induction
    case start
    have "image_view empty_db = (\<lambda>_. {})" by (simp add: image_view_def current_findings_def empty_db_def fun_eq_iff)
    then show ?case by (simp add: sys_init_def published.nothing)
  next
    case (step st st')
    from step_view [OF reachable_inv [OF step.hyps(1)] step.hyps(2)] show ?case
      using step.IH published.publish perform_parsed unfolding publishes_def by metis
  qed
  show "\<forall>st'. sys_step s st st' \<longrightarrow> image_view (sys_db st') = image_view (sys_db st) \<or> publishes s st st'"
    using step_view [OF reachable_inv [OF assms]] by blast
qed

theorem system_refines_views_witness:
  "\<exists>st. reachable default_settings st \<and> images (sys_db st) \<noteq> [] \<and> published (image_view (sys_db st))"
proof -
  let ?st = "sys_init\<lparr>sys_db := fst (seed 0 empty_db)\<rparr>"
  have "sys_step default_settings sys_init ?st"
    by (rule seed_step [of 0 _ _ "snd (seed 0 empty_db)"]) (simp add: sys_init_def)
  then have r: "reachable default_settings ?st" by (blast intro: reachable.intros)
  have "images (fst (seed 0 empty_db)) \<noteq> []" by code_simp
  with r system_refines_views [OF r] show ?thesis by (intro exI [of _ ?st]) simp
qed

end
