(* ===== verification/Json_Encode.thy ===== *)
theory Json_Encode
  imports Json
begin

text \<open>
  The encoder \<open>json.dumps\<close> on an object of scalars, which is what a log line and an error
  body are, and the proof that the decoder of theory Json reads it back. A float here is one
  rounded to a digit after the point, the only kind the program puts into a field.
\<close>

section \<open>Scalars\<close>

text \<open>A value of a log field: None, a bool, an int, such a float (in tenths), a string, or anything
  else, of which \<open>default=str\<close> keeps the text.\<close>

datatype scalar =
    SNull
  | SBool bool
  | SInt int
  | STenths nat
  | SStr string
  | SOther string

fun scalar_json :: "scalar \<Rightarrow> json" where
  "scalar_json SNull = JNull"
| "scalar_json (SBool b) = JBool b"
| "scalar_json (SInt n) = JInt n"
| "scalar_json (STenths n) = JFloat (int n) (- 1)"
| "scalar_json (SStr s) = JStr s"
| "scalar_json (SOther s) = JStr s"

fun dump_scalar :: "scalar \<Rightarrow> string" where
  "dump_scalar SNull = ''null''"
| "dump_scalar (SBool b) = (if b then ''true'' else ''false'')"
| "dump_scalar (SInt n) = str_of_int n"
| "dump_scalar (STenths n) = digits_of (int n div 10) @ ''.'' @ digits_of (int n mod 10)"
| "dump_scalar (SStr s) = dump_string s"
| "dump_scalar (SOther s) = dump_string s"

definition dump_object :: "(string \<times> scalar) list \<Rightarrow> string" where
  "dump_object kvs = CHR ''{'' # join '', '' (map (\<lambda>(k, v). dump_string k @ '': '' @ dump_scalar v) kvs) @ ''}''"

section \<open>Numbers are read back\<close>

lemma digits_of_hd: "0 < n \<Longrightarrow> hd (digits_of n) \<noteq> CHR ''0''"
proof (induction n rule: digits_of.induct)
  case (1 n)
  show ?case
  proof (cases "n < 10")
    case True
    have "code (CHR ''0'') = 48" by (simp add: code_def)
    moreover have "code (chr_of (48 + n)) = 48 + n" using True 1(2) by simp
    ultimately have "chr_of (48 + n) \<noteq> CHR ''0''" using 1(2) by auto
    with True show ?thesis by (simp add: digits_of.simps [of n])
  next
    case False
    with 1 have "hd (digits_of (n div 10)) \<noteq> CHR ''0''" by simp
    with False show ?thesis by (simp add: digits_of.simps [of n])
  qed
qed

lemma digits_of_one: "0 \<le> n \<Longrightarrow> n < 10 \<Longrightarrow> digits_of n = [chr_of (48 + n)]"
  by (simp add: digits_of.simps [of n])

lemma span_digits_append:
  "list_all is_digit ds \<Longrightarrow> \<not> is_digit c \<Longrightarrow> span_digits (ds @ c # r) = (ds, c # r)"
  by (induction ds) (simp_all add: span_digits_def)

text \<open>What follows a value inside an object: no digit, no point and no exponent.\<close>

definition closes :: "char \<Rightarrow> bool" where
  "closes c = (c = CHR '','' \<or> c = CHR ''}'')"

lemma closes_facts:
  assumes "closes c"
  shows "\<not> is_digit c" "scan_fraction (c # r) = None" "scan_exponent (c # r) = None"
  using assms by (auto simp: closes_def is_digit_def code_def scan_fraction_def scan_exponent_def)

lemma starts_with_single: "starts_with [x] s \<longleftrightarrow> s \<noteq> [] \<and> hd s = x"
  by (cases s) auto

lemma leading_zero:
  assumes "0 \<le> n"
  shows "(if starts_with ''0'' (digits_of n) then (take 1 (digits_of n), drop 1 (digits_of n) @ t) else (digits_of n, t))
    = (digits_of n, t)"
proof (cases "n = 0")
  case True
  then show ?thesis by (simp add: digits_of_one)
next
  case False
  with assms digits_of_hd [of n] show ?thesis by (simp add: starts_with_single)
qed

lemma scan_number_digits:
  assumes "0 \<le> n" "closes c"
  shows "scan_number (digits_of n @ c # r) = Some (JInt n, c # r)"
    and "scan_number (CHR ''-'' # digits_of n @ c # r) = Some (JInt (- n), c # r)"
proof -
  have dig: "list_all is_digit (digits_of n)" by (rule digits_of_digits [OF assms(1)])
  then have "is_digit (hd (digits_of n))" by (cases "digits_of n") auto
  then have neg: "\<not> starts_with ''-'' (digits_of n @ c # r)"
    using digit_not_punct(1) by (auto simp: starts_with_single)
  note span = span_digits_append [OF dig closes_facts(1) [OF assms(2)]]
  note facts = closes_facts(2,3) [OF assms(2)] digits_of_value [OF assms(1)] leading_zero [OF assms(1)]
  show "scan_number (digits_of n @ c # r) = Some (JInt n, c # r)"
    unfolding scan_number_def using neg by (simp add: span facts Let_def)
  show "scan_number (CHR ''-'' # digits_of n @ c # r) = Some (JInt (- n), c # r)"
    unfolding scan_number_def by (simp add: span facts Let_def)
qed

lemma scan_number_tenths:
  assumes "closes c"
  shows "scan_number (dump_scalar (STenths n) @ c # r) = Some (JFloat (int n) (- 1), c # r)"
proof -
  let ?w = "int n div 10" and ?f = "int n mod 10"
  have dig: "list_all is_digit (digits_of ?w)" by (rule digits_of_digits) simp
  then have "is_digit (hd (digits_of ?w))" by (cases "digits_of ?w") auto
  then have neg: "\<not> starts_with ''-'' (digits_of ?w @ CHR ''.'' # digits_of ?f @ c # r)"
    using digit_not_punct(1) by (auto simp: starts_with_single)
  have pt: "\<not> is_digit (CHR ''.'')" by (simp add: is_digit_def code_def)
  have one: "digits_of ?f = [chr_of (48 + ?f)]" by (rule digits_of_one) simp_all
  have fd: "list_all is_digit (digits_of ?f)" by (rule digits_of_digits) simp
  note span = span_digits_append [OF dig pt] span_digits_append [OF fd closes_facts(1) [OF assms], of r]
  have frac: "scan_fraction (CHR ''.'' # digits_of ?f @ c # r) = Some (digits_of ?f, c # r)"
    by (simp add: scan_fraction_def span Let_def)
  have val: "digits_value 0 (digits_of ?w @ digits_of ?f) = int n"
  proof -
    have "0 \<le> ?f" "?f < 10" by simp_all
    then have "digit_of (chr_of (48 + ?f)) = ?f" by (simp add: digit_of_def)
    then show ?thesis by (simp add: one digits_value_snoc digits_of_value)
  qed
  show ?thesis
    unfolding scan_number_def using neg
    by (simp add: span(1) leading_zero frac val closes_facts(3) [OF assms] Let_def del: digits_of_nonempty) (simp add: one)
qed

section \<open>Objects are read back\<close>

lemma scan_value_atom:
  assumes "s = x # xs" "x \<notin> {CHR 0x22, CHR ''{'', CHR ''[''}"
  shows "scan_value (Suc n) s = scan_atom s"
  using assms by simp

lemma scan_atom_number:
  assumes "scan_number s = Some q" "s = x # xs" "is_digit x \<or> x = CHR ''-''"
  shows "scan_atom s = Some q" and "x \<notin> {CHR 0x22, CHR ''{'', CHR ''[''}"
proof -
  have "x \<noteq> CHR ''n''" "x \<noteq> CHR ''t''" "x \<noteq> CHR ''f''" and quote: "x \<notin> {CHR 0x22, CHR ''{'', CHR ''[''}"
    using assms(3) by (auto simp: is_digit_def code_def)
  then show "scan_atom s = Some q" "x \<notin> {CHR 0x22, CHR ''{'', CHR ''[''}"
    using assms(1,2) by (simp_all add: scan_atom_def)
qed

lemma digits_of_Cons: "0 \<le> n \<Longrightarrow> \<exists>x xs. digits_of n = x # xs \<and> is_digit x"
  using digits_of_digits [of n] by (cases "digits_of n") auto

lemma scan_scalar:
  assumes "closes c"
  shows "scan_value (Suc n) (dump_scalar v @ c # r) = Some (scalar_json v, c # r)"
proof (cases v)
  case SNull
  then show ?thesis by (simp add: scan_atom_def)
next
  case (SBool b)
  then show ?thesis by (cases b) (simp_all add: scan_atom_def)
next
  case (SInt k)
  define m where "m = (if k < 0 then - k else k)"
  then have m: "0 \<le> m" by simp
  from digits_of_Cons [OF m] obtain x xs where x: "digits_of m = x # xs" "is_digit x" by blast
  show ?thesis
  proof (cases "k < 0")
    case True
    with SInt have s: "dump_scalar v @ c # r = CHR ''-'' # digits_of m @ c # r" by (simp add: str_of_int_def m_def)
    note num = scan_number_digits(2) [OF m assms, of r]
    have "scan_value (Suc n) (dump_scalar v @ c # r) = Some (JInt (- m), c # r)"
      unfolding s using scan_atom_number [OF num refl] scan_value_atom [OF refl] by simp
    with SInt True show ?thesis by (simp add: m_def del: scan_value.simps)
  next
    case False
    with SInt have s: "dump_scalar v @ c # r = digits_of m @ c # r" by (simp add: str_of_int_def m_def)
    have cons: "digits_of m @ c # r = x # (xs @ c # r)" by (simp add: x)
    note num = scan_number_digits(1) [OF m assms, of r]
    have "scan_value (Suc n) (dump_scalar v @ c # r) = Some (JInt m, c # r)"
      unfolding s using scan_atom_number [OF num cons disjI1 [OF x(2)]] scan_value_atom [OF cons] by simp
    with SInt False show ?thesis by (simp add: m_def del: scan_value.simps)
  qed
next
  case (STenths k)
  have "0 \<le> int k div 10" by simp
  from digits_of_Cons [OF this] obtain x xs where x: "digits_of (int k div 10) = x # xs" "is_digit x" by blast
  have cons: "dump_scalar (STenths k) @ c # r = x # (xs @ ''.'' @ digits_of (int k mod 10) @ c # r)" by (simp add: x)
  note num = scan_number_tenths [OF assms, of k r]
  show ?thesis
    unfolding STenths scan_value_atom [OF cons scan_atom_number(2) [OF num cons disjI1 [OF x(2)]]]
      scan_atom_number(1) [OF num cons disjI1 [OF x(2)]] by simp
next
  case (SStr s)
  then show ?thesis by (simp add: scan_value_dump del: scan_value.simps)
next
  case (SOther s)
  then show ?thesis by (simp add: scan_value_dump del: scan_value.simps)
qed

abbreviation dump_member :: "string \<times> scalar \<Rightarrow> string" where
  "dump_member \<equiv> \<lambda>(k, v). dump_string k @ '': '' @ dump_scalar v"

lemma skip_ws_scalar: "skip_ws (dump_scalar v @ r) = dump_scalar v @ r"
proof (cases v)
  case (SInt n)
  have "\<exists>x xs. str_of_int n = x # xs \<and> \<not> is_ws x"
  proof (cases "n < 0")
    case True
    then show ?thesis by (simp add: str_of_int_def is_ws_def code_def)
  next
    case False
    then obtain x xs where "digits_of n = x # xs" "is_digit x" using digits_of_Cons [of n] by auto
    with False show ?thesis by (auto simp: str_of_int_def is_ws_def is_digit_def code_def)
  qed
  with SInt show ?thesis by (auto simp: skip_ws_def)
next
  case (STenths n)
  have "0 \<le> int n div 10" by simp
  from digits_of_Cons [OF this] obtain x xs where "digits_of (int n div 10) = x # xs" "is_digit x" by blast
  then have "\<not> is_ws x" by (auto simp: is_ws_def is_digit_def code_def)
  with STenths \<open>digits_of _ = _\<close> show ?thesis by (simp add: skip_ws_def)
qed (simp_all add: skip_ws_def dump_string_def is_ws_def code_def)

lemma scan_members_step:
  assumes "closes c"
  shows "scan_members (Suc (Suc n)) (dump_member (k, v) @ c # r) =
    (if c = CHR ''}'' then Some ([(k, scalar_json v)], r)
     else (case scan_members (Suc n) (skip_ws r) of None \<Rightarrow> None | Some (kvs, q) \<Rightarrow> Some ((k, scalar_json v) # kvs, q)))"
proof -
  have str: "dump_string k @ t = CHR 0x22 # (concat (map dump_char k) @ CHR 0x22 # t)" for t
    by (simp add: dump_string_def)
  have colon: "skip_ws (CHR '':'' # t) = CHR '':'' # t" "skip_ws (CHR '' '' # t) = skip_ws t" for t
    by (simp_all add: skip_ws_def is_ws_def code_def)
  have fin: "skip_ws (c # r) = c # r" using assms by (auto simp: closes_def skip_ws_def is_ws_def code_def)
  have "dump_member (k, v) @ c # r = CHR 0x22 # (concat (map dump_char k) @ CHR 0x22 # (CHR '':'' # CHR '' '' # dump_scalar v @ c # r))"
    by (simp add: str)
  then show ?thesis
    using assms
    by (simp add: scan_string_dump colon skip_ws_scalar scan_scalar [OF assms] fin closes_def
        del: scan_value.simps scan_members.simps(1)) (auto simp: closes_def)
qed

lemma scan_members_dump:
  "kvs \<noteq> [] \<Longrightarrow> length kvs + 1 \<le> n \<Longrightarrow>
   scan_members n (join '', '' (map dump_member kvs) @ CHR ''}'' # r) = Some (map (\<lambda>(k, v). (k, scalar_json v)) kvs, r)"
proof (induction kvs arbitrary: n)
  case (Cons kv kvs)
  obtain m where n: "n = Suc (Suc m)" using Cons.prems by (cases n; cases "n - 1") auto
  obtain k v where kv: "kv = (k, v)" by (cases kv)
  show ?case
  proof (cases kvs)
    case Nil
    have "closes (CHR ''}'')" by (simp add: closes_def)
    from scan_members_step [OF this, of m k v r] Nil show ?thesis
      by (simp add: n kv del: scan_members.simps)
  next
    case (Cons kv' kvs')
    let ?rest = "join '', '' (map dump_member kvs) @ CHR ''}'' # r"
    have "\<exists>t. join '', '' (map dump_member kvs) = CHR 0x22 # t"
      using Cons by (cases kvs'; cases kv') (simp_all add: dump_string_def)
    then have ws: "skip_ws (CHR '' '' # ?rest) = ?rest"
      by (auto simp: skip_ws_def is_ws_def code_def)
    have rest: "scan_members (Suc m) ?rest = Some (map (\<lambda>(k, v). (k, scalar_json v)) kvs, r)"
      using Cons.IH [of "Suc m"] Cons Cons.prems n by simp
    have "closes (CHR '','')" by (simp add: closes_def)
    from scan_members_step [OF this, of m k v "CHR '' '' # ?rest"]
    have "scan_members n (dump_member kv @ CHR '','' # CHR '' '' # ?rest)
        = Some (map (\<lambda>(k, v). (k, scalar_json v)) (kv # kvs), r)"
      unfolding ws rest by (simp add: n kv del: scan_members.simps)
    moreover have "join '', '' (map dump_member (kv # kvs)) @ CHR ''}'' # r = dump_member kv @ CHR '','' # CHR '' '' # ?rest"
      by (simp add: Cons)
    ultimately show ?thesis by (simp only:)
  qed
qed simp

lemma dict_set_new: "k \<notin> fst ` set kvs \<Longrightarrow> dict_set k v kvs = kvs @ [(k, v)]"
  by (induction kvs) auto

lemma dict_of_distinct:
  assumes "distinct (map fst kvs)"
  shows "dict_of kvs = kvs"
proof -
  have "foldl (\<lambda>d (k, v). dict_set k v d) acc kvs = acc @ kvs" if "distinct (map fst (acc @ kvs))" for acc
    using that
  proof (induction kvs arbitrary: acc)
    case (Cons kv kvs)
    then show ?case by (cases kv) (simp add: dict_set_new)
  qed simp
  from this [of "[]"] assms show ?thesis by (simp add: dict_of_def)
qed

text \<open>The encoding of an object with distinct keys is read back as that object.\<close>

lemma json_loads_dump_object:
  assumes "distinct (map fst kvs)"
  shows "json_loads (dump_object kvs) = Some (JObj (map (\<lambda>(k, v). (k, scalar_json v)) kvs))"
proof -
  let ?s = "dump_object kvs"
  have ws: "skip_ws ?s = ?s" by (simp add: dump_object_def skip_ws_def is_ws_def code_def)
  let ?n = "2 * length ?s + 1 + length kvs"
  have "scan_value (Suc ?n) ?s = Some (JObj (map (\<lambda>(k, v). (k, scalar_json v)) kvs), [])"
  proof (cases kvs)
    case Nil
    then show ?thesis
      by (simp only: scan_value.simps(2)) (simp add: dump_object_def skip_ws_def is_ws_def code_def)
  next
    case (Cons kv kvs')
    let ?b = "join '', '' (map dump_member kvs) @ ''}''"
    have "\<exists>t. ?b = CHR 0x22 # t"
      using Cons by (cases kvs'; cases kv) (simp_all add: dump_string_def)
    then have "skip_ws ?b = ?b" "\<not> starts_with ''}'' ?b"
      by (auto simp: skip_ws_def is_ws_def code_def)
    moreover have "dict_of (map (\<lambda>(k, v). (k, scalar_json v)) kvs) = map (\<lambda>(k, v). (k, scalar_json v)) kvs"
    proof (rule dict_of_distinct)
      have "map fst (map (\<lambda>(k, v). (k, scalar_json v)) kvs) = map fst kvs" by (induction kvs) auto
      with assms show "distinct (map fst (map (\<lambda>(k, v). (k, scalar_json v)) kvs))" by (simp only:)
    qed
    ultimately show ?thesis
      using scan_members_dump [of kvs ?n "[]"] Cons
      by (simp add: dump_object_def del: scan_members.simps)
  qed
  moreover have "json_loads ?s = (case scan_value (Suc ?n) ?s of None \<Rightarrow> None
      | Some (v, r) \<Rightarrow> if skip_ws r = [] then Some v else None)"
    using scan_value_fuel [of ?s "Suc ?n"] unfolding ws by simp
  ultimately show ?thesis
    by (simp add: skip_ws_def del: scan_value.simps)
qed

end
