(* ===== verification/Logs.thy ===== *)
theory Logs
  imports Json_Encode Config
begin

text \<open>
  Structured logging (src/app/obs/logging.py) and the request middleware of the API
  (src/app/api/middleware.py): the context variable with \<open>bind\<close> and \<open>bound\<close>, the two
  formatters, the configuration of the loggers, and what the middleware does with a request.
  A piece of code is what it does to the context and the lines it emits (\<open>action\<close>), so that
  blocks, rebinding and exceptions compose as they do in the program.
\<close>

section \<open>The context\<close>

type_synonym fields = "(string \<times> scalar) list"

text \<open>The context variable; None is its default.\<close>

type_synonym log_context = "fields option"

definition current_fields :: "log_context \<Rightarrow> fields" where
  "current_fields c = (case c of None \<Rightarrow> [] | Some f \<Rightarrow> f)"

text \<open>\<open>{**a, **b}\<close>.\<close>

definition dict_merge :: "fields \<Rightarrow> fields \<Rightarrow> fields" where
  "dict_merge a b = foldl (\<lambda>d (k, v). dict_set k v d) a b"

definition bind_fields :: "fields \<Rightarrow> log_context \<Rightarrow> log_context" where
  "bind_fields fs c = Some (dict_merge (current_fields c) fs)"

text \<open>What code does with the log: \<open>bind\<close>, emit a record, raise, and run a \<open>bound\<close> block.\<close>

datatype 'r action =
    Bind fields
  | Emit 'r
  | Raise
  | Bound fields "'r action list"

text \<open>The context afterwards, the records with the context each was emitted in, and whether an
  exception is on its way out. Leaving a block resets the variable to its token.\<close>

fun run_actions :: "'r action list \<Rightarrow> log_context \<Rightarrow> log_context \<times> ('r \<times> fields) list \<times> bool" where
  "run_actions [] c = (c, [], False)"
| "run_actions (Bind fs # acts) c = run_actions acts (bind_fields fs c)"
| "run_actions (Emit r # acts) c =
     (let (c', ls, x) = run_actions acts c in (c', (r, current_fields c) # ls, x))"
| "run_actions (Raise # acts) c = (c, [], True)"
| "run_actions (Bound fs body # acts) c =
     (let (_, ls, x) = run_actions body (bind_fields fs c)
      in if x then (c, ls, True)
         else (let (c', ls', x') = run_actions acts c in (c', ls @ ls', x')))"

section \<open>Records and formatters\<close>

text \<open>A log record: \<open>lr_dict\<close> are the items of its \<open>__dict__\<close>, standard attributes and
  \<open>extra=\<close> alike; \<open>lr_context\<close> is the attribute the filter sets; \<open>lr_error\<close> the formatted
  exception.\<close>

record log_record =
  lr_created :: time
  lr_level :: string
  lr_name :: string
  lr_msg :: string
  lr_dict :: fields
  lr_context :: "fields option"
  lr_error :: "string option"

definition RESERVED :: "string list" where
  "RESERVED =
     [''name'', ''msg'', ''args'', ''levelname'', ''levelno'', ''pathname'', ''filename'', ''module'',
      ''exc_info'', ''exc_text'', ''stack_info'', ''lineno'', ''funcName'', ''created'', ''msecs'',
      ''relativeCreated'', ''thread'', ''threadName'', ''processName'', ''process'', ''asctime'',
      ''message'', ''taskName'', ''context'']"

text \<open>The filter of the handler.\<close>

definition add_context :: "log_context \<Rightarrow> log_record \<Rightarrow> log_record" where
  "add_context c r = r\<lparr>lr_context := Some (current_fields c)\<rparr>"

definition extra_fields :: "log_record \<Rightarrow> fields" where
  "extra_fields r = dict_merge (case lr_context r of None \<Rightarrow> [] | Some f \<Rightarrow> f)
     (filter (\<lambda>(k, v). k \<notin> set RESERVED) (lr_dict r))"

definition json_payload :: "(time \<Rightarrow> string) \<Rightarrow> string \<Rightarrow> log_record \<Rightarrow> fields" where
  "json_payload isofmt service r =
     (let payload = dict_merge (dict_merge
            [(''ts'', SStr (isofmt (lr_created r))), (''level'', SStr (lr_level r)), (''service'', SStr service),
             (''logger'', SStr (lr_name r)), (''msg'', SStr (lr_msg r))]
            (case lr_context r of None \<Rightarrow> [] | Some f \<Rightarrow> f))
            (filter (\<lambda>(k, v). k \<notin> set RESERVED) (lr_dict r))
      in case lr_error r of None \<Rightarrow> payload | Some e \<Rightarrow> dict_set ''error'' (SStr e) payload)"

definition json_format :: "(time \<Rightarrow> string) \<Rightarrow> string \<Rightarrow> log_record \<Rightarrow> string" where
  "json_format isofmt service r = dump_object (json_payload isofmt service r)"

text \<open>\<open>str(v)\<close> of a field's value.\<close>

fun scalar_str :: "scalar \<Rightarrow> string" where
  "scalar_str SNull = ''None''"
| "scalar_str (SBool b) = (if b then ''True'' else ''False'')"
| "scalar_str (SInt n) = str_of_int n"
| "scalar_str (STenths n) = dump_scalar (STenths n)"
| "scalar_str (SStr s) = s"
| "scalar_str (SOther s) = s"

text \<open>\<open>base\<close> is the line of \<open>logging.Formatter\<close> in the format the constructor gives.\<close>

definition text_format :: "(log_record \<Rightarrow> string) \<Rightarrow> log_record \<Rightarrow> string" where
  "text_format base r =
     (let fs = extra_fields r
      in if fs = [] then base r
         else base r @ '' '' @ join '' '' (map (\<lambda>(k, v). k @ ''='' @ scalar_str v) fs))"

definition handler_format ::
    "settings \<Rightarrow> (time \<Rightarrow> string) \<Rightarrow> (log_record \<Rightarrow> string) \<Rightarrow> string \<Rightarrow> log_context \<Rightarrow> log_record \<Rightarrow> string" where
  "handler_format s isofmt base service c r =
     (case log_format s of
        LOG_JSON \<Rightarrow> json_format isofmt service (add_context c r)
      | LOG_TEXT \<Rightarrow> text_format base (add_context c r))"

section \<open>The loggers\<close>

record logger =
  lg_handlers :: "log_format_kind list"
  lg_propagate :: bool
  lg_level :: int

text \<open>The level names of the logging module; another name is a ValueError.\<close>

definition level_value :: "string \<Rightarrow> int option" where
  "level_value = map_of [(''CRITICAL'', 50), (''FATAL'', 50), (''ERROR'', 40), (''WARN'', 30), (''WARNING'', 30),
     (''INFO'', 20), (''DEBUG'', 10), (''NOTSET'', 0)]"

definition configure :: "settings \<Rightarrow> (string \<Rightarrow> logger) \<Rightarrow> (string \<Rightarrow> logger) option" where
  "configure s lgs =
     (case level_value (upper (log_level s)) of
        None \<Rightarrow> None
      | Some level \<Rightarrow>
          (let lgs = lgs(''root'' := (lgs ''root'')\<lparr>lg_handlers := [log_format s], lg_level := level\<rparr>);
               lgs = foldl (\<lambda>m name. m(name := (m name)\<lparr>lg_handlers := [], lg_propagate := (name \<noteq> ''uvicorn.access'')\<rparr>))
                       lgs [''uvicorn'', ''uvicorn.error'', ''uvicorn.access'']
           in Some (if level > 10 then lgs(''httpx'' := (lgs ''httpx'')\<lparr>lg_level := 30\<rparr>) else lgs)))"

section \<open>The request middleware\<close>

record http_request =
  rq_method :: string
  rq_path :: string
  rq_request_id :: "string option"

record http_response =
  hr_status :: int
  hr_body :: "fields option"
  hr_request_id :: "string option"

text \<open>A line of the middleware: level, message and extra fields.\<close>

type_synonym access_line = "string \<times> string \<times> fields"

definition request_id_of :: "http_request \<Rightarrow> string \<Rightarrow> string" where
  "request_id_of rq fresh = str_or (rq_request_id rq) fresh"

definition access_level :: "http_request \<Rightarrow> int \<Rightarrow> string" where
  "access_level rq status =
     (if status \<ge> 500 then ''ERROR'' else if rq_path rq = ''/health'' then ''DEBUG'' else ''INFO'')"

text \<open>\<open>inner\<close> is what the rest of the application logs while it handles the request, \<open>answer\<close> its
  response, or None for an exception. The middleware gives the actions of the whole request and
  the response, None when the exception goes on.\<close>

definition request_context ::
    "http_request \<Rightarrow> string \<Rightarrow> nat \<Rightarrow> access_line action list \<Rightarrow> http_response option \<Rightarrow>
     access_line action list \<times> http_response option" where
  "request_context rq fresh elapsed inner answer =
     (let rid = request_id_of rq fresh;
          what = [(''method'', SStr (rq_method rq)), (''path'', SStr (rq_path rq))]
      in case answer of
           None \<Rightarrow>
             ([Bound [(''request_id'', SStr rid)]
                (inner @ [Emit (''ERROR'', ''request failed'', what @ [(''duration_ms'', STenths elapsed)]), Raise])], None)
         | Some response \<Rightarrow>
             ([Bound [(''request_id'', SStr rid)]
                (inner @ [Emit (access_level rq (hr_status response), ''request'',
                   what @ [(''status'', SInt (hr_status response)), (''duration_ms'', STenths elapsed)])])],
              Some (response\<lparr>hr_request_id := Some rid\<rparr>)))"

definition unhandled_error :: "string option \<Rightarrow> http_response" where
  "unhandled_error rid =
     \<lparr>hr_status = 500,
      hr_body = Some [(''detail'', SStr ''internal server error''),
                      (''request_id'', case rid of None \<Rightarrow> SNull | Some i \<Rightarrow> SStr i)],
      hr_request_id = (case rid of None \<Rightarrow> None | Some i \<Rightarrow> if i = [] then None else Some i)\<rparr>"

text \<open>The middleware inside the server's error handler (src/app/api/main.py).\<close>

definition serve_request ::
    "http_request \<Rightarrow> string \<Rightarrow> nat \<Rightarrow> access_line action list \<Rightarrow> http_response option \<Rightarrow>
     access_line action list \<times> http_response" where
  "serve_request rq fresh elapsed inner answer =
     (case request_context rq fresh elapsed inner answer of
        (acts, Some response) \<Rightarrow> (acts, response)
      | (acts, None) \<Rightarrow> (acts, unhandled_error (Some (request_id_of rq fresh))))"

end
