(* ===== verification/Logs_Props.thy ===== *)
theory Logs_Props
  imports Logs
begin

text \<open>
  The properties of logging: the context is scoped, a log line is one JSON object that gives
  every field back, and every line of a request and its answer carry the request's id.
\<close>

section \<open>Scoping\<close>

lemma map_of_merge: "map_of (dict_merge a b) k = (case map_of (rev b) k of None \<Rightarrow> map_of a k | Some v \<Rightarrow> Some v)"
proof (induction b arbitrary: a)
  case Nil
  then show ?case by (simp add: dict_merge_def)
next
  case (Cons kv b)
  obtain k' v' where kv: "kv = (k', v')" by (cases kv)
  have "dict_merge a (kv # b) = dict_merge (dict_set k' v' a) b" by (simp add: dict_merge_def kv)
  with Cons.IH [of "dict_set k' v' a"] show ?case
    by (simp add: kv map_add_def split: option.splits)
qed

lemma merge_other: "k \<notin> fst ` set b \<Longrightarrow> map_of (dict_merge a b) k = map_of a k"
  by (simp add: map_of_merge map_of_eq_None_iff [THEN iffD2])

lemma merge_bound:
  assumes "distinct (map fst b)" "(k, v) \<in> set b"
  shows "map_of (dict_merge a b) k = Some v"
proof -
  have "distinct (map fst (rev b))" using assms(1) by (simp add: rev_map [symmetric])
  with assms(2) have "map_of (rev b) k = Some v" by simp
  then show ?thesis by (simp add: map_of_merge)
qed

lemma distinct_merge: "distinct (map fst a) \<Longrightarrow> distinct (map fst (dict_merge a b))"
proof (induction b arbitrary: a)
  case Nil
  then show ?case by (simp add: dict_merge_def)
next
  case (Cons kv b)
  obtain k v where kv: "kv = (k, v)" by (cases kv)
  have "dict_merge a (kv # b) = dict_merge (dict_set k v a) b" by (simp add: dict_merge_def kv)
  with Cons.IH [OF distinct_dict_set [OF Cons.prems], of k v] show ?case by simp
qed

text \<open>The keys a piece of code binds, in any block of it.\<close>

fun rebound :: "'r action list \<Rightarrow> string set" where
  "rebound [] = {}"
| "rebound (Bind fs # acts) = fst ` set fs \<union> rebound acts"
| "rebound (Emit r # acts) = rebound acts"
| "rebound (Raise # acts) = {}"
| "rebound (Bound fs body # acts) = fst ` set fs \<union> rebound body \<union> rebound acts"

lemma current_bind: "current_fields (bind_fields fs c) = dict_merge (current_fields c) fs"
  by (simp add: bind_fields_def current_fields_def)

lemma lines_keep_field:
  "run_actions acts c = (c', ls, x) \<Longrightarrow> k \<notin> rebound acts \<Longrightarrow> map_of (current_fields c) k = Some v \<Longrightarrow>
   (r, fs) \<in> set ls \<Longrightarrow> map_of fs k = Some v"
proof (induction acts c arbitrary: c' ls x rule: run_actions.induct)
  case (1 c)
  then show ?case by simp
next
  case (2 fs acts c)
  then show ?case by (simp add: current_bind merge_other)
next
  case (3 r' acts c)
  then show ?case by (auto split: prod.splits)
next
  case (4 acts c)
  then show ?case by simp
next
  case (5 fs' body acts c)
  obtain c1 ls1 x1 where body: "run_actions body (bind_fields fs' c) = (c1, ls1, x1)" by (metis prod_cases3)
  have inner: "(r, fs) \<in> set ls1 \<Longrightarrow> map_of fs k = Some v"
    using 5(1) [OF body] 5(4,5) by (simp add: current_bind merge_other)
  show ?case
  proof (cases x1)
    case True
    with 5(3,6) body inner show ?thesis by simp
  next
    case False
    obtain c2 ls2 x2 where rest: "run_actions acts c = (c2, ls2, x2)" by (metis prod_cases3)
    have "(r, fs) \<in> set ls2 \<Longrightarrow> map_of fs k = Some v"
      using 5(2) [OF body [symmetric] refl refl False rest] 5(4,5) by simp
    with 5(3,6) body rest False inner show ?thesis by auto
  qed
qed

text \<open>The context is scoped. Whatever a \<open>bound\<close> block does (bind further fields, open blocks,
  raise), the context afterwards is the one before; and every record emitted in it, at any
  depth, carries each field of the block with its value, unless the code in the block binds
  that very key again.\<close>

theorem bound_block_is_scoped:
  assumes "run_actions [Bound fs body] c = (c', ls, raised)" and "distinct (map fst fs)"
  shows "c' = c \<and>
    (\<forall>r ctx. (r, ctx) \<in> set ls \<longrightarrow> (\<forall>k v. (k, v) \<in> set fs \<and> k \<notin> rebound body \<longrightarrow> map_of ctx k = Some v)) \<and>
    (\<forall>r ctx. (r, ctx) \<in> set ls \<longrightarrow>
       (\<forall>k v. k \<notin> fst ` set fs \<union> rebound body \<and> map_of (current_fields c) k = Some v \<longrightarrow> map_of ctx k = Some v))"
proof -
  obtain c1 ls1 x1 where body: "run_actions body (bind_fields fs c) = (c1, ls1, x1)" by (metis prod_cases3)
  with assms(1) have eq: "c' = c" "ls = ls1" by (simp_all split: if_splits)
  have "map_of ctx k = Some v" if "(r, ctx) \<in> set ls" "(k, v) \<in> set fs" "k \<notin> rebound body" for r ctx k v
    using lines_keep_field [OF body that(3), of v r ctx] merge_bound [OF assms(2) that(2)] that(1) eq(2)
    by (simp add: current_bind)
  moreover have "map_of ctx k = Some v"
    if "(r, ctx) \<in> set ls" "k \<notin> fst ` set fs \<union> rebound body" "map_of (current_fields c) k = Some v" for r ctx k v
    using lines_keep_field [OF body, of k v r ctx] that eq(2) by (simp add: current_bind merge_other)
  ultimately show ?thesis using eq(1) by blast
qed

theorem bound_block_is_scoped_witness:
  "run_actions [Bound [(''job_id'', SInt 41)] [Bind [(''digest'', SStr ''d'')], Emit (1::nat), Raise]] None
     = (None, [(1, [(''job_id'', SInt 41), (''digest'', SStr ''d'')])], True) \<and>
   map_of [(''job_id'', SInt 41), (''digest'', SStr ''d'')] ''job_id'' = Some (SInt 41)"
proof -
  have run: "run_actions [Bound [(''job_id'', SInt 41)] [Bind [(''digest'', SStr ''d'')], Emit (1::nat), Raise]] None
      = (None, [(1, [(''job_id'', SInt 41), (''digest'', SStr ''d'')])], True)"
    by (simp add: bind_fields_def current_fields_def dict_merge_def)
  from bound_block_is_scoped [OF run] run show ?thesis by simp
qed

section \<open>A log line is read back\<close>

lemma payload_distinct: "distinct (map fst (json_payload isofmt service r))"
  by (auto simp: json_payload_def Let_def intro!: distinct_dict_set distinct_merge split: option.split)

lemma map_of_scalar: "map_of (map (\<lambda>(k, v). (k, scalar_json v)) kvs) k = map_option scalar_json (map_of kvs k)"
  by (induction kvs) auto

lemma payload_lookup:
  assumes "distinct (map fst (current_fields c))" and "distinct (map fst (lr_dict r))"
  shows "map_of (json_payload isofmt service (add_context c r)) k =
    (if k = ''error'' \<and> lr_error r \<noteq> None then map_option SStr (lr_error r)
     else if k \<notin> set RESERVED \<and> k \<in> fst ` set (lr_dict r) then map_of (lr_dict r) k
     else if k \<in> fst ` set (current_fields c) then map_of (current_fields c) k
     else [''ts'' \<mapsto> SStr (isofmt (lr_created r)), ''level'' \<mapsto> SStr (lr_level r), ''service'' \<mapsto> SStr service,
           ''logger'' \<mapsto> SStr (lr_name r), ''msg'' \<mapsto> SStr (lr_msg r)] k)"
proof -
  let ?ex = "filter (\<lambda>(k, v). k \<notin> set RESERVED) (lr_dict r)"
  have rev_lookup: "map_of (rev xs) k = map_of xs k" if "distinct (map fst xs)" for xs :: fields
    using that map_of_inject_set [of "rev xs" xs] by (simp add: rev_map [symmetric])
  have "map_of (filter (\<lambda>(k, v). k \<notin> set RESERVED) xs) k
      = (if k \<in> set RESERVED then None else map_of xs k)" for xs :: fields
    by (induction xs) (auto split: if_splits)
  note ex = this [of "lr_dict r"]
  have dist: "distinct (map fst ?ex)" using assms(2) by (simp add: distinct_map_filter)
  have core: "map_of [(''ts'', a), (''level'', b), (''service'', x), (''logger'', y), (''msg'', z)]
      = [''ts'' \<mapsto> a, ''level'' \<mapsto> b, ''service'' \<mapsto> x, ''logger'' \<mapsto> y, ''msg'' \<mapsto> z]" for a b x y z :: scalar
    by (intro ext) simp
  have pick: "(case (if a then None else x) of None \<Rightarrow> (case y of None \<Rightarrow> q | Some v \<Rightarrow> Some v) | Some v \<Rightarrow> Some v)
      = (if \<not> a \<and> x \<noteq> None then x else if y \<noteq> None then y else q)" for a and x y q :: "scalar option"
    by (cases a; cases x; cases y) simp_all
  have dom: "k \<in> fst ` set xs \<longleftrightarrow> map_of xs k \<noteq> None" for xs :: fields by (simp add: map_of_eq_None_iff)
  let ?m = "dict_merge (dict_merge [(''ts'', SStr (isofmt (lr_created r))), (''level'', SStr (lr_level r)), (''service'', SStr service),
    (''logger'', SStr (lr_name r)), (''msg'', SStr (lr_msg r))] (current_fields c)) ?ex"
  have lookup: "map_of ?m k = (if k \<notin> set RESERVED \<and> k \<in> fst ` set (lr_dict r) then map_of (lr_dict r) k
     else if k \<in> fst ` set (current_fields c) then map_of (current_fields c) k
     else [''ts'' \<mapsto> SStr (isofmt (lr_created r)), ''level'' \<mapsto> SStr (lr_level r), ''service'' \<mapsto> SStr service,
           ''logger'' \<mapsto> SStr (lr_name r), ''msg'' \<mapsto> SStr (lr_msg r)] k)"
    unfolding map_of_merge rev_lookup [OF dist] rev_lookup [OF assms(1)] ex pick core dom ..
  have "json_payload isofmt service (add_context c r)
      = (case lr_error r of None \<Rightarrow> ?m | Some e \<Rightarrow> dict_set ''error'' (SStr e) ?m)"
    by (simp add: json_payload_def add_context_def Let_def)
  with lookup show ?thesis by (cases "lr_error r") simp_all
qed

text \<open>C37. A JSON log line is one object that any JSON reader gives back (here the decoder of the
  program itself), whatever was logged, an exception included. Its fields are exactly these:
  \<open>error\<close>, the formatted exception, when there is one; every extra field that is not an attribute
  of the record itself; every field the context bound, unless an extra field has its name; and
  of time, level, service, logger and message each that nothing else has the name of.\<close>

theorem json_line_gives_fields_back:
  assumes "distinct (map fst (current_fields c))" and "distinct (map fst (lr_dict r))"
  shows "\<exists>kvs. json_loads (json_format isofmt service (add_context c r)) = Some (JObj kvs) \<and> distinct (map fst kvs) \<and>
    (\<forall>k. map_of kvs k = map_option scalar_json
      (if k = ''error'' \<and> lr_error r \<noteq> None then map_option SStr (lr_error r)
       else if k \<notin> set RESERVED \<and> k \<in> fst ` set (lr_dict r) then map_of (lr_dict r) k
       else if k \<in> fst ` set (current_fields c) then map_of (current_fields c) k
       else [''ts'' \<mapsto> SStr (isofmt (lr_created r)), ''level'' \<mapsto> SStr (lr_level r), ''service'' \<mapsto> SStr service,
             ''logger'' \<mapsto> SStr (lr_name r), ''msg'' \<mapsto> SStr (lr_msg r)] k))"
proof -
  let ?p = "json_payload isofmt service (add_context c r)"
  have "json_loads (json_format isofmt service (add_context c r)) = Some (JObj (map (\<lambda>(k, v). (k, scalar_json v)) ?p))"
    using json_loads_dump_object [OF payload_distinct, of isofmt service "add_context c r"] by (simp only: json_format_def)
  moreover have "distinct (map fst (map (\<lambda>(k, v). (k, scalar_json v)) ?p))"
    using payload_distinct [of isofmt service "add_context c r"] by (simp add: case_prod_unfold comp_def)
  ultimately show ?thesis
    by (auto simp: map_of_scalar payload_lookup [OF assms])
qed

definition sample_record :: log_record where
  "sample_record = \<lparr>lr_created = 0, lr_level = ''ERROR'', lr_name = ''app.scanner.worker'', lr_msg = ''scan failed'',
     lr_dict = [(''findings'', SInt 3), (''lineno'', SInt 145)], lr_context = None, lr_error = Some ''Traceback''\<rparr>"

theorem json_line_gives_fields_back_witness:
  "\<exists>kvs. json_loads (json_format (\<lambda>_. ''t'') ''worker'' (add_context (Some [(''job_id'', SInt 41)]) sample_record)) = Some (JObj kvs) \<and>
     map_of kvs ''job_id'' = Some (JInt 41) \<and> map_of kvs ''findings'' = Some (JInt 3) \<and> map_of kvs ''lineno'' = None \<and>
     map_of kvs ''service'' = Some (JStr ''worker'') \<and> map_of kvs ''logger'' = Some (JStr ''app.scanner.worker'') \<and>
     map_of kvs ''error'' = Some (JStr ''Traceback'')"
proof -
  have "distinct (map fst (current_fields (Some [(''job_id'', SInt 41)])))" "distinct (map fst (lr_dict sample_record))"
    by (simp_all add: current_fields_def sample_record_def)
  from json_line_gives_fields_back [OF this, of "\<lambda>_. ''t''" "''worker''"]
  show ?thesis by (auto simp: current_fields_def sample_record_def RESERVED_def)
qed

section \<open>Requests\<close>

lemma run_actions_append:
  "run_actions a c = (c1, ls1, False) \<Longrightarrow>
   run_actions (a @ b) c = (case run_actions b c1 of (c2, ls2, x) \<Rightarrow> (c2, ls1 @ ls2, x))"
proof (induction a c arbitrary: c1 ls1 rule: run_actions.induct)
  case (3 r acts c)
  then show ?case by (auto split: prod.splits)
next
  case (5 fs body acts c)
  obtain cb lb xb where body: "run_actions body (bind_fields fs c) = (cb, lb, xb)" by (metis prod_cases3)
  with 5(3) have xb: "\<not> xb" by (simp split: if_splits)
  obtain cr lr where rest: "run_actions acts c = (cr, lr, False)"
    using 5(3) body xb by (auto split: prod.splits)
  from 5(2) [OF body [symmetric] refl refl xb rest] 5(3) body xb rest show ?case
    by (auto split: prod.splits)
qed simp_all

lemma rebound_append: "rebound (a @ b) \<subseteq> rebound a \<union> rebound b"
  by (induction a rule: rebound.induct) auto

text \<open>C38. A request and its answer are tied together. Whether the application answers or raises, every
  line logged while the request is handled carries its id (the caller's, or a fresh one when the
  caller gave none or an empty one), the answer carries the same id, and exactly one access
  line is written after everything else: at ERROR for a 5xx or an exception, at DEBUG for a
  health check, else at INFO. An exception becomes a 500 that says nothing of it but the id.\<close>

theorem request_and_answer_share_id:
  assumes "serve_request rq fresh elapsed inner answer = (acts, response)" and "run_actions acts c = (c', ls, raised)"
    and "''request_id'' \<notin> rebound inner" and "fresh \<noteq> []" and "\<And>x. \<exists>cx lx. run_actions inner x = (cx, lx, False)"
    and "rid = (case rq_request_id rq of None \<Rightarrow> fresh | Some h \<Rightarrow> if h = [] then fresh else h)"
  shows "c' = c \<and> (raised \<longleftrightarrow> answer = None) \<and>
    (\<forall>(r, ctx) \<in> set ls. map_of ctx ''request_id'' = Some (SStr rid)) \<and>
    hr_request_id response = Some rid \<and>
    hr_status response = (case answer of None \<Rightarrow> 500 | Some a \<Rightarrow> hr_status a) \<and>
    (answer = None \<longrightarrow>
       hr_body response = Some [(''detail'', SStr ''internal server error''), (''request_id'', SStr rid)]) \<and>
    (\<exists>before level msg extra ctx. ls = before @ [((level, msg, extra), ctx)] \<and>
       length before = length (fst (snd (run_actions inner (bind_fields [(''request_id'', SStr rid)] c)))) \<and>
       level = (if hr_status response \<ge> 500 then ''ERROR'' else if rq_path rq = ''/health'' then ''DEBUG'' else ''INFO''))"
proof -
  have rid: "request_id_of rq fresh = rid" "rid \<noteq> []"
    using assms(4,6) by (auto simp: request_id_of_def split: option.splits)
  let ?f = "[(''request_id'', SStr rid)]"
  obtain cx lx where inner: "run_actions inner (bind_fields ?f c) = (cx, lx, False)" using assms(5) by blast
  define line where "line = (case answer of
      None \<Rightarrow> (''ERROR'', ''request failed'', [(''method'', SStr (rq_method rq)), (''path'', SStr (rq_path rq)), (''duration_ms'', STenths elapsed)])
    | Some a \<Rightarrow> (access_level rq (hr_status a), ''request'', [(''method'', SStr (rq_method rq)), (''path'', SStr (rq_path rq)),
        (''status'', SInt (hr_status a)), (''duration_ms'', STenths elapsed)]))"
  let ?tail = "if answer = None then [Emit line, Raise] else [Emit line]"
  have acts: "acts = [Bound ?f (inner @ ?tail)]"
    and resp: "response = (case answer of None \<Rightarrow> unhandled_error (Some rid) | Some a \<Rightarrow> a\<lparr>hr_request_id := Some rid\<rparr>)"
    using assms(1) by (auto simp: serve_request_def request_context_def rid line_def Let_def split: option.splits)
  have ls: "c' = c" "raised \<longleftrightarrow> answer = None" "ls = lx @ [(line, current_fields cx)]"
    using assms(2) run_actions_append [OF inner, of ?tail] by (auto simp: acts split: if_splits)
  have bound: "''request_id'' \<notin> rebound (inner @ ?tail)"
    using assms(3) rebound_append [of inner ?tail] by auto
  obtain x2 where run: "run_actions (inner @ ?tail) (bind_fields ?f c) = (cx, ls, x2)"
    using run_actions_append [OF inner, of ?tail] ls(3) by (auto split: if_splits)
  have cur: "map_of (current_fields (bind_fields ?f c)) ''request_id'' = Some (SStr rid)"
    by (simp add: current_bind dict_merge_def)
  have "map_of ctx ''request_id'' = Some (SStr rid)" if "(r, ctx) \<in> set ls" for r ctx
    by (rule lines_keep_field [OF run bound cur that])
  then have "\<forall>(r, ctx) \<in> set ls. map_of ctx ''request_id'' = Some (SStr rid)" by auto
  moreover have "fst line = (if hr_status response \<ge> 500 then ''ERROR'' else if rq_path rq = ''/health'' then ''DEBUG'' else ''INFO'')"
    by (cases answer) (simp_all add: line_def resp unhandled_error_def access_level_def)
  moreover obtain level msg extra where "line = (level, msg, extra)" by (metis prod_cases3)
  ultimately show ?thesis
    using ls inner rid(2) by (cases answer) (auto simp: resp unhandled_error_def)
qed

theorem request_and_answer_share_id_witness:
  "\<exists>ls. run_actions (fst (serve_request \<lparr>rq_method = ''GET'', rq_path = ''/api/cves'', rq_request_id = Some ''abc''\<rparr> ''f'' 12 [] None)) None
     = (None, ls, True) \<and> (\<forall>(r, ctx) \<in> set ls. map_of ctx ''request_id'' = Some (SStr ''abc''))"
proof -
  let ?rq = "\<lparr>rq_method = ''GET'', rq_path = ''/api/cves'', rq_request_id = Some ''abc''\<rparr>"
  obtain acts response where s: "serve_request ?rq ''f'' 12 [] None = (acts, response)" by (metis prod.exhaust)
  obtain c' ls raised where run: "run_actions acts None = (c', ls, raised)" by (metis prod_cases3)
  from request_and_answer_share_id [OF s run, where rid = "''abc''"] s run show ?thesis by simp
qed

end
