(* ===== verification/Schema.thy ===== *)
theory Schema
  imports Models
begin

text \<open>
  The schema the models declare (\<open>Base.metadata\<close> of src/app/domain/models.py), the migration
  that builds it (src/app/db/migrations/versions/0001_initial_schema.py) as the list of its
  operations with what each does to the catalogue of the database, and the script that
  compares the two (src/scripts/check_schema_drift.py).
\<close>

section \<open>Tables, columns, constraints, indexes\<close>

text \<open>Types as SQLAlchemy has them. \<open>T_NULL\<close> is the type of a column declared by its foreign
  key alone, which takes the type of the column it references; \<open>T_ENUM\<close> is an Enum with
  \<open>native_enum=False\<close>: its name, its length and the values it accepts.\<close>

datatype column_type =
    T_NULL
  | T_INTEGER
  | T_BIGINT
  | T_SMALLINT
  | T_BOOLEAN
  | T_TEXT
  | T_TIMESTAMPTZ
  | T_VARCHAR nat
  | T_ENUM string nat "string list"

text \<open>A server default: an SQL expression, a quoted string, or \<open>now()\<close>.\<close>

datatype server_default =
    D_text string
  | D_string string
  | D_now

text \<open>\<open>cl_references\<close>: the table and column of a foreign key, and ON DELETE CASCADE.\<close>

record column =
  cl_name :: string
  cl_type :: column_type
  cl_primary :: bool
  cl_nullable :: bool
  cl_default :: "server_default option"
  cl_references :: "(string \<times> string \<times> bool) option"

datatype table_constraint =
    Unique string "string list"
  | Check string string

record db_table =
  tb_name :: string
  tb_columns :: "column list"
  tb_constraints :: "table_constraint list"

text \<open>An index: its columns as written (with DESC), and the predicate of a partial index.\<close>

record db_index =
  ix_name :: string
  ix_table :: string
  ix_columns :: "string list"
  ix_unique :: bool
  ix_where :: "string option"

record schema =
  sc_tables :: "db_table list"
  sc_indexes :: "db_index list"

definition empty_schema :: schema where
  "empty_schema = \<lparr>sc_tables = [], sc_indexes = []\<rparr>"

text \<open>The shapes of column that occur.\<close>

definition primary :: "string \<Rightarrow> column_type \<Rightarrow> column" where
  "primary n t = \<lparr>cl_name = n, cl_type = t, cl_primary = True, cl_nullable = False,
     cl_default = None, cl_references = None\<rparr>"

definition required :: "string \<Rightarrow> column_type \<Rightarrow> column" where
  "required n t = \<lparr>cl_name = n, cl_type = t, cl_primary = False, cl_nullable = False,
     cl_default = None, cl_references = None\<rparr>"

definition nullable :: "string \<Rightarrow> column_type \<Rightarrow> column" where
  "nullable n t = (required n t)\<lparr>cl_nullable := True\<rparr>"

definition defaulted :: "string \<Rightarrow> column_type \<Rightarrow> server_default \<Rightarrow> column" where
  "defaulted n t e = (required n t)\<lparr>cl_default := Some e\<rparr>"

definition foreign :: "string \<Rightarrow> column_type \<Rightarrow> string \<Rightarrow> string \<Rightarrow> column" where
  "foreign n t tab col = (required n t)\<lparr>cl_references := Some (tab, col, True)\<rparr>"

text \<open>The literals below write a single quote as a backquote.\<close>

definition sq :: "string \<Rightarrow> string" where
  "sq s = map (\<lambda>c. if c = CHR ''`'' then CHR 0x27 else c) s"

section \<open>The models\<close>

text \<open>\<open>_enum\<close>: a string of at most 16 characters with the values of the enum.\<close>

definition model_enum :: "string list \<Rightarrow> string \<Rightarrow> column_type" where
  "model_enum vals n = T_ENUM n 16 vals"

definition job_status_type :: column_type where
  "job_status_type = model_enum (map job_status_value [PENDING, RUNNING, DONE, FAILED]) ''job_status''"

definition run_status_type :: column_type where
  "run_status_type = model_enum (map run_status_value [SUCCESS, RUN_FAILED, SKIPPED]) ''run_status''"

definition severity_type :: column_type where
  "severity_type = model_enum (map severity_value all_severities) ''severity''"

definition image_table :: db_table where
  "image_table = \<lparr>tb_name = ''image'',
     tb_columns = [
       primary ''id'' T_INTEGER,
       required ''name'' (T_VARCHAR 255),
       required ''tag'' (T_VARCHAR 128),
       nullable ''scan_interval_seconds'' T_INTEGER,
       defaulted ''enabled'' T_BOOLEAN (D_text ''true''),
       nullable ''current_scan_run_id'' T_BIGINT,
       defaulted ''consecutive_failures'' T_INTEGER (D_text ''0''),
       nullable ''last_scan_at'' T_TIMESTAMPTZ,
       nullable ''last_scan_status'' run_status_type,
       defaulted ''created_at'' T_TIMESTAMPTZ D_now],
     tb_constraints = [
       Unique ''uq_image_name_tag'' [''name'', ''tag''],
       Check ''ck_image_interval_positive''
         ''scan_interval_seconds IS NULL OR scan_interval_seconds > 0'']\<rparr>"

definition scan_job_table :: db_table where
  "scan_job_table = \<lparr>tb_name = ''scan_job'',
     tb_columns = [
       primary ''id'' T_BIGINT,
       foreign ''image_id'' T_NULL ''image'' ''id'',
       defaulted ''status'' job_status_type (D_string (job_status_value PENDING)),
       defaulted ''priority'' T_SMALLINT (D_text ''0''),
       defaulted ''scheduled_for'' T_TIMESTAMPTZ D_now,
       nullable ''lease_until'' T_TIMESTAMPTZ,
       defaulted ''attempts'' T_INTEGER (D_text ''0''),
       nullable ''last_error'' T_TEXT,
       defaulted ''created_at'' T_TIMESTAMPTZ D_now],
     tb_constraints = []\<rparr>"

definition scan_job_indexes :: "db_index list" where
  "scan_job_indexes = [
     \<lparr>ix_name = ''ix_scan_job_claimable'', ix_table = ''scan_job'',
      ix_columns = [''priority DESC'', ''scheduled_for''], ix_unique = False,
      ix_where = Some (sq ''status = `pending`'')\<rparr>,
     \<lparr>ix_name = ''uq_scan_job_active'', ix_table = ''scan_job'',
      ix_columns = [''image_id''], ix_unique = True,
      ix_where = Some (sq ''status IN (`pending`, `running`)'')\<rparr>,
     \<lparr>ix_name = ''ix_scan_job_lease'', ix_table = ''scan_job'',
      ix_columns = [''lease_until''], ix_unique = False,
      ix_where = Some (sq ''status = `running`'')\<rparr>]"

definition scan_run_table :: db_table where
  "scan_run_table = \<lparr>tb_name = ''scan_run'',
     tb_columns = [
       primary ''id'' T_BIGINT,
       foreign ''image_id'' T_NULL ''image'' ''id'',
       nullable ''scan_job_id'' T_BIGINT,
       defaulted ''started_at'' T_TIMESTAMPTZ D_now,
       nullable ''completed_at'' T_TIMESTAMPTZ,
       required ''status'' run_status_type,
       nullable ''digest'' (T_VARCHAR 128),
       nullable ''trivy_version'' (T_VARCHAR 64),
       nullable ''trivy_db_version'' (T_VARCHAR 64),
       nullable ''scan_flags_hash'' (T_VARCHAR 64),
       nullable ''duration_ms'' T_INTEGER,
       nullable ''error'' T_TEXT,
       nullable ''finding_count_critical'' T_INTEGER,
       nullable ''finding_count_high'' T_INTEGER,
       nullable ''finding_count_medium'' T_INTEGER,
       nullable ''finding_count_low'' T_INTEGER,
       nullable ''finding_count_unknown'' T_INTEGER],
     tb_constraints = []\<rparr>"

definition scan_run_indexes :: "db_index list" where
  "scan_run_indexes = [
     \<lparr>ix_name = ''ix_scan_run_image_completed'', ix_table = ''scan_run'',
      ix_columns = [''image_id'', ''completed_at DESC''], ix_unique = False, ix_where = None\<rparr>,
     \<lparr>ix_name = ''ix_scan_run_completed'', ix_table = ''scan_run'',
      ix_columns = [''completed_at DESC''], ix_unique = False, ix_where = None\<rparr>,
     \<lparr>ix_name = ''ix_scan_run_last_success'', ix_table = ''scan_run'',
      ix_columns = [''completed_at DESC''], ix_unique = False,
      ix_where = Some (sq ''status = `success`'')\<rparr>]"

definition package_table :: db_table where
  "package_table = \<lparr>tb_name = ''package'',
     tb_columns = [
       primary ''id'' T_BIGINT,
       required ''name'' (T_VARCHAR 255),
       required ''version'' (T_VARCHAR 255),
       defaulted ''type'' (T_VARCHAR 64) (D_string ''unknown'')],
     tb_constraints = [Unique ''uq_package_nvt'' [''name'', ''version'', ''type'']]\<rparr>"

definition cve_table :: db_table where
  "cve_table = \<lparr>tb_name = ''cve'',
     tb_columns = [
       primary ''id'' (T_VARCHAR 64),
       nullable ''title'' T_TEXT,
       nullable ''description'' T_TEXT,
       defaulted ''max_severity'' severity_type (D_string (severity_value UNKNOWN)),
       defaulted ''max_severity_rank'' T_SMALLINT (D_text ''0''),
       defaulted ''affected_image_count'' T_INTEGER (D_text ''0''),
       nullable ''published_at'' T_TIMESTAMPTZ,
       nullable ''last_modified_at'' T_TIMESTAMPTZ],
     tb_constraints = []\<rparr>"

definition cve_indexes :: "db_index list" where
  "cve_indexes = [
     \<lparr>ix_name = ''ix_cve_max_severity_rank'', ix_table = ''cve'',
      ix_columns = [''max_severity_rank''], ix_unique = False, ix_where = None\<rparr>,
     \<lparr>ix_name = ''ix_cve_live_by_severity'', ix_table = ''cve'',
      ix_columns = [''max_severity_rank DESC'', ''id''], ix_unique = False,
      ix_where = Some ''affected_image_count > 0''\<rparr>]"

definition finding_table :: db_table where
  "finding_table = \<lparr>tb_name = ''finding'',
     tb_columns = [
       primary ''id'' T_BIGINT,
       foreign ''image_id'' T_NULL ''image'' ''id'',
       foreign ''cve_id'' T_NULL ''cve'' ''id'',
       foreign ''package_id'' T_NULL ''package'' ''id'',
       nullable ''fixed_version'' (T_VARCHAR 255),
       required ''severity'' severity_type,
       required ''severity_rank'' T_SMALLINT,
       required ''first_seen_run_id'' T_BIGINT,
       required ''last_seen_run_id'' T_BIGINT],
     tb_constraints = [Unique ''uq_finding_img_cve_pkg'' [''image_id'', ''cve_id'', ''package_id'']]\<rparr>"

definition finding_indexes :: "db_index list" where
  "finding_indexes = [
     \<lparr>ix_name = ''ix_finding_cve'', ix_table = ''finding'',
      ix_columns = [''cve_id''], ix_unique = False, ix_where = None\<rparr>,
     \<lparr>ix_name = ''ix_finding_image_severity'', ix_table = ''finding'',
      ix_columns = [''image_id'', ''severity_rank''], ix_unique = False, ix_where = None\<rparr>,
     \<lparr>ix_name = ''ix_finding_last_seen'', ix_table = ''finding'',
      ix_columns = [''last_seen_run_id''], ix_unique = False, ix_where = None\<rparr>]"

text \<open>A column without a type of its own takes that of the column it references.\<close>

definition column_of :: "db_table list \<Rightarrow> string \<Rightarrow> string \<Rightarrow> column option" where
  "column_of ts tab col =
     (case find_row tb_name tab ts of
        None \<Rightarrow> None
      | Some t \<Rightarrow> find_row cl_name col (tb_columns t))"

definition resolve_column :: "db_table list \<Rightarrow> column \<Rightarrow> column" where
  "resolve_column ts c =
     (case (cl_type c, cl_references c) of
        (T_NULL, Some (tab, col, _)) \<Rightarrow>
          (case column_of ts tab col of
             None \<Rightarrow> c
           | Some target \<Rightarrow> c\<lparr>cl_type := cl_type target\<rparr>)
      | _ \<Rightarrow> c)"

definition resolve_table :: "db_table list \<Rightarrow> db_table \<Rightarrow> db_table" where
  "resolve_table ts t = t\<lparr>tb_columns := map (resolve_column ts) (tb_columns t)\<rparr>"

text \<open>\<open>Base.metadata\<close>.\<close>

definition models_schema :: schema where
  "models_schema =
     (let ts = [image_table, scan_job_table, scan_run_table, package_table, cve_table, finding_table]
      in \<lparr>sc_tables = map (resolve_table ts) ts,
          sc_indexes = scan_job_indexes @ scan_run_indexes @ cve_indexes @ finding_indexes\<rparr>)"

section \<open>The operations of a migration\<close>

datatype migration_op =
    Create_table db_table
  | Create_index string string "string list"
  | Execute string
  | Drop_table string
  | Drop_index string string

subsection \<open>Splitting text\<close>

fun split_on :: "(char \<Rightarrow> bool) \<Rightarrow> string \<Rightarrow> string list" where
  "split_on p [] = [[]]"
| "split_on p (c # cs) =
     (if p c then [] # split_on p cs
      else (case split_on p cs of
              [] \<Rightarrow> [[c]]
            | w # ws \<Rightarrow> (c # w) # ws))"

text \<open>\<open>text.split()\<close>.\<close>

definition split_words :: "string \<Rightarrow> string list" where
  "split_words s = filter (\<lambda>w. w \<noteq> []) (split_on is_space s)"

subsection \<open>CREATE INDEX\<close>

text \<open>The SQL the migration executes: \<open>CREATE [UNIQUE] INDEX name ON table (columns) [WHERE p]\<close>.
  Any other statement is outside the model (None).\<close>

definition index_body :: "bool \<Rightarrow> string \<Rightarrow> string \<Rightarrow> string list \<Rightarrow> db_index option" where
  "index_body uniq name tab ws =
     (case join '' '' ws of
        c # body \<Rightarrow>
          (if c \<noteq> CHR ''('' then None
           else (case partition_at (CHR '')'') body of (cols, rest) \<Rightarrow>
             (let cs = map strip (split_on (\<lambda>x. x = CHR '','') cols);
                  ix = \<lparr>ix_name = name, ix_table = tab, ix_columns = cs, ix_unique = uniq, ix_where = None\<rparr>
              in if strip rest = [] then Some ix
                 else if starts_with ''WHERE '' (strip rest)
                 then Some (ix\<lparr>ix_where := Some (drop 6 (strip rest))\<rparr>)
                 else None)))
      | [] \<Rightarrow> None)"

definition index_of_sql :: "string \<Rightarrow> db_index option" where
  "index_of_sql stmt =
     (case split_words stmt of
        w0 # w1 # w2 # w3 # w4 # ws \<Rightarrow>
          (if w0 = ''CREATE'' \<and> w1 = ''INDEX'' \<and> w3 = ''ON'' then index_body False w2 w4 ws
           else if w0 = ''CREATE'' \<and> w1 = ''UNIQUE'' \<and> w2 = ''INDEX'' \<and> w4 = ''ON'' then
             (case ws of tab # rest \<Rightarrow> index_body True w3 tab rest | [] \<Rightarrow> None)
           else None)
      | _ \<Rightarrow> None)"

subsection \<open>What an operation does to the catalogue\<close>

text \<open>Tables, indexes and the indexes behind primary keys and unique constraints share one name
  space.\<close>

fun constraint_relation :: "table_constraint \<Rightarrow> string list" where
  "constraint_relation (Unique n cols) = [n]"
| "constraint_relation (Check n e) = []"

definition table_relations :: "db_table \<Rightarrow> string list" where
  "table_relations t = tb_name t # (tb_name t @ ''_pkey'') # concat (map constraint_relation (tb_constraints t))"

definition relation_names :: "schema \<Rightarrow> string list" where
  "relation_names s = concat (map table_relations (sc_tables s)) @ map ix_name (sc_indexes s)"

text \<open>A foreign key needs its target, of the type of the referring column.\<close>

definition reference_holds :: "db_table list \<Rightarrow> column \<Rightarrow> bool" where
  "reference_holds ts c =
     (case cl_references c of
        None \<Rightarrow> True
      | Some (tab, col, _) \<Rightarrow>
          (case column_of ts tab col of
             None \<Rightarrow> False
           | Some target \<Rightarrow> cl_primary target \<and> cl_type target = cl_type c))"

definition create_table :: "db_table \<Rightarrow> schema \<Rightarrow> schema option" where
  "create_table t s =
     (if distinct (map cl_name (tb_columns t)) \<and> distinct (table_relations t)
         \<and> set (table_relations t) \<inter> set (relation_names s) = {}
         \<and> list_all (reference_holds (sc_tables s)) (tb_columns t)
      then Some (s\<lparr>sc_tables := sc_tables s @ [t]\<rparr>)
      else None)"

text \<open>The column an index entry names: its first word.\<close>

definition indexed_column :: "string \<Rightarrow> string" where
  "indexed_column entry = fst (partition_at (CHR '' '') entry)"

definition create_index :: "db_index \<Rightarrow> schema \<Rightarrow> schema option" where
  "create_index ix s =
     (if ix_name ix \<notin> set (relation_names s)
         \<and> list_all (\<lambda>e. column_of (sc_tables s) (ix_table ix) (indexed_column e) \<noteq> None) (ix_columns ix)
      then Some (s\<lparr>sc_indexes := sc_indexes s @ [ix]\<rparr>)
      else None)"

text \<open>DROP TABLE takes the indexes of the table with it, and is refused while a foreign key of
  another table points at it.\<close>

definition drop_table :: "string \<Rightarrow> schema \<Rightarrow> schema option" where
  "drop_table n s =
     (if n \<in> set (map tb_name (sc_tables s))
         \<and> list_all (\<lambda>t. tb_name t = n
              \<or> list_all (\<lambda>c. case cl_references c of None \<Rightarrow> True | Some (tab, _, _) \<Rightarrow> tab \<noteq> n) (tb_columns t))
             (sc_tables s)
      then Some \<lparr>sc_tables = filter (\<lambda>t. tb_name t \<noteq> n) (sc_tables s),
                 sc_indexes = filter (\<lambda>ix. ix_table ix \<noteq> n) (sc_indexes s)\<rparr>
      else None)"

definition drop_index :: "string \<Rightarrow> schema \<Rightarrow> schema option" where
  "drop_index n s =
     (if n \<in> set (map ix_name (sc_indexes s))
      then Some (s\<lparr>sc_indexes := filter (\<lambda>ix. ix_name ix \<noteq> n) (sc_indexes s)\<rparr>)
      else None)"

fun apply_op :: "migration_op \<Rightarrow> schema \<Rightarrow> schema option" where
  "apply_op (Create_table t) s = create_table t s"
| "apply_op (Create_index n tab cols) s =
     create_index \<lparr>ix_name = n, ix_table = tab, ix_columns = cols, ix_unique = False, ix_where = None\<rparr> s"
| "apply_op (Execute stmt) s =
     (case index_of_sql stmt of None \<Rightarrow> None | Some ix \<Rightarrow> create_index ix s)"
| "apply_op (Drop_table n) s = drop_table n s"
| "apply_op (Drop_index n tab) s = drop_index n s"

text \<open>The migration runs in one transaction: a refused operation undoes it all.\<close>

fun run_migration :: "migration_op list \<Rightarrow> schema \<Rightarrow> schema option" where
  "run_migration [] s = Some s"
| "run_migration (op # ops) s =
     (case apply_op op s of None \<Rightarrow> None | Some s' \<Rightarrow> run_migration ops s')"

section \<open>Migration 0001\<close>

definition JOB_STATUS :: column_type where
  "JOB_STATUS = T_ENUM ''job_status'' 16 [''pending'', ''running'', ''done'', ''failed'']"

definition RUN_STATUS :: column_type where
  "RUN_STATUS = T_ENUM ''run_status'' 16 [''success'', ''failed'', ''skipped'']"

definition SEVERITY :: column_type where
  "SEVERITY = T_ENUM ''severity'' 16 [''UNKNOWN'', ''LOW'', ''MEDIUM'', ''HIGH'', ''CRITICAL'']"

definition upgrade :: "migration_op list" where
  "upgrade = [
     Create_table \<lparr>tb_name = ''image'',
       tb_columns = [
         primary ''id'' T_INTEGER,
         required ''name'' (T_VARCHAR 255),
         required ''tag'' (T_VARCHAR 128),
         nullable ''scan_interval_seconds'' T_INTEGER,
         defaulted ''enabled'' T_BOOLEAN (D_text ''true''),
         nullable ''current_scan_run_id'' T_BIGINT,
         defaulted ''consecutive_failures'' T_INTEGER (D_text ''0''),
         nullable ''last_scan_at'' T_TIMESTAMPTZ,
         nullable ''last_scan_status'' RUN_STATUS,
         defaulted ''created_at'' T_TIMESTAMPTZ D_now],
       tb_constraints = [
         Unique ''uq_image_name_tag'' [''name'', ''tag''],
         Check ''ck_image_interval_positive''
           ''scan_interval_seconds IS NULL OR scan_interval_seconds > 0'']\<rparr>,
     Create_table \<lparr>tb_name = ''scan_run'',
       tb_columns = [
         primary ''id'' T_BIGINT,
         foreign ''image_id'' T_INTEGER ''image'' ''id'',
         nullable ''scan_job_id'' T_BIGINT,
         defaulted ''started_at'' T_TIMESTAMPTZ D_now,
         nullable ''completed_at'' T_TIMESTAMPTZ,
         required ''status'' RUN_STATUS,
         nullable ''digest'' (T_VARCHAR 128),
         nullable ''trivy_version'' (T_VARCHAR 64),
         nullable ''trivy_db_version'' (T_VARCHAR 64),
         nullable ''scan_flags_hash'' (T_VARCHAR 64),
         nullable ''duration_ms'' T_INTEGER,
         nullable ''error'' T_TEXT,
         nullable ''finding_count_critical'' T_INTEGER,
         nullable ''finding_count_high'' T_INTEGER,
         nullable ''finding_count_medium'' T_INTEGER,
         nullable ''finding_count_low'' T_INTEGER,
         nullable ''finding_count_unknown'' T_INTEGER],
       tb_constraints = []\<rparr>,
     Execute ''CREATE INDEX ix_scan_run_image_completed ON scan_run (image_id, completed_at DESC)'',
     Execute ''CREATE INDEX ix_scan_run_completed ON scan_run (completed_at DESC)'',
     Execute (sq ''CREATE INDEX ix_scan_run_last_success ON scan_run (completed_at DESC) WHERE status = `success`''),
     Create_table \<lparr>tb_name = ''scan_job'',
       tb_columns = [
         primary ''id'' T_BIGINT,
         foreign ''image_id'' T_INTEGER ''image'' ''id'',
         defaulted ''status'' JOB_STATUS (D_string ''pending''),
         defaulted ''priority'' T_SMALLINT (D_text ''0''),
         defaulted ''scheduled_for'' T_TIMESTAMPTZ D_now,
         nullable ''lease_until'' T_TIMESTAMPTZ,
         defaulted ''attempts'' T_INTEGER (D_text ''0''),
         nullable ''last_error'' T_TEXT,
         defaulted ''created_at'' T_TIMESTAMPTZ D_now],
       tb_constraints = []\<rparr>,
     Execute (sq ''CREATE INDEX ix_scan_job_claimable ON scan_job (priority DESC, scheduled_for) WHERE status = `pending`''),
     Execute (sq ''CREATE UNIQUE INDEX uq_scan_job_active ON scan_job (image_id) WHERE status IN (`pending`, `running`)''),
     Execute (sq ''CREATE INDEX ix_scan_job_lease ON scan_job (lease_until) WHERE status = `running`''),
     Create_table \<lparr>tb_name = ''package'',
       tb_columns = [
         primary ''id'' T_BIGINT,
         required ''name'' (T_VARCHAR 255),
         required ''version'' (T_VARCHAR 255),
         defaulted ''type'' (T_VARCHAR 64) (D_string ''unknown'')],
       tb_constraints = [Unique ''uq_package_nvt'' [''name'', ''version'', ''type'']]\<rparr>,
     Create_table \<lparr>tb_name = ''cve'',
       tb_columns = [
         primary ''id'' (T_VARCHAR 64),
         nullable ''title'' T_TEXT,
         nullable ''description'' T_TEXT,
         defaulted ''max_severity'' SEVERITY (D_string ''UNKNOWN''),
         defaulted ''max_severity_rank'' T_SMALLINT (D_text ''0''),
         defaulted ''affected_image_count'' T_INTEGER (D_text ''0''),
         nullable ''published_at'' T_TIMESTAMPTZ,
         nullable ''last_modified_at'' T_TIMESTAMPTZ],
       tb_constraints = []\<rparr>,
     Create_index ''ix_cve_max_severity_rank'' ''cve'' [''max_severity_rank''],
     Execute ''CREATE INDEX ix_cve_live_by_severity ON cve (max_severity_rank DESC, id) WHERE affected_image_count > 0'',
     Create_table \<lparr>tb_name = ''finding'',
       tb_columns = [
         primary ''id'' T_BIGINT,
         foreign ''image_id'' T_INTEGER ''image'' ''id'',
         foreign ''cve_id'' (T_VARCHAR 64) ''cve'' ''id'',
         foreign ''package_id'' T_BIGINT ''package'' ''id'',
         nullable ''fixed_version'' (T_VARCHAR 255),
         required ''severity'' SEVERITY,
         required ''severity_rank'' T_SMALLINT,
         required ''first_seen_run_id'' T_BIGINT,
         required ''last_seen_run_id'' T_BIGINT],
       tb_constraints = [Unique ''uq_finding_img_cve_pkg'' [''image_id'', ''cve_id'', ''package_id'']]\<rparr>,
     Create_index ''ix_finding_cve'' ''finding'' [''cve_id''],
     Create_index ''ix_finding_image_severity'' ''finding'' [''image_id'', ''severity_rank''],
     Create_index ''ix_finding_last_seen'' ''finding'' [''last_seen_run_id'']]"

definition downgrade :: "migration_op list" where
  "downgrade = [
     Drop_table ''finding'',
     Drop_index ''ix_cve_max_severity_rank'' ''cve'',
     Drop_table ''cve'',
     Drop_table ''package'',
     Drop_table ''scan_job'',
     Drop_table ''scan_run'',
     Drop_table ''image'']"

section \<open>The drift check\<close>

text \<open>What the script gathers from the calls of the migration's syntax tree: the dictionary of
  tables with their column names, and the set of index names. None: the exception of
  \<open>parts.index("INDEX")\<close> or of the subscript after it.\<close>

fun word_after :: "string \<Rightarrow> string list \<Rightarrow> string option" where
  "word_after w [] = None"
| "word_after w (x # xs) =
     (if x = w then (case xs of [] \<Rightarrow> None | y # _ \<Rightarrow> Some y) else word_after w xs)"

fun parse_op :: "migration_op \<Rightarrow> (string \<times> string list) list \<times> string list \<Rightarrow>
    ((string \<times> string list) list \<times> string list) option" where
  "parse_op (Create_table t) (tabs, ixs) =
     Some (dict_set (tb_name t) (map cl_name (tb_columns t)) tabs, ixs)"
| "parse_op (Create_index n tab cols) (tabs, ixs) = Some (tabs, List.insert n ixs)"
| "parse_op (Execute stmt) (tabs, ixs) =
     (if contains ''CREATE'' stmt \<and> contains ''INDEX'' stmt
      then (case word_after ''INDEX'' (split_words stmt) of
              None \<Rightarrow> None
            | Some n \<Rightarrow> Some (tabs, List.insert n ixs))
      else Some (tabs, ixs))"
| "parse_op (Drop_table n) st = Some st"
| "parse_op (Drop_index n tab) st = Some st"

fun parse_ops :: "migration_op list \<Rightarrow> (string \<times> string list) list \<times> string list \<Rightarrow>
    ((string \<times> string list) list \<times> string list) option" where
  "parse_ops [] st = Some st"
| "parse_ops (op # ops) st = (case parse_op op st of None \<Rightarrow> None | Some st' \<Rightarrow> parse_ops ops st')"

definition parse_migration :: "migration_op list \<Rightarrow> ((string \<times> string list) list \<times> string list) option" where
  "parse_migration calls = parse_ops calls ([], [])"

datatype problem =
    Table_not_in_migration string
  | Missing_columns string "string list"
  | Extra_columns string "string list"
  | Table_not_in_models string
  | Missing_indexes "string list"
  | Extra_indexes "string list"

text \<open>\<open>xs - ys\<close>, and a problem when the difference is not empty.\<close>

definition names_minus :: "string list \<Rightarrow> string list \<Rightarrow> string list" where
  "names_minus xs ys = filter (\<lambda>x. x \<notin> set ys) xs"

definition unless_empty :: "(string list \<Rightarrow> problem) \<Rightarrow> string list \<Rightarrow> problem list" where
  "unless_empty mk xs = (if xs = [] then [] else [mk xs])"

definition table_problems :: "(string \<times> string list) list \<Rightarrow> string \<times> string list \<Rightarrow> problem list" where
  "table_problems migration_tables model =
     (case model of (n, columns) \<Rightarrow>
       (case map_of migration_tables n of
          None \<Rightarrow> [Table_not_in_migration n]
        | Some mcols \<Rightarrow>
            unless_empty (Missing_columns n) (names_minus columns mcols)
            @ unless_empty (Extra_columns n) (names_minus mcols columns)))"

definition drift_problems :: "(string \<times> string list) list \<times> string list \<Rightarrow>
    (string \<times> string list) list \<times> string list \<Rightarrow> problem list" where
  "drift_problems migration models =
     (case (migration, models) of ((mig_tables, mig_indexes), (mod_tables, mod_indexes)) \<Rightarrow>
        concat (map (table_problems mig_tables) mod_tables)
        @ map Table_not_in_models (names_minus (map fst mig_tables) (map fst mod_tables))
        @ unless_empty Missing_indexes (names_minus mod_indexes mig_indexes)
        @ unless_empty Extra_indexes (names_minus mig_indexes mod_indexes))"

definition metadata_names :: "schema \<Rightarrow> (string \<times> string list) list \<times> string list" where
  "metadata_names s =
     (map (\<lambda>t. (tb_name t, map cl_name (tb_columns t))) (sc_tables s), map ix_name (sc_indexes s))"

text \<open>\<open>main\<close>: the exit code, None when the script dies of an exception.\<close>

definition check_drift :: "migration_op list \<Rightarrow> schema \<Rightarrow> int option" where
  "check_drift calls models =
     (case parse_migration calls of
        None \<Rightarrow> None
      | Some migration \<Rightarrow> Some (if drift_problems migration (metadata_names models) = [] then 0 else 1))"

end
