(* ===== verification/Schema_Props.thy ===== *)
theory Schema_Props
  imports Schema "HOL-Library.Multiset"
begin

text \<open>
  The migration builds what the models declare and undoes it again, and the drift check
  decides exactly whether the two use the same names.
\<close>

section \<open>Words of a text\<close>

lemma split_on_prefix: "split_on p s = w # ws \<Longrightarrow> \<exists>b. s = w @ b"
proof (induction s arbitrary: w ws)
  case (Cons c s)
  then show ?case by (cases "split_on p s") (auto split: if_splits)
qed simp

lemma split_on_infix: "w \<in> set (split_on p s) \<Longrightarrow> \<exists>a b. s = a @ w @ b"
proof (induction s)
  case (Cons c s)
  show ?case
  proof (cases "split_on p (c # s)")
    case Nil
    with Cons.prems show ?thesis by simp
  next
    case (Cons v vs)
    show ?thesis
    proof (cases "w = v")
      case True
      with split_on_prefix [OF Cons] show ?thesis by (metis append_Nil)
    next
      case False
      with Cons Cons.prems have "w \<in> set (split_on p s)"
        by (auto split: if_splits list.splits)
      then obtain a b where "s = a @ w @ b" using Cons.IH by blast
      then show ?thesis by (metis append_Cons)
    qed
  qed
qed simp

lemma word_contained: "w \<in> set (split_words s) \<Longrightarrow> contains w s"
  by (auto simp: split_words_def contains_iff dest: split_on_infix)

section \<open>A migration keeps names apart\<close>

lemma index_body_name: "index_body u n tab ws = Some ix \<Longrightarrow> ix_name ix = n"
  by (auto simp: index_body_def Let_def split: list.splits prod.splits if_splits)

lemma index_of_sql_seen:
  assumes "index_of_sql stmt = Some ix"
  shows "contains ''CREATE'' stmt" "contains ''INDEX'' stmt"
    "word_after ''INDEX'' (split_words stmt) = Some (ix_name ix)"
proof -
  from assms obtain w0 w1 w2 w3 w4 ws where w: "split_words stmt = w0 # w1 # w2 # w3 # w4 # ws"
    by (auto simp: index_of_sql_def split: list.splits)
  from assms w consider "w0 = ''CREATE''" "w1 = ''INDEX''" "index_body False w2 w4 ws = Some ix"
    | tab rest where "w0 = ''CREATE''" "w1 = ''UNIQUE''" "w2 = ''INDEX''" "index_body True w3 tab rest = Some ix"
    by (auto simp: index_of_sql_def split: if_splits list.splits)
  then have "''CREATE'' \<in> set (split_words stmt) \<and> ''INDEX'' \<in> set (split_words stmt)
      \<and> word_after ''INDEX'' (split_words stmt) = Some (ix_name ix)"
    by cases (simp_all add: w index_body_name)
  then show "contains ''CREATE'' stmt" "contains ''INDEX'' stmt"
    "word_after ''INDEX'' (split_words stmt) = Some (ix_name ix)"
    by (simp_all add: word_contained)
qed

text \<open>The operations the drift check looks at.\<close>

fun is_drop :: "migration_op \<Rightarrow> bool" where
  "is_drop (Drop_table n) = True"
| "is_drop (Drop_index n tab) = True"
| "is_drop (Create_table t) = False"
| "is_drop (Create_index n tab cols) = False"
| "is_drop (Execute stmt) = False"

definition table_names :: "schema \<Rightarrow> (string \<times> string list) list" where
  "table_names s = fst (metadata_names s)"

text \<open>What has been gathered from a prefix of the calls describes the catalogue it built.\<close>

definition gathered :: "schema \<Rightarrow> (string \<times> string list) list \<times> string list \<Rightarrow> bool" where
  "gathered s st \<longleftrightarrow> fst st = table_names s \<and> distinct (map fst (fst st)) \<and>
     set (snd st) = ix_name ` set (sc_indexes s)"

lemma dict_set_fresh: "k \<notin> fst ` set kvs \<Longrightarrow> dict_set k v kvs = kvs @ [(k, v)]"
  by (induction kvs) auto

lemma table_names_fst: "map fst (table_names s) = map tb_name (sc_tables s)"
  by (simp add: table_names_def metadata_names_def)

lemma create_index_gathered:
  "create_index ix s = Some s' \<Longrightarrow> gathered s (tabs, ixs) \<Longrightarrow>
   gathered s' (tabs, List.insert (ix_name ix) ixs)"
  by (auto simp: create_index_def gathered_def table_names_def metadata_names_def split: if_splits)

lemma create_table_gathered:
  assumes "create_table t s = Some s'" "gathered s (tabs, ixs)"
  shows "gathered s' (dict_set (tb_name t) (map cl_name (tb_columns t)) tabs, ixs)"
proof -
  from assms(1) have s': "s' = s\<lparr>sc_tables := sc_tables s @ [t]\<rparr>"
    and "tb_name t \<notin> set (relation_names s)"
    by (auto simp: create_table_def table_relations_def split: if_splits)
  then have "tb_name t \<notin> set (map tb_name (sc_tables s))"
    by (auto simp: relation_names_def table_relations_def)
  with assms(2) have fresh: "tb_name t \<notin> fst ` set tabs"
    by (metis fst_conv gathered_def list.set_map table_names_fst)
  moreover have tabs: "tabs = table_names s" "distinct (map fst tabs)" "set ixs = ix_name ` set (sc_indexes s)"
    using assms(2) unfolding gathered_def fst_conv snd_conv by blast+
  ultimately have "distinct (map fst (tabs @ [(tb_name t, map cl_name (tb_columns t))]))" by simp
  with fresh show ?thesis
    by (simp add: gathered_def dict_set_fresh tabs(1,3)) (simp add: s' table_names_def metadata_names_def)
qed

lemma parse_op_gathered:
  assumes "apply_op op s = Some s'" "\<not> is_drop op" "gathered s st"
  shows "\<exists>st'. parse_op op st = Some st' \<and> gathered s' st'"
proof (cases st)
  case (Pair tabs ixs)
  with assms show ?thesis
    by (cases op)
      (auto simp: index_of_sql_seen split: option.splits dest: create_table_gathered create_index_gathered)
qed

lemma parse_ops_gathered:
  "run_migration ops s = Some s' \<Longrightarrow> list_all (\<lambda>op. \<not> is_drop op) ops \<Longrightarrow> gathered s st \<Longrightarrow>
   \<exists>st'. parse_ops ops st = Some st' \<and> gathered s' st'"
proof (induction ops arbitrary: s st)
  case (Cons op ops)
  then obtain s1 where s1: "apply_op op s = Some s1" "run_migration ops s1 = Some s'"
    by (auto split: option.splits)
  have "\<not> is_drop op" using Cons.prems(2) by simp
  from parse_op_gathered [OF s1(1) this Cons.prems(3)]
  obtain st1 where "parse_op op st = Some st1" "gathered s1 st1" by blast
  with Cons.IH [OF s1(2)] Cons.prems show ?case by simp
qed simp

lemma parse_ops_append:
  "parse_ops (a @ b) st = (case parse_ops a st of None \<Rightarrow> None | Some st' \<Rightarrow> parse_ops b st')"
  by (induction a arbitrary: st) (auto split: option.splits)

lemma parse_drops: "list_all is_drop ops \<Longrightarrow> parse_ops ops st = Some st"
proof (induction ops)
  case (Cons op ops)
  then show ?case by (cases op) simp_all
qed simp

section \<open>No problem is reported iff the names agree\<close>

lemma names_minus_Nil: "names_minus xs ys = [] \<longleftrightarrow> set xs \<subseteq> set ys"
  by (auto simp: names_minus_def filter_empty_conv)

lemma unless_empty_Nil: "unless_empty mk xs = [] \<longleftrightarrow> xs = []"
  by (simp add: unless_empty_def)

lemma table_problems_Nil:
  "table_problems mig (n, cols) = [] \<longleftrightarrow> (\<exists>mcols. map_of mig n = Some mcols \<and> set mcols = set cols)"
  by (auto simp: table_problems_def unless_empty_Nil names_minus_Nil split: option.splits)

text \<open>Two schemas use the same names: of tables with their columns, and of indexes.\<close>

definition same_names :: "schema \<Rightarrow> schema \<Rightarrow> bool" where
  "same_names s m \<longleftrightarrow>
     (\<lambda>t. (tb_name t, set (map cl_name (tb_columns t)))) ` set (sc_tables s)
       = (\<lambda>t. (tb_name t, set (map cl_name (tb_columns t)))) ` set (sc_tables m) \<and>
     ix_name ` set (sc_indexes s) = ix_name ` set (sc_indexes m)"

lemma tables_agree:
  assumes "distinct (map fst mig)"
  shows "(\<forall>(n, cols) \<in> set mdl. \<exists>mcols. map_of mig n = Some mcols \<and> set mcols = set cols) \<and>
      fst ` set mig \<subseteq> fst ` set mdl \<longleftrightarrow>
    (\<lambda>(n, cols). (n, set cols)) ` set mig = (\<lambda>(n, cols). (n, set cols)) ` set mdl"
    (is "?all \<and> ?sub \<longleftrightarrow> ?f ` set mig = ?f ` set mdl")
proof
  assume l: "?all \<and> ?sub"
  have "(n, set cols) \<in> ?f ` set mig" if m: "(n, cols) \<in> set mdl" for n cols
  proof -
    from l m obtain mcols where "map_of mig n = Some mcols" "set mcols = set cols" by blast
    from map_of_SomeD [OF this(1)] this(2) show ?thesis
      by (intro image_eqI [of _ _ "(n, mcols)"]) simp_all
  qed
  moreover have "(n, set cols) \<in> ?f ` set mdl" if m: "(n, cols) \<in> set mig" for n cols
  proof -
    from l m obtain mcols where mc: "(n, mcols) \<in> set mdl" by force
    with l obtain ecols where "map_of mig n = Some ecols" "set ecols = set mcols" by blast
    moreover have "map_of mig n = Some cols" using assms m by simp
    ultimately have "set cols = set mcols" by simp
    then show ?thesis using mc by force
  qed
  ultimately show "?f ` set mig = ?f ` set mdl" by auto
next
  assume r: "?f ` set mig = ?f ` set mdl"
  have "\<exists>mcols. map_of mig n = Some mcols \<and> set mcols = set cols" if "(n, cols) \<in> set mdl" for n cols
  proof -
    from that have "(n, set cols) \<in> ?f ` set mig" unfolding r by force
    then obtain mcols where "(n, mcols) \<in> set mig" "set mcols = set cols" by auto
    then show ?thesis using assms by (metis map_of_eq_Some_iff)
  qed
  moreover have "fst ` ?f ` set mig = fst ` ?f ` set mdl" by (simp only: r)
  then have ?sub by (force simp: image_image case_prod_unfold)
  ultimately show "?all \<and> ?sub" by blast
qed

lemma problems_iff:
  assumes "gathered s st"
  shows "drift_problems st (metadata_names m) = [] \<longleftrightarrow> same_names s m"
proof -
  obtain tabs ixs where st: "st = (tabs, ixs)" by (cases st)
  with assms have g: "tabs = table_names s" "distinct (map fst tabs)" "set ixs = ix_name ` set (sc_indexes s)"
    by (auto simp: gathered_def)
  have "drift_problems st (metadata_names m) = [] \<longleftrightarrow>
      ((\<forall>(n, cols) \<in> set (table_names m). \<exists>mcols. map_of tabs n = Some mcols \<and> set mcols = set cols) \<and>
        fst ` set tabs \<subseteq> fst ` set (table_names m)) \<and> set ixs = ix_name ` set (sc_indexes m)"
    by (auto simp: st drift_problems_def metadata_names_def table_names_def table_problems_Nil
        unless_empty_Nil names_minus_Nil image_image)
  also have "\<dots> \<longleftrightarrow> same_names s m"
    unfolding tables_agree [OF g(2)]
    by (simp add: same_names_def g table_names_def metadata_names_def image_image)
  finally show ?thesis .
qed

lemma drift_code:
  assumes "run_migration ops empty_schema = Some s" "list_all (\<lambda>op. \<not> is_drop op) ops"
    and "list_all is_drop undo"
  shows "check_drift (ops @ undo) m = Some (if same_names s m then 0 else 1)"
proof -
  have "gathered empty_schema ([], [])"
    by (simp add: gathered_def empty_schema_def table_names_def metadata_names_def)
  from parse_ops_gathered [OF assms(1,2) this] obtain st where
    "parse_ops ops ([], []) = Some st" "gathered s st" by blast
  then show ?thesis
    by (simp add: check_drift_def parse_migration_def parse_ops_append parse_drops assms(3) problems_iff)
qed

section \<open>Properties\<close>

text \<open>C16. The migration goes through on an empty database and builds exactly the tables and
  indexes the models declare (every column with its type, nullability, default and foreign
  key, every constraint and every partial index); the downgrade then takes all of it away.\<close>

theorem upgrade_builds_the_models:
  "\<exists>s. run_migration upgrade empty_schema = Some s \<and>
     mset (sc_tables s) = mset (sc_tables models_schema) \<and>
     mset (sc_indexes s) = mset (sc_indexes models_schema) \<and>
     run_migration downgrade s = Some empty_schema"
proof -
  let ?s = "the (run_migration upgrade empty_schema)"
  have "run_migration upgrade empty_schema = Some ?s" by code_simp
  moreover have "mset (sc_tables ?s) = mset (sc_tables models_schema)" by code_simp
  moreover have "mset (sc_indexes ?s) = mset (sc_indexes models_schema)" by code_simp
  moreover have "run_migration downgrade ?s = Some empty_schema" by code_simp
  ultimately show ?thesis by blast
qed

text \<open>C36. On a migration that goes through, the drift check never dies of an exception, and it
  exits with 0 exactly when the schema the migration builds and the models have the same
  tables with the same columns and the same indexes.\<close>

theorem drift_check_is_exact:
  assumes "run_migration ops empty_schema = Some s" "list_all (\<lambda>op. \<not> is_drop op) ops"
    and "list_all is_drop undo"
  shows "check_drift (ops @ undo) m = Some (if same_names s m then 0 else 1)"
  by (rule drift_code [OF assms])

theorem drift_check_is_exact_witness:
  "check_drift (take 1 upgrade @ downgrade) models_schema = Some 1"
proof -
  let ?s = "the (run_migration (take 1 upgrade) empty_schema)"
  have "run_migration (take 1 upgrade) empty_schema = Some ?s" by code_simp
  moreover have "list_all (\<lambda>op. \<not> is_drop op) (take 1 upgrade)" by code_simp
  moreover have "list_all is_drop downgrade" by code_simp
  ultimately have "check_drift (take 1 upgrade @ downgrade) models_schema
      = Some (if same_names ?s models_schema then 0 else 1)"
    by (rule drift_check_is_exact)
  moreover have "\<not> same_names ?s models_schema" by code_simp
  ultimately show ?thesis by simp
qed

end
