(* ===== verification/Requirements.thy ===== *)
theory Requirements
  imports Api_Props Seed "HOL-Library.Monad_Syntax"
begin

text \<open>
  The acceptance script (src/scripts/verify_requirements.py) in its default mode, over HTTP only
  (theory Ephemeral adds the rest):
  what it asks the API, which checks it draws from the answers, and its exit code; and the loop
  that waits for the first scans. The client is a record of the requests the script makes;
  \<open>api_client\<close> is the one that answers from the modelled endpoints. What is printed is left out,
  except where building it can fail.
\<close>

section \<open>The client\<close>

text \<open>A limit or a severity is None when the query does not have the parameter.\<close>

record client =
  cl_health :: health_report
  cl_images :: "int option \<Rightarrow> image_summary page reply"
  cl_image_cves :: "string \<Rightarrow> string \<Rightarrow> string option \<Rightarrow> int option \<Rightarrow> cve_in_image page reply"
  cl_cves :: "string option \<Rightarrow> int option \<Rightarrow> cve_summary page reply"
  cl_cve_images :: "string \<Rightarrow> int option \<Rightarrow> affected_image page reply"

fun status_code :: "'a reply \<Rightarrow> int" where
  "status_code NotModified = 304"
| "status_code (HttpError st detail) = st"
| "status_code (Reply x) = 200"

text \<open>\<open>response.json()["items"]\<close> and \<open>["pagination"]\<close>: an error answer has no such key, a 304 no body.\<close>

fun body :: "'a reply \<Rightarrow> 'a option" where
  "body NotModified = None"
| "body (HttpError st detail) = None"
| "body (Reply x) = Some x"

text \<open>A dependency of an endpoint: what it rejects is the answer.\<close>

fun depends :: "'a reply \<Rightarrow> ('a \<Rightarrow> 'b reply) \<Rightarrow> 'b reply" where
  "depends NotModified serve = NotModified"
| "depends (HttpError st detail) serve = HttpError st detail"
| "depends (Reply x) serve = serve x"

text \<open>The script sends no \<open>If-None-Match\<close>. One database state answers all its requests, and a name, a
  tag or an identifier reaches its endpoint as it is,
  although the script puts it into the URL unquoted.\<close>

definition api_client :: "settings \<Rightarrow> (string \<Rightarrow> string) \<Rightarrow> tie_breaker \<Rightarrow> db \<Rightarrow> client" where
  "api_client s coll ties d =
     \<lparr>cl_health = health (Some d),
      cl_images = (\<lambda>limit. depends (get_page_params s limit 0) (\<lambda>p. list_images s coll p False d)),
      cl_image_cves = (\<lambda>name tag sev limit. depends (get_page_params s limit 0) (\<lambda>p.
        depends (severity_filter sev) (\<lambda>v. image_cves ties coll name tag p v False d))),
      cl_cves = (\<lambda>sev limit. depends (get_page_params s limit 0) (\<lambda>p.
        depends (severity_filter sev) (\<lambda>v. list_cves coll p v False d))),
      cl_cve_images = (\<lambda>cid limit. depends (get_page_params s limit 0) (\<lambda>p. cve_images ties coll cid p False d))\<rparr>"

section \<open>The report\<close>

text \<open>A result of a check: its requirement and whether it passed.\<close>

type_synonym check = "string \<times> bool"

definition summary :: "check list \<Rightarrow> int" where
  "summary results = (if filter (\<lambda>r. \<not> snd r) results = [] then 0 else 1)"

section \<open>The checks\<close>

definition REQUIRED_IMAGES :: "(string \<times> string) list" where
  "REQUIRED_IMAGES =
     [(''nginx'', ''1.19''), (''postgres'', ''12''), (''redis'', ''6.0''), (''node'', ''14-alpine''),
      (''python'', ''3.8-slim''), (''alpine'', ''3.12''), (''ubuntu'', ''20.04''), (''mysql'', ''8.0''),
      (''mongo'', ''4.4''), (''httpd'', ''2.4'')]"

text \<open>The image with the most findings, or None when there is none or it has none.\<close>

definition richest :: "image_summary list \<Rightarrow> image_summary option" where
  "richest xs =
     (case xs of
        [] \<Rightarrow> None
      | i # is \<Rightarrow> (let m = max_by is_total_cves i is in if is_total_cves m = 0 then None else Some m))"

definition in_brief :: "image_summary \<Rightarrow> bool" where
  "in_brief i = ((is_name i, is_tag i) \<in> set REQUIRED_IMAGES)"

definition was_scanned :: "image_summary \<Rightarrow> bool" where
  "was_scanned i = (is_last_scan_status i = Some SUCCESS \<or> is_last_scan_status i = Some SKIPPED)"

definition named_package :: "string \<times> string \<times> string \<Rightarrow> bool" where
  "named_package p = (case p of (name, version, type) \<Rightarrow> name \<noteq> [] \<and> version \<noteq> [])"

text \<open>Task 1. The response models have the keys that 1.4 looks for.\<close>

definition check_scanner :: "client \<Rightarrow> check list option" where
  "check_scanner c = do {
     page \<leftarrow> body (cl_images c (Some 1000));
     let imgs = page_items page;
     let registered = map (\<lambda>i. (is_name i, is_tag i)) imgs;
     let missing = filter (\<lambda>nt. nt \<notin> set registered) REQUIRED_IMAGES;
     let brief = filter in_brief imgs;
     let scanned = filter was_scanned brief;
     let unscanned = filter (\<lambda>i. i \<notin> set scanned) brief;
     let first = [(''1.1'', missing = []), (''1.2'', unscanned = []),
                  (''1.3'', list_all (\<lambda>i. is_scan_interval_seconds i = 900) brief)];
     (case richest scanned of
        None \<Rightarrow> Some (first @ [(''1.4'', False)])
      | Some sample \<Rightarrow> do {
          fpage \<leftarrow> body (cl_image_cves c (is_name sample) (is_tag sample) None (Some 200));
          let fs = page_items fpage;
          Some (first @ [(''1.4'', list_all (\<lambda>f. named_package (ci_package f)) fs),
                         (''1.5'', list_ex (\<lambda>f. ci_fixed_version f \<noteq> None \<and> ci_fixed_version f \<noteq> Some []) fs)])
        })
   }"

text \<open>Task 2. The response models have the keys that 2.1 and 2.2 look for.\<close>

definition check_schema :: "client \<Rightarrow> check list option" where
  "check_schema c = do {
     ipage \<leftarrow> body (cl_images c (Some 1000));
     cpage \<leftarrow> body (cl_cves c None (Some 5));
     let cs = page_items cpage;
     wide \<leftarrow> body (cl_cves c None (Some 200));
     let shared = list_ex (\<lambda>e. 1 < cs_affected_image_count e) (page_items wide);
     let first = [(''2.1'', True), (''2.2'', cs \<noteq> []), (''2.3'', shared)];
     (case cs of
        [] \<Rightarrow> Some first
      | e # _ \<Rightarrow> do {
          apage \<leftarrow> body (cl_cve_images c (cs_cve_id e) None);
          let affected = page_items apage;
          Some (first @ [(''2.4'', affected \<noteq> [] \<and> list_all (\<lambda>a. named_package (ai_package a)) affected)])
        })
   }"

text \<open>Task 3. The fields of \<open>severity_counts\<close> in their order, and the severity asked for: the
  first of the largest count, never UNKNOWN.\<close>

definition COUNTED :: "severity list" where
  "COUNTED = [CRITICAL, HIGH, MEDIUM, LOW, UNKNOWN]"

fun count_of :: "severity_counts \<Rightarrow> severity \<Rightarrow> int" where
  "count_of n CRITICAL = n_critical n"
| "count_of n HIGH = n_high n"
| "count_of n MEDIUM = n_medium n"
| "count_of n LOW = n_low n"
| "count_of n UNKNOWN = n_unknown n"

definition target_severity :: "severity_counts \<Rightarrow> severity" where
  "target_severity n =
     max_by (\<lambda>k. if k \<noteq> UNKNOWN then count_of n k else - 1) (hd COUNTED) (tl COUNTED)"

definition image_checks :: "client \<Rightarrow> image_summary \<Rightarrow> check list option" where
  "image_checks c scanned = do {
     let unfiltered = cl_image_cves c (is_name scanned) (is_tag scanned) None (Some 1000);
     page \<leftarrow> body unfiltered;
     let target = target_severity (is_severity_counts scanned);
     filtered \<leftarrow> body (cl_image_cves c (is_name scanned) (is_tag scanned) (Some (severity_value target)) (Some 1000));
     let only_target = list_all (\<lambda>f. ci_severity f = target) (page_items filtered);
     let expected = count_of (is_severity_counts scanned) target;
     Some [(''3.3'', status_code unfiltered = 200),
           (''3.4'', only_target \<and> page_total filtered = expected)]
   }"

definition affected_check :: "client \<Rightarrow> cve_summary list \<Rightarrow> check list option" where
  "affected_check c cve_items =
     (case cve_items of
        [] \<Rightarrow> Some [(''3.7'', False)]
      | e # _ \<Rightarrow> do {
          let affected = cl_cve_images c (cs_cve_id e) None;
          page \<leftarrow> body affected;
          Some [(''3.7'', status_code affected = 200 \<and> page_items page \<noteq> [])]
        })"

definition error_checks :: "client \<Rightarrow> check list" where
  "error_checks c =
     [(''3.8'', status_code (cl_image_cves c ''nope'' ''nope'' None None) = 404),
      (''3.9'', status_code (cl_cve_images c ''CVE-0000-0000'' None) = 404),
      (''3.10'', status_code (cl_cves c (Some ''SEVERE'') None) = 400)]"

definition check_api :: "client \<Rightarrow> check list option" where
  "check_api c = do {
     let images_response = cl_images c None;
     ipage \<leftarrow> body images_response;
     let imgs = page_items ipage;
     let counts_ok = list_all (\<lambda>i. is_total_cves i = sum_list (map (count_of (is_severity_counts i)) COUNTED)) imgs;
     per_image \<leftarrow> (case richest imgs of
                      None \<Rightarrow> Some [(''3.3'', False), (''3.4'', False)]
                    | Some scanned \<Rightarrow> image_checks c scanned);
     let cves_response = cl_cves c None (Some 1000);
     cpage \<leftarrow> body cves_response;
     let cve_items = page_items cpage;
     critical \<leftarrow> body (cl_cves c (Some ''CRITICAL'') (Some 1000));
     seven \<leftarrow> affected_check c cve_items;
     Some ([(''3.1'', h_status_code (cl_health c) = 200),
            (''3.2'', status_code images_response = 200 \<and> counts_ok)]
        @ per_image
        @ [(''3.5'', status_code cves_response = 200 \<and>
              length (remdups (map cs_cve_id cve_items)) = length cve_items),
           (''3.6'', list_all (\<lambda>e. cs_max_severity e = CRITICAL) (page_items critical))]
        @ seven @ error_checks c)
   }"

text \<open>\<open>main\<close> without \<open>--with-db\<close> and \<open>--wait\<close>, once the API answers: the exit code, None when the
  script dies of an exception.\<close>

definition verify :: "client \<Rightarrow> int option" where
  "verify c = do {
     scanner \<leftarrow> check_scanner c;
     schema \<leftarrow> check_schema c;
     api \<leftarrow> check_api c;
     Some (summary (scanner @ schema @ api))
   }"

section \<open>Waiting for the first scans\<close>

definition all_landed :: "image_summary list \<Rightarrow> bool" where
  "all_landed items =
     (let brief = filter in_brief items;
          done = length (filter was_scanned brief)
      in brief \<noteq> [] \<and> done = length brief)"

text \<open>The loop: \<open>clock n\<close> is the time at the head of the n-th iteration, \<open>poll n\<close> what its request
  gives (None for any exception). An iteration that does not return sleeps 5 or 10 seconds.
  None: the fuel has run out.\<close>

fun wait_loop :: "(nat \<Rightarrow> time) \<Rightarrow> (nat \<Rightarrow> image_summary list option) \<Rightarrow> time \<Rightarrow> nat \<Rightarrow> nat \<Rightarrow> bool option" where
  "wait_loop clock poll deadline n 0 = None"
| "wait_loop clock poll deadline n (Suc fuel) =
     (if clock n < deadline
      then (case poll n of
              None \<Rightarrow> wait_loop clock poll deadline (Suc n) fuel
            | Some items \<Rightarrow>
                if all_landed items then Some True
                else wait_loop clock poll deadline (Suc n) fuel)
      else Some False)"

definition wait_for_scans :: "(nat \<Rightarrow> time) \<Rightarrow> (nat \<Rightarrow> image_summary list option) \<Rightarrow> time \<Rightarrow> int \<Rightarrow> nat \<Rightarrow> bool option" where
  "wait_for_scans clock poll start timeout fuel = wait_loop clock poll (start + seconds timeout) 0 fuel"

end
