(* ===== verification/Requirements_Props.thy ===== *)
theory Requirements_Props
  imports Requirements
begin

text \<open>
  What the acceptance script establishes: on a consistent database it is decided which checks of
  the API pass, and so when its exit code is 0; and the wait for the first scans ends in time with
  the right answer.
\<close>

section \<open>The answers of the API to the script\<close>

text \<open>The page a request of the script reads.\<close>

definition first_page :: "settings \<Rightarrow> int option \<Rightarrow> page_params" where
  "first_page s limit = \<lparr>pp_limit = min (int_or limit (page_size_default s)) (page_size_max s), pp_offset = 0\<rparr>"

lemma page_params_first:
  "limit = None \<or> (\<exists>l. limit = Some l \<and> 1 \<le> l) \<Longrightarrow> get_page_params s limit 0 = Reply (first_page s limit)"
  by (auto simp: get_page_params_def first_page_def)

lemma severity_filter_value:
  "v \<noteq> UNKNOWN \<Longrightarrow> severity_filter (Some (severity_value v)) = Reply (Some v)"
proof -
  have "severity_filter (Some (severity_value CRITICAL)) = Reply (Some CRITICAL)"
    "severity_filter (Some (severity_value HIGH)) = Reply (Some HIGH)"
    "severity_filter (Some (severity_value MEDIUM)) = Reply (Some MEDIUM)"
    "severity_filter (Some (severity_value LOW)) = Reply (Some LOW)" by code_simp+
  then show "v \<noteq> UNKNOWN \<Longrightarrow> severity_filter (Some (severity_value v)) = Reply (Some v)"
    by (cases v) (simp_all del: severity_value.simps)
qed

lemma severity_filter_None: "severity_filter None = Reply None"
  by (simp add: severity_filter_def)

lemma severity_filter_junk: "status_code (severity_filter (Some ''SEVERE'')) = 400"
  by code_simp

lemma slice_first: "slice (first_page s limit) xs = take (nat (pp_limit (first_page s limit))) xs"
  by (simp add: slice_def first_page_def)

lemma slice_first_nonempty:
  assumes "xs \<noteq> []" "0 < page_size_default s" "0 < page_size_max s"
  shows "slice (first_page s None) xs \<noteq> []" "slice (first_page s (Some 1000)) xs \<noteq> []"
  using assms by (simp_all add: slice_def first_page_def)

text \<open>A page depends on the order of ties in its own query only.\<close>

lemma image_cves_here: "image_cves ties coll name tag p sev nm d = image_cves (\<lambda>_. ties p) coll name tag p sev nm d"
  unfolding image_cves_def joined_page_def ..

lemma cve_images_here: "cve_images ties coll cid p nm d = cve_images (\<lambda>_. ties p) coll cid p nm d"
  unfolding cve_images_def joined_page_def ..

lemmas answers = api_client_def page_params_first severity_filter_None severity_filter_value

lemma images_answer:
  assumes "consistent d" "limit = None \<or> (\<exists>l. limit = Some l \<and> 1 \<le> l)"
  shows "cl_images (api_client s coll ties d) limit
    = Reply (page_of (first_page s limit) (int (length (image_listing s coll d))) (slice (first_page s limit) (image_listing s coll d)))"
  by (simp add: answers assms image_pages.serves)

lemma image_cves_answer:
  assumes "consistent d" "find_image name tag d = Some i" "limit = None \<or> (\<exists>l. limit = Some l \<and> 1 \<le> l)"
    and "v \<noteq> Some UNKNOWN"
  shows "cl_image_cves (api_client s coll ties d) name tag (map_option severity_value v) limit
    = Reply (page_of (first_page s limit) (int (length (image_cve_listing (ties (first_page s limit)) coll i v d)))
        (slice (first_page s limit) (image_cve_listing (ties (first_page s limit)) coll i v d)))"
  using assms(4) by (cases v) (simp_all add: answers assms image_cves_here [of ties] image_cve_pages.serves)

lemma cves_answer:
  assumes "limit = None \<or> (\<exists>l. limit = Some l \<and> 1 \<le> l)" "v \<noteq> Some UNKNOWN"
  shows "cl_cves (api_client s coll ties d) (map_option severity_value v) limit
    = Reply (page_of (first_page s limit) (int (length (cve_listing coll v d))) (slice (first_page s limit) (cve_listing coll v d)))"
  using assms(2) by (cases v) (simp_all add: answers assms(1) cve_pages.serves)

lemma cve_images_answer:
  assumes "consistent d" "cid \<in> c_id ` set (cves d)" "limit = None \<or> (\<exists>l. limit = Some l \<and> 1 \<le> l)"
  shows "cl_cve_images (api_client s coll ties d) cid limit
    = Reply (page_of (first_page s limit) (int (length (affected_listing (ties (first_page s limit)) coll cid d)))
        (slice (first_page s limit) (affected_listing (ties (first_page s limit)) coll cid d)))"
  by (simp add: answers assms(1,3) cve_images_here [of ties]) (rule affected_pages.serves, simp add: assms(1,2))

lemma health_answer: "h_status_code (cl_health (api_client s coll ties d)) = 200"
  by (simp add: api_client_def health_def)

section \<open>The checks of the API\<close>

lemma listed_image:
  assumes "consistent d" "e \<in> set (image_listing s coll d)"
  obtains i where "i \<in> set (images d)" "is_name e = i_name i" "is_tag e = i_tag i"
    "is_severity_counts e = counts_of d i" "is_total_cves e = int (length (current_of d i None))"
    "find_image (i_name i) (i_tag i) d = Some i"
proof -
  from assms(2) obtain i where i: "i \<in> set (images d)" "e = image_row s d i"
    by (auto simp: image_listing_def)
  have "unique_on image_key (images d)" using assms(1) by (simp add: consistent_def keys_ok_def)
  from find_row_unique [OF this i(1)] have "find_image (i_name i) (i_tag i) d = Some i"
    by (simp add: find_image_def image_key_def)
  with i image_row_fields [OF assms(1) i(1)] show ?thesis by (intro that [of i]) simp_all
qed

lemma counted_total: "sum_list (map (count_of n) COUNTED) = counts_total n"
  by (simp add: COUNTED_def counts_total_def)

lemma count_of_counts: "count_of (counts_of d i) v = int (length (current_of d i (Some v)))"
  by (cases v) (simp_all add: counts_of_def)

lemma target_not_unknown:
  assumes "0 \<le> n_critical n"
  shows "target_severity n \<noteq> UNKNOWN"
proof -
  let ?f = "\<lambda>k. if k \<noteq> UNKNOWN then count_of n k else - 1"
  have "?f CRITICAL \<le> ?f (target_severity n)"
    unfolding target_severity_def by (rule max_by_ge) (simp add: COUNTED_def)
  with assms show ?thesis by (auto split: if_splits)
qed

text \<open>3.3 and 3.4 pass for every image that is listed.\<close>

lemma image_checks_pass:
  assumes con: "consistent d" and e: "e \<in> set (image_listing s coll d)"
  shows "image_checks (api_client s coll ties d) e = Some [(''3.3'', True), (''3.4'', True)]"
proof -
  from listed_image [OF con e] obtain i where i: "is_name e = i_name i" "is_tag e = i_tag i"
    "is_severity_counts e = counts_of d i" "find_image (i_name i) (i_tag i) d = Some i" by blast
  define v where "v = target_severity (counts_of d i)"
  have v: "v \<noteq> UNKNOWN" unfolding v_def by (rule target_not_unknown) (simp add: counts_of_def)
  have only: "ci_severity f = v" if "f \<in> set (slice p (image_cve_listing tie coll i (Some v) d))" for f p tie
  proof -
    from in_slice [OF that] obtain g where g: "g \<in> set (current_of d i (Some v))" "f = the (cve_in_image_of d g)"
      by (auto simp: image_cve_listing_def)
    then have "g \<in> set (current_findings d)" "f_severity g = v" by (simp_all add: current_of_def matches_def)
    with entry_of_finding [OF con this(1)] g(2) show ?thesis
      by (simp add: entry_of_row_def view_entry_of_def)
  qed
  have n: "length (image_cve_listing tie coll i w d) = length (current_of d i w)" for w tie
    by (simp add: image_cve_listing_def)
  show ?thesis
    using image_cves_answer [OF con i(4), of "Some 1000" None s coll ties]
      image_cves_answer [OF con i(4), of "Some 1000" "Some v" s coll ties] v only
    by (simp add: image_checks_def i Let_def v_def [symmetric] page_of_def n count_of_counts list_all_iff)
qed

lemma richest_in: "richest xs = Some m \<Longrightarrow> m \<in> set xs"
  using max_by_in [of is_total_cves] by (cases xs) (auto simp: richest_def Let_def split: if_splits)

lemma richest_exists:
  assumes "x \<in> set xs" "0 < is_total_cves x"
  shows "richest xs \<noteq> None"
proof (cases xs)
  case (Cons y ys)
  with assms max_by_ge [of x y ys is_total_cves] show ?thesis by (simp add: richest_def Let_def)
qed (use assms in simp)

lemma live_listing: "map cs_cve_id (cve_listing coll v d) = map c_id (sort_key (\<lambda>c. (- c_max_severity_rank c, coll (c_id c))) (live_cves v d))"
  by (simp add: cve_listing_def cve_summary_of_def)

lemma listed_cves_distinct: "consistent d \<Longrightarrow> distinct (map cs_cve_id (cve_listing coll v d))"
  unfolding live_listing
  by (auto simp: consistent_def keys_ok_def live_cves_def distinct_map intro: inj_on_subset)

lemma listed_cve_live:
  assumes "consistent d" "e \<in> set (cve_listing coll v d)"
  shows "cs_cve_id e \<in> c_id ` set (cves d)" "findings_of_cve d (cs_cve_id e) \<noteq> []"
    "v = Some w \<Longrightarrow> cs_max_severity e = w"
proof -
  from assms(2) obtain c where c: "c \<in> set (live_cves v d)" "e = cve_summary_of c"
    by (auto simp: cve_listing_def)
  with live_cves_iff [OF assms(1), of c v] live_severity [OF assms(1), of c]
  show "cs_cve_id e \<in> c_id ` set (cves d)" "findings_of_cve d (cs_cve_id e) \<noteq> []"
    "v = Some w \<Longrightarrow> cs_max_severity e = w"
    by (auto simp: cve_summary_of_def matches_def)
qed

lemma listing_nonempty:
  assumes "consistent d" "current_findings d \<noteq> []"
  shows "cve_listing coll None d \<noteq> []"
proof -
  obtain f where "f \<in> set (current_findings d)" using assms(2) by (cases "current_findings d") auto
  then have "f_cve_id f \<in> c_id ` set (live_cves None d)"
    unfolding live_cves_ids [OF assms(1)] by (auto simp: findings_of_cve_def matches_def filter_empty_conv)
  then show ?thesis by (auto simp: cve_listing_def)
qed

text \<open>3.7 passes for the first of any page of CVEs.\<close>

lemma affected_check_pass:
  assumes "consistent d" "es \<noteq> []" "set es \<subseteq> set (cve_listing coll None d)"
    and "0 < page_size_default s" "0 < page_size_max s"
  shows "affected_check (api_client s coll ties d) es = Some [(''3.7'', True)]"
proof -
  obtain e es' where es: "es = e # es'" using assms(2) by (cases es) auto
  with assms(3) have e: "e \<in> set (cve_listing coll None d)" by simp
  note live = listed_cve_live [OF assms(1) e]
  have "affected_listing (ties (first_page s None)) coll (cs_cve_id e) d \<noteq> []"
    using live(2) by (simp add: affected_listing_def)
  from slice_first_nonempty(1) [OF this assms(4,5)]
  show ?thesis
    using cve_images_answer [OF assms(1) live(1), of None s coll ties]
    by (simp add: affected_check_def es Let_def page_of_def)
qed

lemma error_checks_answer:
  "error_checks (api_client s coll ties d) =
     [(''3.8'', find_image ''nope'' ''nope'' d = None), (''3.9'', ''CVE-0000-0000'' \<notin> c_id ` set (cves d)), (''3.10'', True)]"
proof -
  have junk: "\<exists>detail. severity_filter (Some ''SEVERE'') = HttpError 400 detail"
    using severity_filter_junk by (cases "severity_filter (Some ''SEVERE'')") simp_all
  then show ?thesis
    by (auto simp: error_checks_def answers image_cves_def cve_images_def Let_def split: option.splits)
qed

text \<open>3.3 and 3.4: what the first page shows to have findings.\<close>

lemma richest_checks:
  assumes con: "consistent d" and sizes: "0 < page_size_default s" "int (length (images d)) \<le> page_size_default s"
      "page_size_default s \<le> page_size_max s"
  shows "(case richest (slice (first_page s None) (image_listing s coll d)) of
      None \<Rightarrow> Some [(''3.3'', False), (''3.4'', False)] | Some e \<Rightarrow> image_checks (api_client s coll ties d) e)
    = Some [(''3.3'', current_findings d \<noteq> []), (''3.4'', current_findings d \<noteq> [])]"
proof -
  let ?rows = "slice (first_page s None) (image_listing s coll d)"
  have rows: "?rows = image_listing s coll d"
    using sizes by (simp add: slice_def first_page_def image_listing_def nat_le_iff)
  show ?thesis
  proof (cases "richest ?rows")
    case None
    have "current_findings d = []"
    proof (rule ccontr)
      assume "current_findings d \<noteq> []"
      then obtain f where f: "f \<in> set (current_findings d)" by (cases "current_findings d") auto
      then obtain i where i: "i \<in> set (images d)" "i_id i = f_image_id f"
        using current_refs(4) [OF con f] by auto
      then have "f \<in> set (current_of d i None)" using f by (simp add: current_of_def matches_def)
      then have "0 < length (current_of d i None)" by (rule length_pos_if_in_set)
      then have "0 < is_total_cves (image_row s d i)" unfolding image_row_fields(7) [OF con i(1)] by simp
      moreover have "image_row s d i \<in> set ?rows" unfolding rows using i(1) by (simp add: image_listing_def)
      ultimately show False using richest_exists None by blast
    qed
    with None show ?thesis by simp
  next
    case (Some m)
    with richest_in have m: "m \<in> set (image_listing s coll d)" unfolding rows by blast
    from listed_image [OF con m] obtain i where i: "i \<in> set (images d)" "is_total_cves m = int (length (current_of d i None))"
      by metis
    have "is_total_cves m \<noteq> 0" using Some by (auto simp: richest_def Let_def split: list.splits if_splits)
    with i have "current_findings d \<noteq> []" by (auto simp: current_of_def)
    with Some image_checks_pass [OF con m] show ?thesis by simp
  qed
qed

lemma first_cve_check:
  assumes con: "consistent d" and sizes: "0 < page_size_default s" "0 < page_size_max s"
  shows "affected_check (api_client s coll ties d) (slice (first_page s (Some 1000)) (cve_listing coll None d))
    = Some [(''3.7'', current_findings d \<noteq> [])]"
proof (cases "current_findings d = []")
  case True
  have "cs_cve_id ` set (cve_listing coll None d) = {}"
    using live_cves_ids [OF con, of None] True by (auto simp: cve_listing_def cve_summary_of_def findings_of_cve_def)
  then have "cve_listing coll None d = []" by simp
  with True show ?thesis by (simp add: slice_def affected_check_def)
next
  case False
  from slice_first_nonempty(2) [OF listing_nonempty [OF con False] sizes] in_slice False
  show ?thesis by (subst affected_check_pass [OF con _ _ sizes]) auto
qed

lemma api_checks:
  assumes con: "consistent d" and sizes: "0 < page_size_default s" "int (length (images d)) \<le> page_size_default s"
      "page_size_default s \<le> page_size_max s"
  shows "check_api (api_client s coll ties d) = Some
      [(''3.1'', True), (''3.2'', True), (''3.3'', current_findings d \<noteq> []), (''3.4'', current_findings d \<noteq> []),
       (''3.5'', True), (''3.6'', True), (''3.7'', current_findings d \<noteq> []),
       (''3.8'', find_image ''nope'' ''nope'' d = None), (''3.9'', ''CVE-0000-0000'' \<notin> c_id ` set (cves d)), (''3.10'', True)]"
proof -
  have max: "0 < page_size_max s" using sizes(1,3) by simp
  let ?rows = "slice (first_page s None) (image_listing s coll d)"
  have counts: "list_all (\<lambda>e. is_total_cves e = sum_list (map (count_of (is_severity_counts e)) COUNTED)) ?rows"
    unfolding list_all_iff counted_total
  proof
    fix e assume "e \<in> set ?rows"
    with in_slice listed_image [OF con] obtain i where "is_severity_counts e = counts_of d i"
      "is_total_cves e = int (length (current_of d i None))" by metis
    then show "is_total_cves e = counts_total (is_severity_counts e)" by (simp add: counts_of_total)
  qed
  let ?cs = "slice (first_page s (Some 1000)) (cve_listing coll None d)"
  have "distinct (map cs_cve_id ?cs)"
    unfolding slice_first by (simp add: take_map [symmetric] listed_cves_distinct [OF con])
  then have once: "length (remdups (map cs_cve_id ?cs)) = length ?cs" by (simp add: distinct_remdups_id)
  have critical: "list_all (\<lambda>e. cs_max_severity e = CRITICAL) (slice p (cve_listing coll (Some CRITICAL) d))" for p
    using listed_cve_live(3) [OF con in_slice] by (auto simp: list_all_iff)
  show ?thesis
    using images_answer [OF con, of None s coll ties] cves_answer [of "Some 1000" None s coll ties d]
      cves_answer [of "Some 1000" "Some CRITICAL" s coll ties d] richest_checks [OF con sizes, of coll ties] counts once critical
      first_cve_check [OF con sizes(1) max, of coll ties] error_checks_answer [of s coll ties d]
    by (simp add: check_api_def Let_def page_of_def health_answer)
qed

section \<open>The checks of scanning and storage never die\<close>

lemma body_answer: "body (Reply x) = Some x" by simp

text \<open>The image listing of 1000 shows every image when there are no more.\<close>

lemma all_listed:
  assumes "int (length (images d)) \<le> 1000" "int (length (images d)) \<le> page_size_max s"
  shows "slice (first_page s (Some 1000)) (image_listing s coll d) = image_listing s coll d"
  using assms by (simp add: slice_def first_page_def image_listing_def nat_le_iff)

lemma scanner_checks:
  assumes con: "consistent d" and "int (length (images d)) \<le> 1000" "int (length (images d)) \<le> page_size_max s"
  shows "\<exists>rest. check_scanner (api_client s coll ties d) = Some
    ((''1.1'', set REQUIRED_IMAGES \<subseteq> image_key ` set (images d)) #
     (''1.2'', \<forall>i \<in> set (images d). image_key i \<in> set REQUIRED_IMAGES \<longrightarrow>
        i_last_scan_status i = Some SUCCESS \<or> i_last_scan_status i = Some SKIPPED) # rest)"
proof -
  let ?xs = "image_listing s coll d"
  have keys: "(\<lambda>e. (is_name e, is_tag e)) ` set ?xs = image_key ` set (images d)"
    unfolding image_listing_def set_map image_image
    by (simp add: image_row_fields [OF con] image_key_def cong: image_cong)
  have missing: "filter (\<lambda>nt. nt \<notin> set (map (\<lambda>e. (is_name e, is_tag e)) ?xs)) REQUIRED_IMAGES = []
      \<longleftrightarrow> set REQUIRED_IMAGES \<subseteq> image_key ` set (images d)"
    unfolding set_map keys by (auto simp: filter_empty_conv)
  have each: "in_brief (image_row s d i) = (image_key i \<in> set REQUIRED_IMAGES)"
    "was_scanned (image_row s d i) = (i_last_scan_status i = Some SUCCESS \<or> i_last_scan_status i = Some SKIPPED)"
    if "i \<in> set (images d)" for i
    using image_row_fields [OF con that] by (simp_all add: in_brief_def was_scanned_def image_key_def)
  have unscanned: "filter (\<lambda>e. e \<notin> set (filter was_scanned (filter in_brief ?xs))) (filter in_brief ?xs) = []
      \<longleftrightarrow> (\<forall>i \<in> set (images d). image_key i \<in> set REQUIRED_IMAGES \<longrightarrow>
        i_last_scan_status i = Some SUCCESS \<or> i_last_scan_status i = Some SKIPPED)"
    using each by (auto simp: filter_empty_conv image_listing_def)
  have sample: "\<exists>pg. cl_image_cves (api_client s coll ties d) (is_name e) (is_tag e) None (Some 200) = Reply pg"
    if "richest (filter was_scanned (filter in_brief ?xs)) = Some e" for e
  proof -
    from richest_in [OF that] have "e \<in> set ?xs" by simp
    from listed_image [OF con this] obtain i where "is_name e = i_name i" "is_tag e = i_tag i"
      "find_image (i_name i) (i_tag i) d = Some i" by blast
    then show ?thesis using image_cves_answer [OF con, of _ _ i "Some 200" None s coll ties] by auto
  qed
  note page = images_answer [OF con, of "Some 1000" s coll ties, simplified, unfolded all_listed [OF assms(2,3)]]
  show ?thesis
  proof (cases "richest (filter was_scanned (filter in_brief ?xs))")
    case None
    then show ?thesis using page missing unscanned
      by (simp add: check_scanner_def Let_def page_of_def)
  next
    case (Some e)
    from sample [OF Some] obtain pg where
      "cl_image_cves (api_client s coll ties d) (is_name e) (is_tag e) None (Some 200) = Reply pg" by blast
    with Some show ?thesis using page missing unscanned
      by (simp add: check_scanner_def Let_def page_of_def)
  qed
qed

lemma schema_checks:
  assumes con: "consistent d"
  shows "\<exists>rs. check_schema (api_client s coll ties d) = Some rs"
proof (cases "slice (first_page s (Some 5)) (cve_listing coll None d)")
  case Nil
  then show ?thesis
    using images_answer [OF con, of "Some 1000" s coll ties] cves_answer [of "Some 5" None s coll ties d]
      cves_answer [of "Some 200" None s coll ties d]
    by (simp add: check_schema_def Let_def page_of_def)
next
  case (Cons e es)
  then have "e \<in> set (slice (first_page s (Some 5)) (cve_listing coll None d))" by simp
  from listed_cve_live(1) [OF con in_slice [OF this]] have "cs_cve_id e \<in> c_id ` set (cves d)" .
  from cve_images_answer [OF con this, of None s coll ties] show ?thesis
    using images_answer [OF con, of "Some 1000" s coll ties] cves_answer [of "Some 5" None s coll ties d]
      cves_answer [of "Some 200" None s coll ties d] Cons
    by (simp add: check_schema_def Let_def page_of_def)
qed

lemma summary_iff: "summary rs = (if list_all snd rs then 0 else 1)"
  by (auto simp: summary_def filter_empty_conv list_all_iff)

section \<open>Properties\<close>

text \<open>C22. The acceptance script against the modelled API. On a consistent database whose images fit on
  the default page the script never dies, and which of the ten API checks pass is decided: 3.3,
  3.4 and 3.7 exactly when some finding is current (they fail on a database that was never
  scanned), 3.8 and 3.9 exactly when the database does not know the image and the CVE the script
  makes up, the other five always. The first two checks of scanning say what they mean to: every
  image of the brief is registered, and each was scanned. The exit code is 0 exactly when the
  checks of scanning and storage pass, some finding is current and the made-up names are unknown.\<close>

theorem acceptance_checks_decide:
  assumes "consistent d" and "int (length (images d)) \<le> 1000"
    and "0 < page_size_default s" "int (length (images d)) \<le> page_size_default s" "page_size_default s \<le> page_size_max s"
  shows "\<exists>rest schema.
    check_scanner (api_client s coll ties d) = Some
      ((''1.1'', set REQUIRED_IMAGES \<subseteq> image_key ` set (images d)) #
       (''1.2'', \<forall>i \<in> set (images d). image_key i \<in> set REQUIRED_IMAGES \<longrightarrow>
          i_last_scan_status i = Some SUCCESS \<or> i_last_scan_status i = Some SKIPPED) # rest) \<and>
    check_schema (api_client s coll ties d) = Some schema \<and>
    check_api (api_client s coll ties d) = Some
      [(''3.1'', True), (''3.2'', True), (''3.3'', current_findings d \<noteq> []), (''3.4'', current_findings d \<noteq> []),
       (''3.5'', True), (''3.6'', True), (''3.7'', current_findings d \<noteq> []),
       (''3.8'', find_image ''nope'' ''nope'' d = None), (''3.9'', ''CVE-0000-0000'' \<notin> c_id ` set (cves d)),
       (''3.10'', True)] \<and>
    verify (api_client s coll ties d) = Some
      (if list_all snd (the (check_scanner (api_client s coll ties d)) @ schema) \<and> current_findings d \<noteq> [] \<and>
          find_image ''nope'' ''nope'' d = None \<and> ''CVE-0000-0000'' \<notin> c_id ` set (cves d) then 0 else 1)"
proof -
  have fits: "int (length (images d)) \<le> page_size_max s" using assms(4,5) by linarith
  from scanner_checks [OF assms(1,2) fits, of coll ties] schema_checks [OF assms(1), of s coll ties]
    api_checks [OF assms(1,3-5), of coll ties]
  show ?thesis
    by (elim exE conjE) (simp add: verify_def summary_iff)
qed

theorem acceptance_checks_decide_witness:
  "(\<exists>api. check_api (api_client default_settings id (\<lambda>_. f_id) once_db) = Some api \<and> list_all snd api) \<and>
   verify (api_client default_settings id (\<lambda>_. f_id) fresh_db) = Some 1"
proof -
  have "map f_id (current_findings once_db) = [1, 2]" by code_simp
  then have once: "current_findings once_db \<noteq> []" by (cases "current_findings once_db") simp_all
  have "map i_id (images once_db) = [1, 2]" by code_simp
  from arg_cong [OF this, of length] have n: "length (images once_db) = 2" by simp
  have unknown: "find_image ''nope'' ''nope'' once_db = None" "''CVE-0000-0000'' \<notin> c_id ` set (cves once_db)"
    by code_simp+
  have fresh: "length (images fresh_db) = 2" "current_findings fresh_db = []"
    by (simp_all add: fresh_db_def current_findings_def empty_db_def)
  show ?thesis
    using acceptance_checks_decide [OF once_consistent, of default_settings id "\<lambda>_. f_id"] once n unknown
      acceptance_checks_decide [OF fresh_consistent, of default_settings id "\<lambda>_. f_id"] fresh
    by (auto simp: default_settings_def)
qed

lemma clock_advances:
  assumes "\<And>n. clock n + seconds 5 \<le> clock (Suc n)"
  shows "clock m + int k * seconds 5 \<le> clock (m + k)"
proof (induction k)
  case (Suc k)
  with assms [of "m + k"] show ?case by (simp add: algebra_simps)
qed simp

definition landed_before :: "(nat \<Rightarrow> time) \<Rightarrow> (nat \<Rightarrow> image_summary list option) \<Rightarrow> time \<Rightarrow> nat \<Rightarrow> bool" where
  "landed_before clock poll deadline n \<longleftrightarrow>
     clock n < deadline \<and> (\<exists>items. poll n = Some items \<and> all_landed items)"

lemma wait_loop_result:
  assumes "\<And>n. clock n \<le> clock (Suc n)" "deadline \<le> clock (n + k)" "k < fuel"
  shows "wait_loop clock poll deadline n fuel = Some (\<exists>m \<ge> n. landed_before clock poll deadline m)"
  using assms(2,3)
proof (induction fuel arbitrary: n k)
  case (Suc fuel)
  show ?case
  proof (cases "clock n < deadline")
    case False
    have "\<not> landed_before clock poll deadline m" if "n \<le> m" for m
      using lift_Suc_mono_le [of clock, OF assms(1) that] False by (simp add: landed_before_def)
    with False show ?thesis by auto
  next
    case True
    then have k: "0 < k" using Suc.prems(1) by (cases k) auto
    have IH: "wait_loop clock poll deadline (Suc n) fuel = Some (\<exists>m \<ge> Suc n. landed_before clock poll deadline m)"
      by (rule Suc.IH [of _ "k - 1"]) (use Suc.prems k in auto)
    have split: "(\<exists>m \<ge> n. landed_before clock poll deadline m)
        \<longleftrightarrow> landed_before clock poll deadline n \<or> (\<exists>m \<ge> Suc n. landed_before clock poll deadline m)"
      by (metis Suc_leD le_refl not_less_eq_eq le_antisym)
    show ?thesis
      unfolding split using True IH by (auto simp: landed_before_def split: option.splits)
  qed
qed simp

text \<open>C39. The wait for the first scans ends: when an iteration that does not return sleeps its five
  seconds or more, at most one more than a fifth of the timeout are made. It answers True
  exactly when some poll before the deadline showed every registered image of the brief
  scanned, and at least one.\<close>

theorem wait_ends_in_time:
  assumes "start \<le> clock 0" and "\<And>n. clock n + seconds 5 \<le> clock (Suc n)"
    and "nat ((timeout + 4) div 5) < fuel"
  shows "wait_for_scans clock poll start timeout fuel
    = Some (\<exists>n items. clock n < start + seconds timeout \<and> poll n = Some items \<and> all_landed items)"
proof -
  let ?k = "nat ((timeout + 4) div 5)"
  have "timeout \<le> int ?k * 5" by simp presburger
  then have "seconds timeout \<le> int ?k * seconds 5" by (simp add: seconds_def)
  with assms(1) clock_advances [of clock 0 ?k, OF assms(2)] have "start + seconds timeout \<le> clock (0 + ?k)"
    by simp
  moreover have "clock n \<le> clock (Suc n)" for n using assms(2) [of n] by (simp add: seconds_def)
  ultimately have "wait_loop clock poll (start + seconds timeout) 0 fuel
      = Some (\<exists>m \<ge> 0. landed_before clock poll (start + seconds timeout) m)"
    by (intro wait_loop_result [OF _ _ assms(3)])
  then show ?thesis by (simp add: wait_for_scans_def landed_before_def)
qed

theorem wait_ends_in_time_witness:
  "wait_for_scans (\<lambda>n. int n * seconds 10) (\<lambda>_. Some []) 0 12 5 = Some False"
proof -
  have "\<not> all_landed []" by (simp add: all_landed_def)
  then show ?thesis
    using wait_ends_in_time [of 0 "\<lambda>n. int n * seconds 10" 12 5 "\<lambda>_. Some []"]
    by (simp add: seconds_def algebra_simps)
qed

end
