(* ===== verification/Job_Logs.thy ===== *)
theory Job_Logs
  imports Worker_Props Logs_Props
begin

text \<open>
  What the worker and the scheduler log (the \<open>log\<close>, \<open>bind\<close> and \<open>bound\<close> calls of
  src/app/scanner/worker.py and src/app/scheduler/scheduler.py), as the actions of theory Logs
  that run beside the database operations of theories Worker and Scheduler: each definition has
  the branches of the operation it goes with, and an error that escapes it is a \<open>Raise\<close>. The
  theorems show that the log of a job can be put together again from its lines, and that the
  line that closes it agrees with the run history.
\<close>

section \<open>The lines of a job\<close>

type_synonym log_line = access_line

text \<open>After an outcome was committed, or with the error that escaped.\<close>

definition after_commit :: "sql_error + db \<Rightarrow> log_line action list \<Rightarrow> log_line action list" where
  "after_commit r acts = (case r of Inl _ \<Rightarrow> [Raise] | Inr _ \<Rightarrow> acts)"

definition defer_lines :: "bool \<Rightarrow> scan_job \<Rightarrow> exn \<Rightarrow> worker_times \<Rightarrow> db \<Rightarrow> log_line action list" where
  "defer_lines in_txn job e t d =
     after_commit (defer_for_backpressure in_txn job e t d)
       [Emit (''INFO'', ''deferred: registry throttled us'',
          [(''retry_after_seconds'', SInt (int_or (retry_after_of e) DEFAULT_DEFER_SECONDS))])]"

text \<open>\<open>exhausted\<close> is what \<open>fail\<close> made of the job object.\<close>

definition is_exhausted :: "settings \<Rightarrow> bool \<Rightarrow> scan_job \<Rightarrow> exn \<Rightarrow> bool \<Rightarrow> worker_times \<Rightarrow> db \<Rightarrow> bool" where
  "is_exhausted s in_txn job e permanent t d =
     (case rolled_back_job in_txn job d of
        None \<Rightarrow> False
      | Some j \<Rightarrow> j_status (fail j (error_message e) (if permanent then 1 else max_attempts s)
          (backoff_base_seconds s) (backoff_max_seconds s) (t_fail t)) = FAILED)"

definition failure_lines ::
    "settings \<Rightarrow> bool \<Rightarrow> scan_job \<Rightarrow> image option \<Rightarrow> exn \<Rightarrow> bool \<Rightarrow> worker_times \<Rightarrow> db \<Rightarrow> log_line action list" where
  "failure_lines s in_txn job loaded_image e permanent t d =
     after_commit (record_job_failure s in_txn job loaded_image e permanent t d)
       [Emit (''WARNING'', ''job failed'',
          [(''permanent'', SBool permanent), (''exhausted'', SBool (is_exhausted s in_txn job e permanent t d)),
           (''reason'', SStr (error_message e))])]"

definition error_lines ::
    "settings \<Rightarrow> bool \<Rightarrow> scan_job \<Rightarrow> image option \<Rightarrow> exn \<Rightarrow> worker_times \<Rightarrow> db \<Rightarrow> log_line action list" where
  "error_lines s in_txn job loaded_image e t d =
     (if is_image_not_found e then failure_lines s in_txn job loaded_image e True t d
      else if is_backpressure e then defer_lines in_txn job e t d
      else if is_registry_error e \<or> is_trivy_error e \<or> is_report_error e then
        failure_lines s in_txn job loaded_image e False t d
      else Emit (''ERROR'', ''unexpected error'', []) # failure_lines s in_txn job loaded_image e False t d)"

definition result_line :: "scan_plan \<Rightarrow> worker_times \<Rightarrow> scan_result \<Rightarrow> log_line" where
  "result_line plan t result =
     (case result of
        Unchanged _ \<Rightarrow> (''INFO'', ''skipped: digest and vulnerability database unchanged'', [])
      | Scanned digest report \<Rightarrow>
          (''INFO'', ''scan complete'',
           [(''findings'', SInt (int (length (pr_findings report)))),
            (''duration_ms'', SInt (duration_ms (plan_meta plan (str_or (pr_digest report) digest) (t_completed t))))]))"

text \<open>From the resolution on; the digest is bound as soon as it is known.\<close>

definition finish_lines ::
    "scan_env \<Rightarrow> settings \<Rightarrow> worker_times \<Rightarrow> scan_job \<Rightarrow> scan_plan \<Rightarrow> db \<Rightarrow> log_line action list" where
  "finish_lines env s t job plan d =
     (case resolve_digest (env_lib env) (t_http t) (env_http env)
             (parse_reference (i_name (sp_image plan)) (i_tag (sp_image plan))) of
        Inl e \<Rightarrow> error_lines s False job (Some (sp_image plan)) e t d
      | Inr digest \<Rightarrow> Bind [(''digest'', SStr digest)] #
          (case perform env s t plan of
             Inl e \<Rightarrow> error_lines s False job (Some (sp_image plan)) e t d
           | Inr result \<Rightarrow>
               (case write_result plan job t result d of
                  Inl err \<Rightarrow> error_lines s True job None (sql_exn err) t d
                | Inr _ \<Rightarrow> [Emit (result_line plan t result)])))"

definition execute_lines ::
    "scan_env \<Rightarrow> settings \<Rightarrow> worker_times \<Rightarrow> (db \<Rightarrow> db) \<Rightarrow> scan_job \<Rightarrow> db \<Rightarrow> log_line action list" where
  "execute_lines env s t between job d =
     (case find_row i_id (j_image_id job) (images d) of
        None \<Rightarrow>
          (case save_job job (complete job) d of
             Inl err \<Rightarrow> error_lines s True job None (sql_exn err) t d
           | Inr _ \<Rightarrow> [])
      | Some img \<Rightarrow> Bind [(''image'', SStr (reference img))] #
          (case prepare env s t job d of
             Inl e \<Rightarrow> error_lines s True job None e t d
           | Inr None \<Rightarrow> []
           | Inr (Some plan) \<Rightarrow> finish_lines env s t job plan (between d)))"

definition run_once_lines ::
    "scan_env \<Rightarrow> settings \<Rightarrow> worker_times \<Rightarrow> int list \<Rightarrow> (db \<Rightarrow> db) \<Rightarrow> (db \<Rightarrow> db) \<Rightarrow> db \<Rightarrow> log_line action list" where
  "run_once_lines env s t locked after_claim between d =
     (case claim locked (t_stmt t) (t_claim t) (lease_seconds s) d of
        (d0, None) \<Rightarrow> []
      | (d0, Some job) \<Rightarrow>
          [Bound [(''job_id'', SInt (j_id job)), (''attempt'', SInt (j_attempts job))]
             (execute_lines env s t between job (after_claim d0))])"

section \<open>The lines of a scheduler pass\<close>

fun reaped_lines :: "clock \<Rightarrow> reaped_job list \<Rightarrow> db \<Rightarrow> log_line action list" where
  "reaped_lines clock [] d = []"
| "reaped_lines clock (entry # entries) d =
     (case find_row i_id (rj_image_id entry) (images d) of
        None \<Rightarrow> reaped_lines clock entries d
      | Some img \<Rightarrow>
          (case record_failure img (find_row j_id (rj_job_id entry) (scan_jobs d))
                  (empty_metadata (clock 0) (clock 0)) LEASE_EXPIRED_ERROR (rj_exhausted entry) d of
             Inl e \<Rightarrow> [Raise]
           | Inr (d', _) \<Rightarrow>
               Bound [(''job_id'', SInt (rj_job_id entry)), (''image'', SStr (reference img))]
                 [Emit (''WARNING'', ''reaped job: worker presumed dead'', [(''exhausted'', SBool (rj_exhausted entry))])]
               # reaped_lines (\<lambda>n. clock (Suc n)) entries d'))"

fun enqueue_lines :: "clock \<Rightarrow> time \<Rightarrow> image list \<Rightarrow> db \<Rightarrow> log_line action list" where
  "enqueue_lines clock txn_ts [] d = []"
| "enqueue_lines clock txn_ts (img # imgs) d =
     (case enqueue (i_id img) PRIORITY_SCHEDULED None (clock 0) txn_ts d of
        Inl e \<Rightarrow> [Raise]
      | Inr (d', b) \<Rightarrow>
          (if b then [Emit (''INFO'', ''enqueued'', [(''image'', SStr (reference img))])] else [])
          @ enqueue_lines (\<lambda>n. clock (Suc n)) txn_ts imgs d')"

definition tick_lines :: "settings \<Rightarrow> time \<Rightarrow> clock \<Rightarrow> time \<Rightarrow> clock \<Rightarrow> time \<Rightarrow> db \<Rightarrow> log_line action list" where
  "tick_lines s stmt_ts reap_clock now enqueue_clock txn_ts d =
     (let (d1, reaped) = reap_expired_leases (max_attempts s) stmt_ts d
      in reaped_lines reap_clock reaped d1 @
         (case record_reaped reap_clock reaped d1 of
            Inl e \<Rightarrow> []
          | Inr d2 \<Rightarrow> enqueue_lines enqueue_clock txn_ts (due_images s now d2) d2))"

section \<open>Running the lines\<close>

text \<open>The lines of code that binds nothing all come in the context it runs in.\<close>

definition emitted :: "log_context \<Rightarrow> log_line list \<Rightarrow> (log_line \<times> fields) list" where
  "emitted c lns = map (\<lambda>l. (l, current_fields c)) lns"

lemma emitted_simps [simp]:
  "emitted c [] = []" "emitted c (l # lns) = (l, current_fields c) # emitted c lns"
  "emitted c (a @ b) = emitted c a @ emitted c b"
  "(l, ctx) \<in> set (emitted c lns) \<longleftrightarrow> ctx = current_fields c \<and> l \<in> set lns"
  by (auto simp: emitted_def)

text \<open>The line that closes a job agrees with the run history: \<open>ended_as\<close> is the run each closing line stands for.\<close>

definition ended_as :: "string \<Rightarrow> run_status list option" where
  "ended_as = map_of [(''scan complete'', [SUCCESS]), (''skipped: digest and vulnerability database unchanged'', [SKIPPED]),
     (''job failed'', [RUN_FAILED]), (''deferred: registry throttled us'', [])]"

definition job_closed :: "db \<Rightarrow> db \<times> sql_error option \<Rightarrow> log_line list \<Rightarrow> bool" where
  "job_closed base r lns \<longleftrightarrow> (snd r = None \<longrightarrow>
     (\<exists>before level msg extra sts. lns = before @ [(level, msg, extra)] \<and> length before \<le> 1 \<and>
        ended_as msg = Some sts \<and> map r_status (scan_runs (fst r)) = map r_status (scan_runs base) @ sts))"

lemma closed_line:
  "map r_status (scan_runs d') = map r_status (scan_runs base) @ sts \<Longrightarrow> ended_as msg = Some sts \<Longrightarrow>
   length before \<le> 1 \<Longrightarrow> job_closed base (d', None) (before @ [(level, msg, extra)])"
  by (auto simp: job_closed_def)

lemma save_job_runs: "save_job loaded new d = Inr d' \<Longrightarrow> scan_runs d' = scan_runs d"
  by (rule save_job_tables(2))

text \<open>What a recording adds to the run history.\<close>

lemma record_failure_runs:
  "record_failure img job meta error exhausted d = Inr (d', k) \<Longrightarrow>
   map r_status (scan_runs d') = map r_status (scan_runs d) @ [RUN_FAILED]"
  by (auto simp: record_failure_def insert_run_def save_image_eq new_run_def Let_def split: if_splits sum.splits)

lemma record_skip_runs:
  "record_skip img job meta d = Inr (d', k) \<Longrightarrow>
   map r_status (scan_runs d') = map r_status (scan_runs d) @ [SKIPPED]"
  by (auto simp: record_skip_def insert_run_def save_image_eq new_run_def Let_def split: if_splits sum.splits)

lemma record_success_runs:
  assumes "record_success img job report meta d = Inr (d', k)"
  shows "map r_status (scan_runs d') = map r_status (scan_runs d) @ [SUCCESS]"
proof -
  have "d' = recompute_cve_rollup (affected_cves img report d) (base_db img job report meta d)"
    using assms by (simp add: record_success_eq)
  moreover have "map r_status (update_rows p (set_counts n) rs) = map r_status rs" for p n rs
    by (rule map_update_rows) (simp add: set_counts_def)
  ultimately show ?thesis by (simp add: base_db_def new_run_def)
qed

text \<open>The except clauses: the lines of \<open>error_lines\<close> end as \<open>handle_error\<close> does.\<close>

lemma after_commit_run:
  "run_actions (after_commit r [Emit l]) c = (c, emitted c (if isl r then [] else [l]), isl r)"
  by (cases r) (simp_all add: after_commit_def)

lemma commit_snd: "snd (commit d r) \<noteq> None \<longleftrightarrow> isl r" "r = Inr d' \<Longrightarrow> commit d r = (d', None)"
  by (auto simp: commit_def split: sum.splits)

lemma defer_runs: "defer_for_backpressure b job e t d = Inr d' \<Longrightarrow> scan_runs d' = scan_runs d"
  using save_job_runs by (auto simp: defer_for_backpressure_def split: option.splits)

lemma job_failure_runs:
  assumes "consistent d" "job \<in> set (scan_jobs d)" "\<not> b \<longrightarrow> img \<noteq> None"
    and "record_job_failure s b job img e p t d = Inr d'"
  shows "map r_status (scan_runs d') = map r_status (scan_runs d) @ [RUN_FAILED]"
proof -
  note again = own_job_reread [OF assms(1,2), of b]
  have "j_image_id job \<in> i_id ` set (images d)"
    using consistentD(4) [OF assms(1)] assms(2) by (auto simp: references_ok_def)
  then have "find_row i_id (j_image_id job) (images d) \<noteq> None" by (simp only: find_row_None_iff not_not simp_thms)
  then obtain i where i: "(if b then find_row i_id (j_image_id job) (images d) else img) = Some i"
    using assms(3) by (cases b) auto
  let ?new = "fail job (error_message e) (if p then 1 else max_attempts s)
     (backoff_base_seconds s) (backoff_max_seconds s) (t_fail t)"
  let ?r = "record_failure i (Some job) (empty_metadata (t_fail_started t) (t_fail_completed t))
        (error_message e) (j_status ?new = FAILED) d"
  from assms(4) again i obtain d1 k where r: "?r = Inr (d1, k)"
    by (cases ?r) (auto simp: record_job_failure_def Let_def)
  with assms(4) again i have "save_job job ?new d1 = Inr d'" by (simp add: record_job_failure_def Let_def)
  from save_job_runs [OF this] record_failure_runs [OF r] show ?thesis by simp
qed

lemma failure_lines_run:
  assumes "consistent d" "job \<in> set (scan_jobs d)" "\<not> b \<longrightarrow> img \<noteq> None" "length pre \<le> 1"
    and r: "r = commit d (record_job_failure s b job img e p t d)"
  obtains lns where "run_actions (failure_lines s b job img e p t d) c = (c, emitted c lns, snd r \<noteq> None)"
    "job_closed d r (pre @ lns)"
proof (cases "record_job_failure s b job img e p t d")
  case (Inl err)
  then show ?thesis
    by (intro that [of "[]"]) (simp_all add: failure_lines_def after_commit_def r commit_def job_closed_def)
next
  case (Inr d')
  let ?l = "(''WARNING'', ''job failed'', [(''permanent'', SBool p), (''exhausted'', SBool (is_exhausted s b job e p t d)),
    (''reason'', SStr (error_message e))])"
  have "job_closed d r (pre @ [?l])"
    unfolding r Inr commit_snd(2) [OF refl]
    by (rule closed_line [OF job_failure_runs [OF assms(1-3) Inr] _ assms(4)]) (simp add: ended_as_def)
  with Inr show ?thesis
    by (intro that [of "[?l]"]) (simp_all add: failure_lines_def after_commit_def r commit_def)
qed

lemma defer_lines_run:
  assumes r: "r = commit d (defer_for_backpressure b job e t d)"
  obtains lns where "run_actions (defer_lines b job e t d) c = (c, emitted c lns, snd r \<noteq> None)" "job_closed d r lns"
proof (cases "defer_for_backpressure b job e t d")
  case (Inl err)
  then show ?thesis
    by (intro that [of "[]"]) (simp_all add: defer_lines_def after_commit_def r commit_def job_closed_def)
next
  case (Inr d')
  let ?l = "(''INFO'', ''deferred: registry throttled us'',
      [(''retry_after_seconds'', SInt (int_or (retry_after_of e) DEFAULT_DEFER_SECONDS))])"
  have "job_closed d (d', None) ([] @ [?l])"
    by (rule closed_line) (simp_all add: defer_runs [OF Inr] ended_as_def)
  with Inr show ?thesis
    by (intro that [of "[?l]"]) (simp_all add: defer_lines_def after_commit_def r commit_def)
qed

lemma error_lines_run:
  assumes "consistent d" "job \<in> set (scan_jobs d)" "\<not> b \<longrightarrow> img \<noteq> None"
    and r: "r = commit d (handle_error s b job img e t d)"
  obtains lns where "run_actions (error_lines s b job img e t d) c = (c, emitted c lns, snd r \<noteq> None)" "job_closed d r lns"
proof (cases "is_backpressure e")
  case True
  then have r': "r = commit d (defer_for_backpressure b job e t d)"
    and l: "error_lines s b job img e t d = defer_lines b job e t d"
    using backpressure_not_not_found [OF True] by (simp_all add: r handle_error_def error_lines_def)
  from defer_lines_run [OF r', of c] that show ?thesis unfolding l .
next
  case False
  then have r': "r = commit d (record_job_failure s b job img e (is_image_not_found e) t d)"
    by (simp add: r handle_error_def)
  define known where "known \<longleftrightarrow> is_registry_error e \<or> is_trivy_error e \<or> is_report_error e"
  have "\<not> known \<Longrightarrow> \<not> is_image_not_found e" by (cases e) (simp_all add: known_def)
  then have l: "error_lines s b job img e t d = (if known then [] else [Emit (''ERROR'', ''unexpected error'', [])])
      @ failure_lines s b job img e (is_image_not_found e) t d"
    using False by (auto simp: error_lines_def known_def)
  let ?pre = "if known then [] else [(''ERROR'', ''unexpected error'', [])]"
  have "length ?pre \<le> 1" by simp
  from failure_lines_run [OF assms(1-3) this r', of c] obtain lns where
    f: "run_actions (failure_lines s b job img e (is_image_not_found e) t d) c = (c, emitted c lns, snd r \<noteq> None)"
    "job_closed d r (?pre @ lns)" .
  show ?thesis by (rule that [OF _ f(2)]) (use f(1) in \<open>simp add: l\<close>)
qed

text \<open>The whole of \<open>_execute\<close> with its handlers: the lines come in the context \<open>c'\<close> in which the image,
  and the digest once it was resolved, are bound.\<close>

lemma write_result_runs:
  assumes "write_result plan job t result d = Inr d'"
  shows "job_closed d (d', None) [result_line plan t result]"
proof (cases result)
  case (Unchanged digest)
  let ?r = "record_skip (sp_image plan) (Some job) (plan_meta plan digest (t_completed t)) d"
  from assms Unchanged obtain d1 k where r: "?r = Inr (d1, k)" "save_job job (complete job) d1 = Inr d'"
    by (cases ?r) (auto simp: write_result_def)
  from record_skip_runs [OF r(1)] show ?thesis
    using save_job_runs [OF r(2)] by (simp add: job_closed_def result_line_def Unchanged ended_as_def)
next
  case (Scanned digest report)
  let ?m = "plan_meta plan (str_or (pr_digest report) digest) (t_completed t)"
  let ?r = "record_success (sp_image plan) (Some job) report ?m d"
  from assms Scanned obtain d1 k where r: "?r = Inr (d1, k)" "save_job job (complete job) d1 = Inr d'"
    by (cases ?r) (auto simp: write_result_def)
  from record_success_runs [OF r(1)] show ?thesis
    using save_job_runs [OF r(2)] by (simp add: job_closed_def result_line_def Scanned ended_as_def)
qed

lemma finish_lines_run:
  assumes "consistent d" "job \<in> set (scan_jobs d)" and r: "r = finish_job env s t job plan d"
  obtains lns c' where "run_actions (finish_lines env s t job plan d) c = (c', emitted c' lns, snd r \<noteq> None)" "job_closed d r lns"
    "c' = (case resolve_digest (env_lib env) (t_http t) (env_http env)
             (parse_reference (i_name (sp_image plan)) (i_tag (sp_image plan))) of
           Inl _ \<Rightarrow> c | Inr digest \<Rightarrow> bind_fields [(''digest'', SStr digest)] c)"
proof -
  let ?res = "resolve_digest (env_lib env) (t_http t) (env_http env)
             (parse_reference (i_name (sp_image plan)) (i_tag (sp_image plan)))"
  let ?c = "case ?res of Inl _ \<Rightarrow> c | Inr digest \<Rightarrow> bind_fields [(''digest'', SStr digest)] c"
  consider (failed) e where "perform env s t plan = Inl e" "r = commit d (handle_error s False job (Some (sp_image plan)) e t d)"
    | (refused) result err where "perform env s t plan = Inr result" "write_result plan job t result d = Inl err"
        "r = commit d (handle_error s True job None (sql_exn err) t d)"
    | (written) result d' where "perform env s t plan = Inr result" "write_result plan job t result d = Inr d'" "r = (d', None)"
    using r by (auto simp: finish_job_def split: sum.splits)
  then show ?thesis
  proof cases
    case failed
    from error_lines_run [OF assms(1,2) _ failed(2), of ?c] obtain lns where
      "run_actions (error_lines s False job (Some (sp_image plan)) e t d) ?c = (?c, emitted ?c lns, snd r \<noteq> None)" "job_closed d r lns"
      by auto
    then show ?thesis
      using failed(1) by (intro that [of ?c lns]) (auto simp: finish_lines_def perform_def Let_def split: sum.splits)
  next
    case refused
    from error_lines_run [OF assms(1,2) _ refused(3), of ?c] obtain lns where
      "run_actions (error_lines s True job None (sql_exn err) t d) ?c = (?c, emitted ?c lns, snd r \<noteq> None)" "job_closed d r lns"
      by auto
    then show ?thesis
      using refused(1,2) by (intro that [of ?c lns]) (auto simp: finish_lines_def perform_def Let_def split: sum.splits if_splits)
  next
    case written
    then show ?thesis
      using write_result_runs [OF written(2)]
      by (intro that [of ?c "[result_line plan t result]"]) (auto simp: finish_lines_def perform_def Let_def split: sum.splits if_splits)
  qed
qed

text \<open>The digest a planned job resolves its image to, None when it has none (yet).\<close>

definition resolved :: "scan_env \<Rightarrow> settings \<Rightarrow> worker_times \<Rightarrow> scan_job \<Rightarrow> db \<Rightarrow> string option" where
  "resolved env s t job d =
     (case prepare env s t job d of
        Inr (Some plan) \<Rightarrow>
          (case resolve_digest (env_lib env) (t_http t) (env_http env)
                  (parse_reference (i_name (sp_image plan)) (i_tag (sp_image plan))) of
             Inl _ \<Rightarrow> None
           | Inr digest \<Rightarrow> Some digest)
      | _ \<Rightarrow> None)"

lemma execute_lines_run:
  assumes img: "find_row i_id (j_image_id job) (images d) = Some img"
    and base: "base = (if \<exists>plan. prepare env s t job d = Inr (Some plan) then between d else d)"
    and con: "consistent base" "job \<in> set (scan_jobs base)"
    and r: "r = execute env s t between job d"
  obtains lns c' where "run_actions (execute_lines env s t between job d) c = (c', emitted c' lns, snd r \<noteq> None)"
    "job_closed base r lns"
    "c' = (let c = bind_fields [(''image'', SStr (reference img))] c
           in case resolved env s t job d of None \<Rightarrow> c | Some digest \<Rightarrow> bind_fields [(''digest'', SStr digest)] c)"
proof (cases "prepare env s t job d")
  case (Inl e)
  let ?c = "bind_fields [(''image'', SStr (reference img))] c"
  from Inl base have b: "base = d" by simp
  from Inl r have "r = commit d (handle_error s True job None e t d)" by (simp add: execute_def)
  from error_lines_run [OF con [unfolded b] _ this, of ?c] obtain lns where
    "run_actions (error_lines s True job None e t d) ?c = (?c, emitted ?c lns, snd r \<noteq> None)" "job_closed d r lns" by auto
  with Inl img b that show ?thesis by (simp add: execute_lines_def resolved_def Let_def)
next
  case (Inr p)
  have "p \<noteq> None" using Inr img by (auto simp: prepare_def split: sum.splits prod.splits)
  then obtain plan where plan: "prepare env s t job d = Inr (Some plan)" using Inr by auto
  then have b: "base = between d" and fin: "r = finish_job env s t job plan (between d)"
    using base r by (auto simp: execute_def)
  from finish_lines_run [OF con [unfolded b] fin, of "bind_fields [(''image'', SStr (reference img))] c"]
  obtain lns c' where f: "run_actions (finish_lines env s t job plan (between d)) (bind_fields [(''image'', SStr (reference img))] c)
      = (c', emitted c' lns, snd r \<noteq> None)" "job_closed (between d) r lns"
    "c' = (case resolve_digest (env_lib env) (t_http t) (env_http env)
             (parse_reference (i_name (sp_image plan)) (i_tag (sp_image plan))) of
           Inl _ \<Rightarrow> bind_fields [(''image'', SStr (reference img))] c
         | Inr digest \<Rightarrow> bind_fields [(''digest'', SStr digest)] (bind_fields [(''image'', SStr (reference img))] c))" .
  show ?thesis
    by (rule that [of c' lns]) (use f plan img in \<open>auto simp: execute_lines_def resolved_def b Let_def split: sum.splits\<close>)
qed

text \<open>C10. The log of a job can be put together again, and its end can be believed. Every line a worker
  writes while it works on a job, the lines of its failure handlers included, carries the job's
  id, its attempt number and the image, and once the digest is resolved all of them carry it;
  the context is then as before. Unless an error escapes \<open>run_once\<close>, one closing line comes last,
  after at most one other, and it agrees with the one run the job added to the history: scan complete with a success, skipped
  with a skip, failed with a failure, deferred with none.\<close>

theorem job_lines_tell_the_outcome:
  assumes "claim locked (t_stmt t) (t_claim t) (lease_seconds s) d = (d0, Some job)"
    and "find_row i_id (j_image_id job) (images (after_claim d0)) = Some img"
    and "base = (if \<exists>plan. prepare env s t job (after_claim d0) = Inr (Some plan) then between (after_claim d0) else after_claim d0)"
    and "consistent base" and "job \<in> set (scan_jobs base)"
    and "run_once env s t locked after_claim between d = (d', err, did_work)"
    and "run_actions (run_once_lines env s t locked after_claim between d) c = (c', ls, raised)"
  shows "c' = c \<and> (raised \<longleftrightarrow> err \<noteq> None) \<and>
    (\<forall>(line, ctx) \<in> set ls. map_of ctx ''job_id'' = Some (SInt (j_id job)) \<and>
       map_of ctx ''attempt'' = Some (SInt (j_attempts job)) \<and> map_of ctx ''image'' = Some (SStr (reference img)) \<and>
       (\<forall>digest. resolved env s t job (after_claim d0) = Some digest \<longrightarrow> map_of ctx ''digest'' = Some (SStr digest))) \<and>
    (err = None \<longrightarrow> (\<exists>level msg extra ctx before sts. ls = before @ [((level, msg, extra), ctx)] \<and> length before \<le> 1 \<and>
       ended_as msg = Some sts \<and> map r_status (scan_runs d') = map r_status (scan_runs base) @ sts))"
proof -
  let ?d = "after_claim d0" and ?f = "[(''job_id'', SInt (j_id job)), (''attempt'', SInt (j_attempts job))]"
  have ex: "(d', err) = execute env s t between job ?d"
    using assms(1,6) by (auto simp: run_once_def split: prod.splits)
  from execute_lines_run [OF assms(2-5) ex, of "bind_fields ?f c"] obtain lns cx where
    run: "run_actions (execute_lines env s t between job ?d) (bind_fields ?f c) = (cx, emitted cx lns, snd (d', err) \<noteq> None)"
    "job_closed base (d', err) lns"
    "cx = (let c = bind_fields [(''image'', SStr (reference img))] (bind_fields ?f c)
           in case resolved env s t job ?d of None \<Rightarrow> c | Some digest \<Rightarrow> bind_fields [(''digest'', SStr digest)] c)" .
  have ls: "c' = c" "raised \<longleftrightarrow> err \<noteq> None" "ls = emitted cx lns"
    using assms(1,7) run(1) by (auto simp: run_once_lines_def split: if_splits)
  have keys: "map_of (current_fields cx) ''job_id'' = Some (SInt (j_id job))"
    "map_of (current_fields cx) ''attempt'' = Some (SInt (j_attempts job))"
    "map_of (current_fields cx) ''image'' = Some (SStr (reference img))"
    "resolved env s t job ?d = Some digest \<Longrightarrow> map_of (current_fields cx) ''digest'' = Some (SStr digest)" for digest
    by (cases "resolved env s t job ?d"; simp add: run(3) current_bind map_of_merge Let_def)+
  have "\<exists>level msg extra ctx before sts. ls = before @ [((level, msg, extra), ctx)] \<and> length before \<le> 1 \<and>
       ended_as msg = Some sts \<and> map r_status (scan_runs d') = map r_status (scan_runs base) @ sts" if none: "err = None"
  proof -
    from run(2) none obtain level msg extra before sts where l: "lns = before @ [(level, msg, extra)]" "length before \<le> 1"
      "ended_as msg = Some sts" "map r_status (scan_runs d') = map r_status (scan_runs base) @ sts"
      by (auto simp: job_closed_def)
    then have "ls = emitted cx before @ [((level, msg, extra), current_fields cx)]" "length (emitted cx before) \<le> 1"
      using ls(3) by (simp_all add: emitted_def)
    with l(3,4) show ?thesis by blast
  qed
  then show ?thesis
    using ls keys by auto
qed

theorem job_lines_tell_the_outcome_witness:
  "\<exists>ls. run_actions (run_once_lines (empty_world (constant_registry throttled throttled)) default_settings zero_times [] id id sample_db) None
     = (None, ls, False) \<and> ls \<noteq> [] \<and> (\<forall>(line, ctx) \<in> set ls. map_of ctx ''job_id'' = Some (SInt 2))"
proof -
  let ?env = "empty_world (constant_registry throttled throttled)"
  have "case claim [] (t_stmt zero_times) (t_claim zero_times) (lease_seconds default_settings) sample_db of
      (d0, Some job) \<Rightarrow> j_id job = 2 \<and> job \<in> set (scan_jobs d0) \<and> find_row i_id (j_image_id job) (images d0) \<noteq> None
    | (d0, None) \<Rightarrow> False"
    by code_simp
  then obtain d0 job img where cl: "claim [] (t_stmt zero_times) (t_claim zero_times) (lease_seconds default_settings) sample_db = (d0, Some job)"
    and job: "j_id job = 2" "job \<in> set (scan_jobs (id d0))" "find_row i_id (j_image_id job) (images (id d0)) = Some img"
    by (auto split: prod.splits option.splits)
  have con: "consistent (id d0)"
    using clm.keeps_consistent [OF sample_consistent, of "[]" "t_stmt zero_times" "t_claim zero_times" "lease_seconds default_settings"] cl
    by simp
  obtain d' err b where run: "run_once ?env default_settings zero_times [] id id sample_db = (d', err, b)" by (metis prod_cases3)
  have "fst (snd (run_once ?env default_settings zero_times [] id id sample_db)) = None" by code_simp
  with run have err: "err = None" by simp
  obtain c' ls raised where lines: "run_actions (run_once_lines ?env default_settings zero_times [] id id sample_db) None = (c', ls, raised)"
    by (metis prod_cases3)
  from job_lines_tell_the_outcome [where base = d0, OF cl job(3) _ _ _ run lines] con job(1,2) err lines
  show ?thesis by auto
qed

section \<open>The lines of a pass\<close>

lemma reaped_lines_run:
  assumes "record_reaped clock es d = Inr d'" "\<forall>e \<in> set es. rj_image_id e \<in> i_id ` set (images d)"
  shows "\<exists>ls. run_actions (reaped_lines clock es d) c = (c, ls, False) \<and>
    map (\<lambda>(l, ctx). (l, map_of ctx ''job_id'')) ls = map (\<lambda>e. ((''WARNING'', ''reaped job: worker presumed dead'',
      [(''exhausted'', SBool (rj_exhausted e))]), Some (SInt (rj_job_id e)))) es"
  using assms
proof (induction clock es d rule: reaped_lines.induct)
  case (1 clock d)
  then show ?case by simp
next
  case (2 clock e es d)
  from 2(4) have "find_row i_id (rj_image_id e) (images d) \<noteq> None" by (simp only: find_row_None_iff not_not simp_thms) simp
  then obtain img where img: "find_row i_id (rj_image_id e) (images d) = Some img" by blast
  let ?r = "record_failure img (find_row j_id (rj_job_id e) (scan_jobs d)) (empty_metadata (clock 0) (clock 0))
      LEASE_EXPIRED_ERROR (rj_exhausted e) d"
  from 2(3) img obtain d1 k where r: "?r = Inr (d1, k)" "record_reaped (\<lambda>n. clock (Suc n)) es d1 = Inr d'"
    by (cases ?r) auto
  have "map i_id (images d1) = map i_id (images d)"
    using failure.quiet [OF r(1)] by (elim exE conjE) (simp add: map_update_rows merge_image_def)
  then have "\<forall>x \<in> set es. rj_image_id x \<in> i_id ` set (images d1)" using 2(4) by (metis list.set_intros(2) set_map)
  from 2(2) [OF img r(1) refl r(2) this] obtain ls where
    "run_actions (reaped_lines (\<lambda>n. clock (Suc n)) es d1) c = (c, ls, False)"
    "map (\<lambda>(l, ctx). (l, map_of ctx ''job_id'')) ls = map (\<lambda>e. ((''WARNING'', ''reaped job: worker presumed dead'',
      [(''exhausted'', SBool (rj_exhausted e))]), Some (SInt (rj_job_id e)))) es" by blast
  then show ?case using img r(1) by (simp add: current_bind map_of_merge)
qed

lemma enqueue_lines_run:
  "enqueue_due clock ts imgs d = Inr (d', n) \<Longrightarrow>
   \<exists>lns. run_actions (enqueue_lines clock ts imgs d) c = (c, emitted c lns, False) \<and> length lns = n \<and>
     set lns \<subseteq> (\<lambda>i. (''INFO'', ''enqueued'', [(''image'', SStr (reference i))])) ` set imgs"
proof (induction clock ts imgs d arbitrary: d' n rule: enqueue_due.induct)
  case (1 clock ts d)
  then show ?case by simp
next
  case (2 clock ts i imgs d)
  from 2(2) obtain d1 b m where e: "enqueue (i_id i) PRIORITY_SCHEDULED None (clock 0) ts d = Inr (d1, b)"
    "enqueue_due (\<lambda>n. clock (Suc n)) ts imgs d1 = Inr (d', m)" "n = (if b then Suc m else m)"
    by (auto split: sum.splits prod.splits)
  from 2(1) [OF e(1) refl e(2)] obtain lns where
    l: "run_actions (enqueue_lines (\<lambda>n. clock (Suc n)) ts imgs d1) c = (c, emitted c lns, False)" "length lns = m"
      "set lns \<subseteq> (\<lambda>i. (''INFO'', ''enqueued'', [(''image'', SStr (reference i))])) ` set imgs" by blast
  then show ?case
    using e by (intro exI [of _ "(if b then [(''INFO'', ''enqueued'', [(''image'', SStr (reference i))])] else []) @ lns"]) auto
qed

text \<open>A pass on a consistent database logs one line per job it reaps, with the id the worker's lines
  have, and one line per job it enqueues.\<close>

theorem tick_lines_account:
  assumes "consistent d" and "reap_expired_leases (max_attempts s) stmt_ts d = (d1, reaped)"
    and "tick s stmt_ts rc now ec txn_ts d = Inr (d', n)"
  shows "\<exists>ls lns. run_actions (tick_lines s stmt_ts rc now ec txn_ts d) c = (c, ls @ emitted c lns, False) \<and>
    map (\<lambda>(l, ctx). map_of ctx ''job_id'') ls = map (\<lambda>j. Some (SInt (j_id j))) (filter (expired stmt_ts) (scan_jobs d)) \<and>
    length lns = n"
proof -
  have es: "reaped = map (\<lambda>j. \<lparr>rj_job_id = j_id j, rj_image_id = j_image_id j,
     rj_exhausted = (j_status (reap_job (max_attempts s) j) = FAILED)\<rparr>) (filter (expired stmt_ts) (scan_jobs d))"
    using reap_reported [of "max_attempts s" stmt_ts d] by (simp add: assms(2))
  have "images d1 = images d" using reap.same_tables(1) [of "max_attempts s" stmt_ts d] by (simp add: assms(2))
  then have imgs: "\<forall>e \<in> set reaped. rj_image_id e \<in> i_id ` set (images d1)"
    using consistentD(4) [OF assms(1)] by (auto simp: es references_ok_def)
  from assms(2,3) obtain d2 where d2: "record_reaped rc reaped d1 = Inr d2"
    "enqueue_due ec txn_ts (due_images s now d2) d2 = Inr (d', n)"
    by (auto simp: tick_def split: sum.splits)
  from reaped_lines_run [OF d2(1) imgs, of c] obtain ls where ls: "run_actions (reaped_lines rc reaped d1) c = (c, ls, False)"
    "map (\<lambda>(l, ctx). (l, map_of ctx ''job_id'')) ls = map (\<lambda>e. ((''WARNING'', ''reaped job: worker presumed dead'',
      [(''exhausted'', SBool (rj_exhausted e))]), Some (SInt (rj_job_id e)))) reaped" by blast
  from enqueue_lines_run [OF d2(2), of c] obtain lns where lns:
    "run_actions (enqueue_lines ec txn_ts (due_images s now d2) d2) c = (c, emitted c lns, False)" "length lns = n" by blast
  have "map (\<lambda>(l, ctx). map_of ctx ''job_id'') ls = map snd (map (\<lambda>(l, ctx). (l, map_of ctx ''job_id'')) ls)"
    by (simp add: case_prod_unfold)
  also have "\<dots> = map (\<lambda>j. Some (SInt (j_id j))) (filter (expired stmt_ts) (scan_jobs d))"
    unfolding ls(2) by (simp add: es)
  finally show ?thesis
    using lns d2(1) run_actions_append [OF ls(1), of "enqueue_lines ec txn_ts (due_images s now d2) d2"]
    by (auto simp: tick_lines_def assms(2))
qed

theorem tick_lines_account_witness:
  "\<exists>ls. run_actions (tick_lines default_settings 5 (\<lambda>_. 5) 5 (\<lambda>_. 5) 5 sample_db) None = (None, ls, False)"
proof -
  obtain d1 reaped where r: "reap_expired_leases (max_attempts default_settings) 5 sample_db = (d1, reaped)"
    by (cases "reap_expired_leases (max_attempts default_settings) 5 sample_db")
  obtain d' n where t: "tick default_settings 5 (\<lambda>_. 5) 5 (\<lambda>_. 5) 5 sample_db = Inr (d', n)"
    by (rule tick_goes_through [OF sample_consistent, where stmt_ts = 5 and rc = "\<lambda>_. 5" and now = 5 and ec = "\<lambda>_. 5" and txn_ts = 5])
  from tick_lines_account [OF sample_consistent r t, of None] show ?thesis by blast
qed

end
