(* ===== verification/Ephemeral.thy ===== *)
theory Ephemeral
  imports System Requirements
begin

text \<open>
  The acceptance script with \<open>--with-db\<close> (src/scripts/verify_requirements.py): the SQL it runs on
  the live database, the image it registers for the failure path and takes away again, and the
  checks 1.6, 1.7 and 2.5. What the running stack does meanwhile is an argument, as is how the
  clock advances; docker and psql are assumed to run the statement they are given.
\<close>

section \<open>Deleting images\<close>

text \<open>DELETE FROM image: \<open>scan_job\<close>, \<open>scan_run\<close> and \<open>finding\<close> cascade; the number of images deleted.\<close>

definition delete_images :: "(image \<Rightarrow> bool) \<Rightarrow> db \<Rightarrow> db \<times> int" where
  "delete_images p d =
     (let gone = i_id ` set (filter p (images d))
      in (d\<lparr>images := filter (\<lambda>i. \<not> p i) (images d),
            scan_jobs := filter (\<lambda>j. j_image_id j \<notin> gone) (scan_jobs d),
            scan_runs := filter (\<lambda>r. r_image_id r \<notin> gone) (scan_runs d),
            findings := filter (\<lambda>f. f_image_id f \<notin> gone) (findings d)\<rparr>,
          int (length (filter p (images d)))))"

definition EPHEMERAL_TAG_PREFIX :: string where
  "EPHEMERAL_TAG_PREFIX = ''verify-ephemeral-''"

definition EPHEMERAL_IMAGE_NAME :: string where
  "EPHEMERAL_IMAGE_NAME = ''nginx''"

text \<open>\<open>tag LIKE 'verify-ephemeral-%'\<close>; the prefix holds no wildcard.\<close>

definition ephemeral :: "image \<Rightarrow> bool" where
  "ephemeral i = starts_with EPHEMERAL_TAG_PREFIX (i_tag i)"

definition drop_ephemeral_images :: "db \<Rightarrow> db \<times> int" where
  "drop_ephemeral_images = delete_images ephemeral"

section \<open>The image of the failure path\<close>

text \<open>INSERT INTO image (name, tag); a duplicate is refused, and has used up its id.\<close>

definition insert_image :: "time \<Rightarrow> string \<times> string \<Rightarrow> db \<Rightarrow> db \<times> bool" where
  "insert_image txn_ts nt d =
     (let k = next_image_id d; d' = d\<lparr>next_image_id := k + 1\<rparr>
      in if nt \<in> image_key ` set (images d) then (d', False)
         else (d'\<lparr>images := images d @ [new_image txn_ts nt k]\<rparr>, True))"

text \<open>The context manager: \<open>hex\<close> is the text of the fresh UUID, \<open>block\<close> the body of the \<open>with\<close>, which
  may raise (None); the teardown runs either way. None: the script dies.\<close>

definition ephemeral_image ::
    "string \<Rightarrow> time \<Rightarrow> (string \<times> string \<Rightarrow> db \<Rightarrow> 'a option \<times> db) \<Rightarrow> db \<Rightarrow> 'a option \<times> db" where
  "ephemeral_image hex txn_ts block d =
     (let (d1, leftover) = drop_ephemeral_images d;
          nt = (EPHEMERAL_IMAGE_NAME, EPHEMERAL_TAG_PREFIX @ take 12 hex);
          (d2, inserted) = insert_image txn_ts nt d1
      in if \<not> inserted then (None, d2)
         else (let (result, d3) = block nt d2 in (result, fst (drop_ephemeral_images d3))))"

text \<open>The row the script polls for, as psql prints it: status and start of the error of the latest run
  of an image with the tag; empty when there is none.\<close>

definition failed_row :: "string \<Rightarrow> db \<Rightarrow> string" where
  "failed_row tag d =
     (let runs = filter (\<lambda>r. \<exists>i \<in> set (images d). i_id i = r_image_id r \<and> i_tag i = tag) (scan_runs d)
      in case sort_key (\<lambda>r. - r_id r) runs of
           [] \<Rightarrow> []
         | r # _ \<Rightarrow> strip (run_status_value (r_status r) @ ''|'' @
             (case r_error r of None \<Rightarrow> [] | Some e \<Rightarrow> take 90 e)))"

text \<open>The polls until a row shows or 180 seconds are over: \<open>clock n\<close> is the time at the head of the
  n-th, \<open>stack n\<close> what the running system commits before it. None: the fuel has run out.\<close>

fun poll_failed ::
    "(nat \<Rightarrow> time) \<Rightarrow> (nat \<Rightarrow> db \<Rightarrow> db) \<Rightarrow> string \<Rightarrow> time \<Rightarrow> nat \<Rightarrow> nat \<Rightarrow> db \<Rightarrow> string option \<times> db" where
  "poll_failed clock stack tag deadline n 0 d = (None, d)"
| "poll_failed clock stack tag deadline n (Suc fuel) d =
     (let d = stack n d
      in if clock n < deadline
         then (if failed_row tag d \<noteq> [] then (Some (failed_row tag d), d)
               else poll_failed clock stack tag deadline (Suc n) fuel d)
         else (Some [], d))"

text \<open>The body of the \<open>with\<close>: ask for an urgent scan, whatever the answer, wait, and check.\<close>

definition failure_block ::
    "(nat \<Rightarrow> time) \<Rightarrow> (nat \<Rightarrow> db \<Rightarrow> db) \<Rightarrow> time \<Rightarrow> time \<Rightarrow> nat \<Rightarrow> string \<times> string \<Rightarrow> db \<Rightarrow> check list option \<times> db" where
  "failure_block clock stack now txn_ts fuel nt d =
     (let d1 = (case request_scan (fst nt) (snd nt) True now txn_ts d of Inl _ \<Rightarrow> d | Inr (d', _) \<Rightarrow> d');
          (row, d2) = poll_failed clock stack (snd nt) (now + seconds 180) 0 fuel d1
      in (case row of
            None \<Rightarrow> None
          | Some row \<Rightarrow> Some [(''1.6'', contains ''failed'' row), (''1.7'', h_status (health (Some d2)) = ''ok'')],
          d2))"

definition check_failure_path ::
    "(nat \<Rightarrow> time) \<Rightarrow> (nat \<Rightarrow> db \<Rightarrow> db) \<Rightarrow> string \<Rightarrow> time \<Rightarrow> time \<Rightarrow> nat \<Rightarrow> db \<Rightarrow> check list option \<times> db" where
  "check_failure_path clock stack hex now txn_ts fuel =
     ephemeral_image hex txn_ts (failure_block clock stack now txn_ts fuel)"

text \<open>The check of the catalogue.\<close>

definition EXPECTED_TABLES :: "string list" where
  "EXPECTED_TABLES = [''image'', ''scan_job'', ''scan_run'', ''package'', ''cve'', ''finding'']"

definition tables_check :: "string list \<Rightarrow> check" where
  "tables_check tables = (''2.5'', set EXPECTED_TABLES \<subseteq> set tables)"

text \<open>\<open>main\<close> with \<open>--with-db\<close>: the exit code and the database afterwards; \<open>up\<close> says whether the API
  answers at all. The later checks meet the database the failure path has left.\<close>

definition verify_with_db ::
    "bool \<Rightarrow> settings \<Rightarrow> (string \<Rightarrow> string) \<Rightarrow> tie_breaker \<Rightarrow> (nat \<Rightarrow> time) \<Rightarrow> (nat \<Rightarrow> db \<Rightarrow> db) \<Rightarrow> string \<Rightarrow> time \<Rightarrow> time \<Rightarrow> nat \<Rightarrow>
     string list \<Rightarrow> db \<Rightarrow> int option \<times> db" where
  "verify_with_db up s coll ties clock stack hex now txn_ts fuel tables d =
     (if \<not> up then (Some 2, d)
      else case check_scanner (api_client s coll ties d) of
        None \<Rightarrow> (None, d)
      | Some scanner \<Rightarrow>
          (let (failure, d') = check_failure_path clock stack hex now txn_ts fuel d; c = api_client s coll ties d'
           in (do {
                 failure \<leftarrow> failure;
                 schema \<leftarrow> check_schema c;
                 api \<leftarrow> check_api c;
                 Some (summary (scanner @ failure @ schema @ [tables_check tables] @ api))
               }, d')))"

section \<open>What a deletion keeps\<close>

text \<open>Taking away images that were never scanned with success leaves every finding that is shown, and
  the consistency of the database.\<close>

definition never_scanned :: "(image \<Rightarrow> bool) \<Rightarrow> db \<Rightarrow> bool" where
  "never_scanned p d \<longleftrightarrow> (\<forall>i \<in> set (images d). p i \<longrightarrow> i_current_scan_run_id i = None)"

lemma distinct_map_filter_swap: "distinct (map f (filter p xs)) \<Longrightarrow> distinct (map f (filter p (filter q xs)))"
  by (subst filter_filter, subst conj_commute, subst filter_filter [symmetric], rule distinct_map_filter)

lemma find_row_filter:
  assumes "unique_on key xs"
  shows "find_row key k (filter p xs) = (case find_row key k xs of None \<Rightarrow> None | Some r \<Rightarrow> if p r then Some r else None)"
proof (cases "find_row key k xs")
  case None
  then have "find_row key k (filter p xs) = None" by (auto simp: find_row_None_iff)
  with None show ?thesis by simp
next
  case (Some r)
  then have r: "r \<in> set xs" "key r = k" using find_row_SomeD by metis+
  show ?thesis
  proof (cases "p r")
    case True
    with r Some find_row_unique [OF distinct_map_filter [OF assms], of r p k] show ?thesis by simp
  next
    case False
    with r unique_onD [OF assms] have "find_row key k (filter p xs) = None" by (auto simp: find_row_None_iff)
    with Some False show ?thesis by simp
  qed
qed

abbreviation gone :: "(image \<Rightarrow> bool) \<Rightarrow> db \<Rightarrow> int set" where
  "gone p d \<equiv> i_id ` set (filter p (images d))"

lemma deleted_tables:
  assumes "d' = fst (delete_images p d)"
  shows "images d' = filter (\<lambda>i. \<not> p i) (images d)" "scan_jobs d' = filter (\<lambda>j. j_image_id j \<notin> gone p d) (scan_jobs d)"
    "scan_runs d' = filter (\<lambda>r. r_image_id r \<notin> gone p d) (scan_runs d)"
    "findings d' = filter (\<lambda>f. f_image_id f \<notin> gone p d) (findings d)" "packages d' = packages d" "cves d' = cves d"
    "next_image_id d' = next_image_id d" "next_job_id d' = next_job_id d" "next_run_id d' = next_run_id d"
    "next_package_id d' = next_package_id d" "next_finding_id d' = next_finding_id d"
  by (simp_all add: assms delete_images_def Let_def)

lemma not_gone:
  assumes "unique_on i_id (images d)" "i \<in> set (images d)"
  shows "i_id i \<in> gone p d \<longleftrightarrow> p i"
  using assms unique_onD [OF assms(1)] by (auto simp: image_iff)

lemma deleted_current_run:
  assumes "unique_on i_id (images d)" "never_scanned p d" "d' = fst (delete_images p d)"
  shows "current_run_of d' k = current_run_of d k" and "k \<in> gone p d \<Longrightarrow> current_run_of d k = None"
proof -
  show "current_run_of d' k = current_run_of d k"
    using assms(2) find_row_SomeD [of i_id k "images d"]
    by (auto simp: current_run_of_def deleted_tables [OF assms(3)] find_row_filter [OF assms(1)] never_scanned_def
        split: option.splits)
  show "current_run_of d k = None" if gone: "k \<in> gone p d"
  proof -
    from gone obtain i where i: "i \<in> set (images d)" "p i" "i_id i = k" by auto
    from find_row_unique [OF assms(1) i(1,3)] i assms(2) show ?thesis by (simp add: current_run_of_def never_scanned_def)
  qed
qed

lemma deleted_current:
  assumes "unique_on i_id (images d)" "never_scanned p d" "d' = fst (delete_images p d)"
  shows "current_findings d' = current_findings d"
proof -
  have "is_current d' = is_current d" by (simp add: is_current_def [abs_def] deleted_current_run(1) [OF assms])
  moreover have "f_image_id f \<notin> gone p d" if "is_current d f" for f
    using that deleted_current_run(2) [OF assms, of "f_image_id f"] unfolding is_current_def by (metis option.distinct(1))
  ultimately show ?thesis
    unfolding current_findings_def deleted_tables(4) [OF assms(3)] filter_filter by (auto intro: filter_cong)
qed

lemma deleted_keys:
  assumes "consistent d" "d' = fst (delete_images p d)"
  shows "keys_ok d'" "sequences_ok d'" "one_active_job d'" "references_ok d'" "ranks_ok d'"
proof -
  note tabs = deleted_tables [OF assms(2)] and con = consistentD [OF assms(1)]
  show "keys_ok d'" using keys_okD [OF con(1)] by (simp add: keys_ok_def tabs distinct_map_filter)
  show "sequences_ok d'" using con(2) by (simp add: sequences_ok_def tabs)
  show "one_active_job d'" using con(3) by (simp add: one_active_job_def tabs(2) distinct_map_filter_swap del: filter_filter)
  show "ranks_ok d'" using con(6) by (simp add: ranks_ok_def tabs)
  have kept: "k \<in> i_id ` set (images d')" if "k \<in> i_id ` set (images d)" "k \<notin> gone p d" for k
    using that by (auto simp: tabs(1))
  with con(4) show "references_ok d'" by (simp add: references_ok_def tabs(2-6))
qed

lemma delete_consistent:
  assumes "consistent d" "never_scanned p d" "d' = fst (delete_images p d)"
  shows "consistent d'" "image_view d' = image_view d"
proof -
  note tabs = deleted_tables [OF assms(3)] and con = consistentD [OF assms(1)]
  have uniq: "unique_on i_id (images d)" by (rule keys_okD(1) [OF con(1)])
  note cur = deleted_current [OF uniq assms(2,3)]
  have run: "success_run_of d' k r = success_run_of d k r" if "k \<notin> gone p d" for k r
    using that by (auto simp: success_run_of_def tabs(3))
  have "pointers_ok d'"
    using con(5) not_gone [OF uniq, of _ p] run by (simp add: pointers_ok_def tabs(1,4))
  moreover have "counts_ok d'"
    using con(7) by (simp add: counts_ok_def current_count_def cur tabs(1,3))
  moreover have "rollups_ok d'"
    using con(8) by (simp add: rollups_ok_def rollup_ok_for_def current_rank_def current_image_count_def findings_of_cve_def cur tabs(6))
  ultimately show "consistent d'" using deleted_keys [OF assms(1,3)] by (simp add: consistent_def)
  show "image_view d' = image_view d"
    by (simp add: image_view_def [abs_def] view_entry_of_def [abs_def] package_of_def cur tabs(5))
qed

end
