(* ===== verification/Ephemeral_Props.thy ===== *)
theory Ephemeral_Props
  imports Ephemeral Requirements_Props Worker_Props Schema_Props
begin

text \<open>
  The properties of the failure-path check: it ends, it leaves the database of the running stack
  as it found it but for ephemeral images, and what becomes of a worker whose image is taken away
  under it.
\<close>

section \<open>What the ephemeral image does not touch\<close>








section \<open>The check leaves no trace\<close>










section \<open>A worker whose image is taken away\<close>

text \<open>The teardown deletes the ephemeral image whether or not a worker is busy with it. When the rows of
  its job and its image are gone, nothing a worker tries in the end goes through, neither a
  result nor a failure nor a deferral: an error escapes the worker and the database stays as it is.\<close>

theorem finish_without_rows:
  assumes "j_id job \<notin> j_id ` set (scan_jobs d)" and "i_id (sp_image plan) \<notin> i_id ` set (images d)"
    and "j_image_id job = i_id (sp_image plan)"
  shows "\<exists>err. finish_job env s t job plan d = (d, Some err)"
proof -
  have save: "save_job loaded new d = Inl StaleDataError" if "j_id loaded = j_id job" for loaded new
    using assms(1) that by (simp add: save_job_def Let_def)
  have insert: "\<exists>err. insert_run (sp_image plan) jb st m e d = Inl err" for jb st m e
    using assms(2) by (simp add: insert_run_def Let_def)
  have none: "find_row j_id (j_id job) (scan_jobs d) = None" using assms(1) by (simp only: find_row_None_iff not_False_eq_True)
  have failure: "\<exists>err. record_job_failure s b job img e p t d = Inl err" if "b \<or> img = Some (sp_image plan)" for b img e p
  proof (cases b)
    case True
    with none show ?thesis by (simp add: record_job_failure_def rolled_back_job_def)
  next
    case False
    obtain err where "insert_run (sp_image plan) (Some job) RUN_FAILED (empty_metadata (t_fail_started t) (t_fail_completed t))
        (Some (take 4000 (error_message e))) d = Inl err" using insert by blast
    with False that show ?thesis by (simp add: record_job_failure_def rolled_back_job_def record_failure_def Let_def)
  qed
  have "\<exists>err. defer_for_backpressure b job e t d = Inl err" for b e
    using none save by (auto simp: defer_for_backpressure_def rolled_back_job_def split: option.split)
  with failure have handle: "\<exists>err. handle_error s b job img e t d = Inl err" if "b \<or> img = Some (sp_image plan)" for b img e
    using that by (simp add: handle_error_def)
  have "\<exists>err. write_result plan job t result d = Inl err" for result
  proof (cases result)
    case (Unchanged digest)
    obtain err where "insert_run (sp_image plan) (Some job) SKIPPED (plan_meta plan digest (t_completed t)) None d = Inl err"
      using insert by blast
    with Unchanged show ?thesis by (simp add: write_result_def record_skip_def)
  next
    case (Scanned digest report)
    obtain err where "insert_run (sp_image plan) (Some job) SUCCESS
        (plan_meta plan (str_or (pr_digest report) digest) (t_completed t)) None d = Inl err" using insert by blast
    with Scanned show ?thesis by (simp add: write_result_def record_success_def)
  qed
  then have wr: "write_result plan job t result d \<noteq> Inr x" for result x by (metis sum.distinct(1))
  obtain err1 err2 where e: "perform env s t plan = Inl e \<Longrightarrow> handle_error s False job (Some (sp_image plan)) e t d = Inl (err1 e)"
    "handle_error s True job None e t d = Inl (err2 e)" for e
    using handle [of False "Some (sp_image plan)"] handle [of True None] by metis
  show ?thesis
    using wr e by (auto simp: finish_job_def commit_def split: sum.split)
qed

theorem finish_without_rows_witness:
  "\<exists>err. finish_job (empty_world (constant_registry throttled throttled)) default_settings zero_times running_job sample_plan empty_db
     = (empty_db, Some err)"
  by (rule finish_without_rows) (simp_all add: running_defs sample_plan_def)

section \<open>The tables are there\<close>

text \<open>After the migration the catalogue has the tables check 2.5 expects.\<close>

lemma migrated_tables_expected:
  "\<exists>s. run_migration upgrade empty_schema = Some s \<and> tables_check (map tb_name (sc_tables s)) = (''2.5'', True)"
proof -
  let ?s = "the (run_migration upgrade empty_schema)"
  have "run_migration upgrade empty_schema = Some ?s" by code_simp
  moreover have "tables_check (map tb_name (sc_tables ?s)) = (''2.5'', True)" by code_simp
  ultimately show ?thesis by blast
qed

end
