(* ===== verification/Migration_Env.thy ===== *)
theory Migration_Env
  imports Schema_Props Config
begin

text \<open>
  The Alembic environment (src/app/db/migrations/env.py): the DSN of the settings goes through an
  option of the ini file, which is a \<open>configparser\<close> with its interpolation of percent signs, and
  the migrations run in a transaction on the database that comes out. Alembic's own part is
  only that it reads the option back and runs the operations (theory Schema).
\<close>

section \<open>Options with interpolation\<close>

text \<open>Setting an option (\<open>BasicInterpolation.before_set\<close>): once doubled percent signs and references
  \<open>%(name)s\<close> are taken out, no percent sign may be left, or it is a ValueError (None).\<close>

fun drop_doubled :: "string \<Rightarrow> string" where
  "drop_doubled (a # b # s) = (if a = CHR ''%'' \<and> b = CHR ''%'' then drop_doubled s else a # drop_doubled (b # s))"
| "drop_doubled s = s"

text \<open>The name and the rest when \<open>s\<close>, which follows \<open>%(\<close>, closes a reference.\<close>

definition split_reference :: "string \<Rightarrow> (string \<times> string) option" where
  "split_reference s =
     (let name = takeWhile (\<lambda>c. c \<noteq> CHR '')'') s; rest = dropWhile (\<lambda>c. c \<noteq> CHR '')'') s
      in if name \<noteq> [] \<and> take 2 rest = '')s'' then Some (name, drop 2 rest) else None)"

lemma split_reference_shorter:
  assumes "split_reference s = Some (name, rest)"
  shows "length rest < length s"
proof -
  let ?t = "takeWhile (\<lambda>c. c \<noteq> CHR '')'') s" and ?r = "dropWhile (\<lambda>c. c \<noteq> CHR '')'') s"
  have "?t \<noteq> []" "rest = drop 2 ?r"
    using assms by (simp_all only: split_reference_def Let_def split: if_splits) auto
  then have "0 < length ?t" "length rest \<le> length ?r" by (simp_all only: length_greater_0_conv length_drop diff_le_self simp_thms)
  moreover have "length s = length ?t + length ?r" by (simp only: length_append [symmetric] takeWhile_dropWhile_id)
  ultimately show ?thesis by linarith
qed

lemma split_reference_bounds [termination_simp]:
  assumes "split_reference s = Some (name, rest)"
  shows "length rest < Suc (length s)" "length rest < Suc (Suc (length s))"
  using split_reference_shorter [OF assms] by simp_all

fun drop_references :: "string \<Rightarrow> string" where
  "drop_references (c # a # s) =
     (if c = CHR ''%'' \<and> a = CHR ''('' then
        (case split_reference s of
           None \<Rightarrow> c # drop_references (a # s)
         | Some (name, rest) \<Rightarrow> drop_references rest)
      else c # drop_references (a # s))"
| "drop_references s = s"

definition set_option :: "string \<Rightarrow> string option" where
  "set_option v = (if CHR ''%'' \<in> set (drop_references (drop_doubled v)) then None else Some v)"

text \<open>Reading it (\<open>before_get\<close>): \<open>%%\<close> is a percent sign, a reference the value of another option,
  \<open>lookup\<close>, itself interpolated down to a depth; anything else is an error (None).\<close>

fun interpolate :: "(string \<Rightarrow> string option) \<Rightarrow> nat \<Rightarrow> string \<Rightarrow> string option" where
  "interpolate lookup depth [] = Some []"
| "interpolate lookup depth (c # s) =
     (if c \<noteq> CHR ''%'' then map_option ((#) c) (interpolate lookup depth s)
      else case s of
        [] \<Rightarrow> None
      | a # s' \<Rightarrow>
          if a = CHR ''%'' then map_option ((#) a) (interpolate lookup depth s')
          else if a = CHR ''('' then
            (case split_reference s' of
               None \<Rightarrow> None
             | Some (name, rest) \<Rightarrow>
                 (case lookup name of
                    None \<Rightarrow> None
                  | Some v \<Rightarrow>
                      (case (if CHR ''%'' \<in> set v
                             then (case depth of 0 \<Rightarrow> None | Suc n \<Rightarrow> interpolate lookup n v) else Some v) of
                         None \<Rightarrow> None
                       | Some w \<Rightarrow> map_option ((@) w) (interpolate lookup depth rest))))
          else None)"

definition MAX_INTERPOLATION_DEPTH :: nat where
  "MAX_INTERPOLATION_DEPTH = 10"

section \<open>The environment\<close>

text \<open>The URL the migrations use, offline and online: \<open>sync_dsn\<close> set as an option and read back.\<close>

definition migration_url :: "(string \<Rightarrow> string option) \<Rightarrow> settings \<Rightarrow> string option" where
  "migration_url lookup s =
     (case set_option (sync_dsn s) of
        None \<Rightarrow> None
      | Some v \<Rightarrow> interpolate lookup (MAX_INTERPOLATION_DEPTH - 1) v)"

text \<open>Online: connect to the URL and run the operations in one transaction; a refused operation rolls
  all of them back. \<open>server\<close> is the schema behind each URL. None: the environment does not load.\<close>

definition run_migrations_online ::
    "(string \<Rightarrow> string option) \<Rightarrow> settings \<Rightarrow> migration_op list \<Rightarrow> (string \<Rightarrow> schema) \<Rightarrow> (string \<Rightarrow> schema) option" where
  "run_migrations_online lookup s ops server =
     (case migration_url lookup s of
        None \<Rightarrow> None
      | Some url \<Rightarrow> Some (server(url := (case run_migration ops (server url) of None \<Rightarrow> server url | Some sc \<Rightarrow> sc))))"

section \<open>Which database is migrated\<close>

lemma drop_doubled_plain: "CHR ''%'' \<notin> set v \<Longrightarrow> drop_doubled v = v"
  by (induction v rule: drop_doubled.induct) auto

lemma drop_references_plain: "CHR ''%'' \<notin> set v \<Longrightarrow> drop_references v = v"
  by (induction v rule: drop_references.induct) auto

lemma interpolate_plain: "CHR ''%'' \<notin> set v \<Longrightarrow> interpolate lookup n v = Some v"
  by (induction v) auto

lemma drop_doubled_lone:
  "CHR ''%'' \<notin> set a \<Longrightarrow> c \<noteq> CHR ''%'' \<Longrightarrow>
   drop_doubled (a @ CHR ''%'' # c # b) = a @ CHR ''%'' # drop_doubled (c # b)"
proof (induction a)
  case (Cons x a)
  obtain y ys where "a @ CHR ''%'' # c # b = y # ys" by (cases "a @ CHR ''%'' # c # b") auto
  with Cons show ?case by (auto split: if_splits)
qed simp

lemma drop_doubled_hd: "c \<noteq> CHR ''%'' \<Longrightarrow> \<exists>r. drop_doubled (c # b) = c # r"
  by (cases b) auto

lemma drop_references_lone:
  "CHR ''%'' \<notin> set a \<Longrightarrow> c \<noteq> CHR ''('' \<Longrightarrow> CHR ''%'' \<in> set (drop_references (a @ CHR ''%'' # c # b))"
proof (induction a)
  case Nil
  then show ?case by simp
next
  case (Cons x a)
  obtain y ys where "a @ CHR ''%'' # c # b = y # ys" by (cases "a @ CHR ''%'' # c # b") auto
  with Cons show ?case by auto
qed

text \<open>The migrations and the services meet. When no percent sign occurs in the DSN, the migrations run
  on the database the services connect to, on it alone, and build there what the models declare.\<close>

theorem migrates_the_services_database:
  assumes "CHR ''%'' \<notin> set (sync_dsn s)" and "server (sync_dsn s) = empty_schema"
  shows "migration_url lookup s = Some (sync_dsn s) \<and>
    (\<exists>sc. run_migrations_online lookup s upgrade server = Some (server(sync_dsn s := sc)) \<and>
       mset (sc_tables sc) = mset (sc_tables models_schema))"
proof -
  have url: "migration_url lookup s = Some (sync_dsn s)"
    using assms(1) by (simp add: migration_url_def set_option_def drop_doubled_plain drop_references_plain interpolate_plain)
  have "\<exists>sc. run_migration upgrade empty_schema = Some sc" by (rule exI [of _ "the (run_migration upgrade empty_schema)"]) code_simp
  then obtain sc where sc: "run_migration upgrade empty_schema = Some sc" by blast
  have "mset (sc_tables (the (run_migration upgrade empty_schema))) = mset (sc_tables models_schema)" by code_simp
  with sc url assms(2) show ?thesis by (auto simp: run_migrations_online_def)
qed

theorem migrates_the_services_database_witness:
  "migration_url (\<lambda>_. None) default_settings = Some (sync_dsn default_settings)"
proof -
  have "CHR ''%'' \<notin> set (sync_dsn default_settings)" by code_simp
  from migrates_the_services_database [OF this, of "\<lambda>_. empty_schema"] show ?thesis by simp
qed

text \<open>A percent sign in the DSN (a password in the form a URL needs, such as \<open>p%40ss\<close>) stops the
  migrations before they connect, although the services themselves accept it.\<close>

theorem quoted_password_stops_migrations:
  assumes "sync_dsn s = a @ CHR ''%'' # c # b" and "CHR ''%'' \<notin> set a" and "c \<noteq> CHR ''%''" "c \<noteq> CHR ''(''"
  shows "run_migrations_online lookup s ops server = None"
proof -
  obtain r where r: "drop_doubled (c # b) = c # r" using drop_doubled_hd [OF assms(3)] by blast
  have "CHR ''%'' \<in> set (drop_references (drop_doubled (sync_dsn s)))"
    unfolding assms(1) drop_doubled_lone [OF assms(2,3)] r by (rule drop_references_lone [OF assms(2,4)])
  then show ?thesis by (simp add: run_migrations_online_def migration_url_def set_option_def)
qed

theorem quoted_password_stops_migrations_witness:
  "run_migrations_online (\<lambda>_. None) (default_settings\<lparr>postgres_password := ''p%40ss''\<rparr>) upgrade (\<lambda>_. empty_schema) = None"
proof -
  have "sync_dsn (default_settings\<lparr>postgres_password := ''p%40ss''\<rparr>)
      = ''postgresql+psycopg://scanner:p'' @ CHR ''%'' # CHR ''4'' # ''0ss@postgres:5432/scanner''"
    by code_simp
  from quoted_password_stops_migrations [OF this] show ?thesis by simp
qed

end
