(* ===== verification/Lease_Timing.thy ===== *)
theory Lease_Timing
  imports Worker_Props
begin

text \<open>
  How long a job may take against how long its lease lasts (the lease_seconds validator of
  src/app/config.py and the job of src/app/scanner/worker.py). The time of a job is spent
  in what it waits for: the version probe, the requests to the registry and the scan.
  \<open>job_calls\<close> lists them in order, with the timeout each process is given; that the list is
  complete is \<open>calls_decide_job\<close>: two worlds that answer the calls of the list alike give the
  job the same plan and the same outcome.
\<close>

section \<open>The calls of a job\<close>

datatype registry_call =
    Head_call string "(string \<times> string) list"
  | Get_call string "(string \<times> string) list" "(string \<times> string) list"

datatype job_call =
    Registry registry_call
  | Process "string list" int

text \<open>The requests of \<open>_fetch_token\<close>.\<close>

definition token_calls :: "(string \<times> string) list \<Rightarrow> registry_call list" where
  "token_calls challenge =
     (case map_of challenge ''realm'' of
        None \<Rightarrow> []
      | Some realm \<Rightarrow>
          if realm = [] then []
          else [Get_call realm []
                 (filter (\<lambda>(k, v). (k = ''service'' \<or> k = ''scope'') \<and> v \<noteq> []) challenge)])"

text \<open>The fall-back GET, after a HEAD that answered 200 without a digest.\<close>

definition read_calls :: "string \<Rightarrow> (string \<times> string) list \<Rightarrow> http_response \<Rightarrow> registry_call list" where
  "read_calls url hdrs response =
     (if status_code response = 200 \<and> str_or (get_header ''Docker-Content-Digest'' response) [] = []
      then [Get_call url hdrs []] else [])"

text \<open>The requests of \<open>resolve_digest\<close>.\<close>

definition resolve_calls ::
    "stdlib \<Rightarrow> time \<Rightarrow> http_client \<Rightarrow> image_reference \<Rightarrow> registry_call list" where
  "resolve_calls lib now client ref =
     (let url = manifest_url ref;
          hdrs = [(''Accept'', MANIFEST_ACCEPT)]
      in Head_call url hdrs #
         (case client_head client url hdrs of
            Inl _ \<Rightarrow> []
          | Inr response \<Rightarrow>
              if status_code response = 401 then
                (let challenge = parse_challenge (case get_header ''WWW-Authenticate'' response of
                                                    None \<Rightarrow> [] | Some h \<Rightarrow> h)
                 in token_calls challenge @
                    (case fetch_token lib now client challenge of
                       Inl _ \<Rightarrow> []
                     | Inr token \<Rightarrow>
                         if truthy token then
                           (let hdrs' = hdrs @ [(''Authorization'', ''Bearer '' @ py_str lib token)]
                            in Head_call url hdrs' #
                               (case client_head client url hdrs' of
                                  Inl _ \<Rightarrow> []
                                | Inr response' \<Rightarrow> read_calls url hdrs' response'))
                         else read_calls url hdrs response))
              else read_calls url hdrs response))"

text \<open>The calls of \<open>_execute\<close> after its first commit, and those of the whole job.\<close>

definition perform_calls :: "scan_env \<Rightarrow> settings \<Rightarrow> worker_times \<Rightarrow> scan_plan \<Rightarrow> job_call list" where
  "perform_calls env s t plan =
     (let img = sp_image plan;
          ref = parse_reference (i_name img) (i_tag img)
      in map Registry (resolve_calls (env_lib env) (t_http t) (env_http env) ref) @
         (case resolve_digest (env_lib env) (t_http t) (env_http env) ref of
            Inl _ \<Rightarrow> []
          | Inr digest \<Rightarrow>
              if is_unchanged (sp_previous plan) digest (sp_trivy_version plan) (sp_db_version plan) (sp_flags_hash plan)
              then []
              else [Process (build_argv (reference img) s) (trivy_timeout_seconds s)]))"

definition probe_call :: "settings \<Rightarrow> job_call" where
  "probe_call s = Process [trivy_bin s, ''--version'', ''--format'', ''json''] 60"

definition job_calls :: "scan_env \<Rightarrow> settings \<Rightarrow> worker_times \<Rightarrow> scan_job \<Rightarrow> db \<Rightarrow> job_call list" where
  "job_calls env s t job d =
     (if find_row i_id (j_image_id job) (images d) = None then []
      else probe_call s #
        (case prepare env s t job d of
           Inr (Some plan) \<Rightarrow> perform_calls env s t plan
         | _ \<Rightarrow> []))"

section \<open>The list is complete\<close>

fun same_answer :: "scan_env \<Rightarrow> scan_env \<Rightarrow> job_call \<Rightarrow> bool" where
  "same_answer e e' (Registry (Head_call u h)) \<longleftrightarrow> client_head (env_http e) u h = client_head (env_http e') u h"
| "same_answer e e' (Registry (Get_call u h p)) \<longleftrightarrow> client_get (env_http e) u h p = client_get (env_http e') u h p"
| "same_answer e e' (Process argv n) \<longleftrightarrow> env_spawn e argv n = env_spawn e' argv n"

lemma token_calls_decide:
  "list_all (same_answer e e') (map Registry (token_calls ch)) \<Longrightarrow>
   fetch_token lib now (env_http e) ch = fetch_token lib now (env_http e') ch"
  by (auto simp: token_calls_def fetch_token_def Let_def split: option.splits if_splits)

lemma read_calls_decide:
  "list_all (same_answer e e') (map Registry (read_calls u h r)) \<Longrightarrow>
   read_digest lib now (env_http e) ref u h r = read_digest lib now (env_http e') ref u h r"
  by (auto simp: read_calls_def read_digest_def Let_def split: if_splits)

lemma resolve_calls_decide:
  assumes "list_all (same_answer e e') (map Registry (resolve_calls lib now (env_http e) ref))"
  shows "resolve_digest lib now (env_http e) ref = resolve_digest lib now (env_http e') ref"
proof -
  have "resolve_digest_body lib now (env_http e) ref = resolve_digest_body lib now (env_http e') ref"
    using assms token_calls_decide [of e e' _ lib now] read_calls_decide [of e e' _ _ _ lib now ref]
    by (auto simp: resolve_calls_def resolve_digest_body_def Let_def split: sum.splits if_splits)
  then show ?thesis by (simp add: resolve_digest_def)
qed

lemma perform_calls_decide:
  assumes "list_all (same_answer e e') (perform_calls e s t plan)" and "env_lib e = env_lib e'"
  shows "perform e s t plan = perform e' s t plan"
  using assms resolve_calls_decide [of e e' "env_lib e'" "t_http t"]
  by (auto simp: perform_calls_def perform_def run_scan_def run_process_def Let_def split: sum.splits if_splits)

theorem calls_decide_job:
  assumes "list_all (same_answer e e') (job_calls e s t job d)"
    and "env_lib e = env_lib e'" and "env_fs e = env_fs e'"
  shows "prepare e s t job d = prepare e' s t job d \<and>
    (\<forall>plan. prepare e s t job d = Inr (Some plan) \<longrightarrow> perform e s t plan = perform e' s t plan)"
proof (cases "find_row i_id (j_image_id job) (images d)")
  case None
  then show ?thesis by (simp add: prepare_def)
next
  case (Some img)
  have p: "probe_versions (env_lib e) (env_spawn e) (env_fs e) s = probe_versions (env_lib e') (env_spawn e') (env_fs e') s"
    using assms Some by (simp add: job_calls_def probe_call_def probe_versions_def run_process_def)
  have "prepare e s t job d = prepare e' s t job d"
    unfolding prepare_def p unfolding assms(2) ..
  then show ?thesis
    using assms Some perform_calls_decide [of e e' s t] by (auto simp: job_calls_def)
qed

section \<open>How many there are, and where the token goes\<close>

lemma resolve_calls_length: "length (resolve_calls lib now c ref) \<le> 4"
  by (simp add: resolve_calls_def read_calls_def token_calls_def Let_def split: sum.split option.split)

fun authorized :: "registry_call \<Rightarrow> bool" where
  "authorized (Head_call u h) = (''Authorization'' \<in> fst ` set h)"
| "authorized (Get_call u h p) = (''Authorization'' \<in> fst ` set h)"

fun call_url :: "registry_call \<Rightarrow> string" where
  "call_url (Head_call u h) = u"
| "call_url (Get_call u h p) = u"

text \<open>The bearer token is shown to the manifest endpoint of the reference's own host only, never to
  the realm a challenge names.\<close>

lemma token_stays_home:
  "call \<in> set (resolve_calls lib now c ref) \<Longrightarrow> authorized call \<Longrightarrow> call_url call = manifest_url ref"
  by (auto simp: resolve_calls_def read_calls_def token_calls_def Let_def
      split: sum.splits if_splits option.splits)

section \<open>How long a job takes\<close>

text \<open>A world in which a process is killed when its timeout is over, and a request to the registry
  takes at most \<open>r\<close> seconds. (The timeout httpx is given bounds each wait on the socket, not the
  request, so the second bound is one of the network.)\<close>

definition timely :: "(job_call \<Rightarrow> time) \<Rightarrow> int \<Rightarrow> bool" where
  "timely cost r \<longleftrightarrow> (\<forall>argv n. cost (Process argv n) \<le> seconds n) \<and> (\<forall>c. cost (Registry c) \<le> seconds r)"

lemma seconds_add: "seconds (m + n) = seconds m + seconds n"
  by (simp add: seconds_def algebra_simps)

lemma seconds_nonneg [simp]: "0 \<le> seconds n \<longleftrightarrow> 0 \<le> n"
  by (simp add: seconds_def)

lemma registry_calls_cost:
  "timely cost r \<Longrightarrow> sum_list (map cost (map Registry cs)) \<le> int (length cs) * seconds r"
  by (induction cs) (auto simp: timely_def algebra_simps add_mono)

lemma job_calls_cost:
  assumes "timely cost r" and "0 \<le> r" and "0 \<le> trivy_timeout_seconds s"
  shows "sum_list (map cost (job_calls env s t job d)) \<le> seconds (60 + trivy_timeout_seconds s + 4 * r)"
proof -
  let ?T = "trivy_timeout_seconds s"
  have probe: "cost (probe_call s) \<le> seconds 60" using assms(1) by (simp add: timely_def probe_call_def)
  have scan: "cost (Process (build_argv (reference img) s) ?T) \<le> seconds ?T" for img
    using assms(1) by (simp add: timely_def)
  have four: "seconds (4 * r) = 4 * seconds r" by (simp add: seconds_def)
  have reg: "sum_list (map cost (map Registry (resolve_calls lib now c ref))) \<le> seconds (4 * r)" for lib now c ref
  proof -
    have "int (length (resolve_calls lib now c ref)) * seconds r \<le> 4 * seconds r"
      using resolve_calls_length [of lib now c ref] assms(2) by (intro mult_right_mono) simp_all
    with registry_calls_cost [OF assms(1), of "resolve_calls lib now c ref"] show ?thesis
      unfolding four by linarith
  qed
  have perform: "sum_list (map cost (perform_calls env s t plan)) \<le> seconds ?T + seconds (4 * r)" for plan
  proof -
    let ?ref = "parse_reference (i_name (sp_image plan)) (i_tag (sp_image plan))"
    note reg [of "env_lib env" "t_http t" "env_http env" ?ref]
    moreover have "sum_list (map cost (case resolve_digest (env_lib env) (t_http t) (env_http env) ?ref of
          Inl _ \<Rightarrow> []
        | Inr digest \<Rightarrow>
            if is_unchanged (sp_previous plan) digest (sp_trivy_version plan) (sp_db_version plan) (sp_flags_hash plan)
            then [] else [Process (build_argv (reference (sp_image plan)) s) ?T])) \<le> seconds ?T"
      using assms(3) scan [of "sp_image plan"] by (simp split: sum.split)
    ultimately show ?thesis by (simp add: perform_calls_def Let_def)
  qed
  have pos: "0 \<le> seconds 60" "0 \<le> seconds ?T + seconds (4 * r)" using assms by (simp_all add: four)
  have "sum_list (map cost (case prepare env s t job d of Inr (Some plan) \<Rightarrow> perform_calls env s t plan | _ \<Rightarrow> []))
      \<le> seconds ?T + seconds (4 * r)"
    using perform pos(2) by (simp split: sum.split option.split)
  with probe have "cost (probe_call s) + sum_list (map cost (case prepare env s t job d of
      Inr (Some plan) \<Rightarrow> perform_calls env s t plan | _ \<Rightarrow> [])) \<le> seconds 60 + (seconds ?T + seconds (4 * r))"
    by (rule add_mono)
  moreover have "0 \<le> seconds 60 + (seconds ?T + seconds (4 * r))" using pos by (rule add_nonneg_nonneg)
  moreover have "seconds (60 + ?T + 4 * r) = seconds 60 + (seconds ?T + seconds (4 * r))" by (simp add: seconds_add)
  ultimately show ?thesis by (simp add: job_calls_def)
qed

text \<open>C27. How long a lease has to be. A job makes one probe (60 s at most), at most four requests
  to the registry and at most one scan (its timeout at most). When \<open>lease_seconds\<close> covers them,
  and \<open>rest\<close> seconds more for the database and for the difference between the clock of the worker,
  which dates the lease, and that of PostgreSQL, which checks it, no reaping of the scheduler
  finds the job expired while its worker is at it.\<close>

theorem lease_outlives_job:
  assumes "claim locked stmt_ts now (lease_seconds s) d = (d', Some job)"
    and "timely cost r" and "0 \<le> r" and "0 \<le> trivy_timeout_seconds s"
    and "60 + trivy_timeout_seconds s + 4 * r + rest \<le> lease_seconds s"
    and "ts \<le> now + sum_list (map cost (job_calls env s t job x)) + seconds rest"
    and "consistent y" and "job \<in> set (scan_jobs y)"
  shows "job \<in> set (scan_jobs (fst (reap_expired_leases m ts y))) \<and>
    j_id job \<notin> rj_job_id ` set (snd (reap_expired_leases m ts y))"
proof -
  have "seconds (60 + trivy_timeout_seconds s + 4 * r) + seconds rest \<le> seconds (lease_seconds s)"
    unfolding seconds_add [symmetric] seconds_mono using assms(5) by simp
  with assms(6) job_calls_cost [OF assms(2-4), of env t job x] have "ts \<le> now + seconds (lease_seconds s)"
    by linarith
  moreover have "j_lease_until job = Some (now + seconds (lease_seconds s))"
    using assms(1) by (auto simp: claim_def Let_def split: option.splits)
  ultimately have "\<not> expired ts job" by (simp add: expired_def)
  moreover from this have "j_id e \<noteq> j_id job" if "e \<in> set (scan_jobs y)" "expired ts e" for e
    using that unique_onD [OF keys_okD(3) [OF consistentD(1) [OF assms(7)]] that(1) assms(8)] by blast
  ultimately have "job \<in> set (scan_jobs (fst (reap_expired_leases m ts y)))"
    "\<forall>e \<in> set (filter (expired ts) (scan_jobs y)). j_id e \<noteq> j_id job"
    using assms(8) by (simp_all add: reap_expired_leases_def kept_by_update)
  then show ?thesis by (force simp: reap_expired_leases_def)
qed

text \<open>The slowest world that is timely with requests of 30 seconds.\<close>

fun slow_call :: "job_call \<Rightarrow> time" where
  "slow_call (Process argv n) = seconds n"
| "slow_call (Registry c) = seconds 30"

lemma slow_timely: "timely slow_call 30"
  by (simp add: timely_def)

definition first_claim :: "int \<Rightarrow> db" where
  "first_claim lease = fst (claim [2] 0 0 lease sample_db)"

definition leased_job :: "int \<Rightarrow> scan_job" where
  "leased_job lease = sample_job\<lparr>j_status := RUNNING, j_lease_until := Some (seconds lease)\<rparr>"

lemma first_claim_eq: "claim [2] 0 0 lease sample_db = (first_claim lease, Some (leased_job lease))"
  by (simp add: first_claim_def leased_job_def claim_def next_claimable_def claimable_def Let_def
      merge_job_def pick_def sample_defs)

text \<open>A probe, one request and a scan.\<close>

definition slow_world :: scan_env where
  "slow_world = empty_world (constant_registry healthy healthy)"

definition tight_settings :: settings where
  "tight_settings = default_settings\<lparr>lease_seconds := 901\<rparr>"

lemma slow_job:
  "sum_list (map slow_call (job_calls slow_world default_settings zero_times (leased_job 1200) (first_claim 1200))) = seconds 990"
  "sum_list (map slow_call (job_calls slow_world tight_settings zero_times (leased_job 901) (first_claim 901))) = seconds 990"
  by code_simp+

text \<open>The default settings leave 120 seconds to spare with requests of 30 seconds.\<close>

theorem lease_outlives_job_witness:
  "leased_job 1200 \<in> set (scan_jobs (fst (reap_expired_leases 5 (seconds 1110) (first_claim 1200))))"
proof -
  have c: "claim [2] 0 0 (lease_seconds default_settings) sample_db = (first_claim 1200, Some (leased_job 1200))"
    using first_claim_eq [of 1200] by (simp add: default_settings_def)
  have con: "consistent (first_claim 1200)"
    using clm.keeps_consistent [OF sample_consistent, of "[2]" 0 0 1200] by (simp add: first_claim_def)
  have mem: "leased_job 1200 \<in> set (scan_jobs (first_claim 1200))" by code_simp
  have cover: "0 \<le> trivy_timeout_seconds default_settings"
    "60 + trivy_timeout_seconds default_settings + 4 * 30 + 120 \<le> lease_seconds default_settings"
    by (simp_all add: default_settings_def)
  have "seconds 1110 \<le> 0 + sum_list (map slow_call (job_calls slow_world default_settings zero_times
      (leased_job 1200) (first_claim 1200))) + seconds 120"
    unfolding slow_job by (simp add: seconds_def)
  from lease_outlives_job [OF c slow_timely _ cover this con mem] show ?thesis by simp
qed

text \<open>The validator asks for less: a lease longer than the timeout of the scan alone. With a lease of
  901 seconds, which it accepts, a probe, a request and a scan that all stay within their timeouts
  take 990, and a scheduler pass and a claim in between hand the job to a second worker.\<close>

theorem validated_lease_may_expire:
  "lease_outlives_a_scan tight_settings = Inr tight_settings \<and>
   claim [2] 0 0 (lease_seconds tight_settings) sample_db = (first_claim 901, Some (leased_job 901)) \<and>
   seconds 902 < sum_list (map slow_call (job_calls slow_world tight_settings zero_times (leased_job 901) (first_claim 901))) \<and>
   map_option j_id (snd (claim [2] (seconds 902) (seconds 902) (lease_seconds tight_settings)
     (fst (reap_expired_leases (max_attempts tight_settings) (seconds 902) (first_claim 901))))) = Some (j_id (leased_job 901))"
proof (intro conjI)
  show "lease_outlives_a_scan tight_settings = Inr tight_settings"
    by (simp add: lease_validator_iff tight_settings_def default_settings_def)
  show "claim [2] 0 0 (lease_seconds tight_settings) sample_db = (first_claim 901, Some (leased_job 901))"
    using first_claim_eq [of 901] by (simp add: tight_settings_def)
  show "seconds 902 < sum_list (map slow_call (job_calls slow_world tight_settings zero_times (leased_job 901) (first_claim 901)))"
    unfolding slow_job by (simp add: seconds_def)
  show "map_option j_id (snd (claim [2] (seconds 902) (seconds 902) (lease_seconds tight_settings)
     (fst (reap_expired_leases (max_attempts tight_settings) (seconds 902) (first_claim 901))))) = Some (j_id (leased_job 901))"
    by code_simp
qed

end
