(* ===== verification/Process_Runs.thy ===== *)
theory Process_Runs
  imports System_Props
begin

text \<open>
  The processes of the system as they run: the main loop of a worker
  (src/app/scanner/worker.py) and of the scheduler (src/app/scheduler/scheduler.py) among the
  others. What the others do between two transactions of the process is an environment move:
  any run of system steps that leaves the worker's own phase alone. A run of the process with
  its environment is a run of the system, and computes what the sequential model of its loop
  computes.
\<close>

section \<open>The rounds of a worker among others\<close>

text \<open>A move of the others that does \<open>f\<close> to the database.\<close>

definition env_moves :: "settings \<Rightarrow> int \<Rightarrow> (db \<Rightarrow> db) \<Rightarrow> system \<Rightarrow> system \<Rightarrow> bool" where
  "env_moves s w f st st' \<longleftrightarrow>
     (sys_step s)\<^sup>*\<^sup>* st st' \<and> sys_phase st' w = sys_phase st w \<and> sys_db st' = f (sys_db st)"

definition with_phase :: "system \<Rightarrow> int \<Rightarrow> db \<Rightarrow> phase \<Rightarrow> system" where
  "with_phase st w d ph = st\<lparr>sys_db := d, sys_phase := (sys_phase st)(w := ph)\<rparr>"

text \<open>The claim of a round.\<close>

abbreviation round_claim :: "settings \<Rightarrow> worker_round \<Rightarrow> db \<Rightarrow> db \<times> scan_job option" where
  "round_claim s r d \<equiv> claim (wr_locked r) (t_stmt (wr_times r)) (t_claim (wr_times r)) (lease_seconds s) d"

text \<open>One round: nothing to do (or no database), a job that ends before its scan, or the three
  transactions of a job with the moves of the others after the claim and during the scan.\<close>

inductive round_run :: "settings \<Rightarrow> int \<Rightarrow> worker_round \<Rightarrow> system \<Rightarrow> system \<Rightarrow> bool" for s w r where
  down: "wr_down r \<Longrightarrow> round_run s w r st st"
| no_job: "\<not> wr_down r \<Longrightarrow> round_claim s r (sys_db st) = (d0, None) \<Longrightarrow> round_run s w r st st"
| unprepared: "\<not> wr_down r \<Longrightarrow> round_claim s r (sys_db st) = (d0, Some job) \<Longrightarrow>
    env_moves s w (wr_after_claim r) (with_phase st w d0 (Claimed job)) st1 \<Longrightarrow>
    \<nexists>plan. prepare (wr_env r) s (wr_times r) job (sys_db st1) = Inr (Some plan) \<Longrightarrow>
    execute (wr_env r) s (wr_times r) id job (sys_db st1) = (d', err) \<Longrightarrow>
    round_run s w r st (with_phase st1 w d' Idle)"
| scanned: "\<not> wr_down r \<Longrightarrow> round_claim s r (sys_db st) = (d0, Some job) \<Longrightarrow>
    env_moves s w (wr_after_claim r) (with_phase st w d0 (Claimed job)) st1 \<Longrightarrow>
    prepare (wr_env r) s (wr_times r) job (sys_db st1) = Inr (Some plan) \<Longrightarrow>
    env_moves s w (wr_between r) (with_phase st1 w (sys_db st1) (Scanning job plan)) st2 \<Longrightarrow>
    finish_job (wr_env r) s (wr_times r) job plan (sys_db st2) = (d', err) \<Longrightarrow>
    round_run s w r st (with_phase st2 w d' Idle)"

inductive process_run :: "settings \<Rightarrow> int \<Rightarrow> worker_round list \<Rightarrow> system \<Rightarrow> system \<Rightarrow> bool" for s w where
  over: "process_run s w [] st st"
| more: "round_run s w r st st1 \<Longrightarrow> env_moves s w (wr_others r) st1 st2 \<Longrightarrow> process_run s w rs st2 st3 \<Longrightarrow>
    process_run s w (r # rs) st st3"

lemma with_phase_simps [simp]:
  "sys_db (with_phase st w d ph) = d" "sys_phase (with_phase st w d ph) w = ph"
  by (simp_all add: with_phase_def)

lemma env_movesD:
  assumes "env_moves s w f st st'"
  shows "(sys_step s)\<^sup>*\<^sup>* st st'" "sys_phase st' w = sys_phase st w" "sys_db st' = f (sys_db st)"
  using assms by (simp_all add: env_moves_def)

lemma with_phase_same: "sys_phase st w = ph \<Longrightarrow> with_phase st w (sys_db st) ph = st"
  by (cases st) (simp add: with_phase_def fun_upd_idem)

text \<open>A round is a run of steps of the system.\<close>

lemma round_run_steps:
  assumes "round_run s w r st st'" and "sys_phase st w = Idle"
  shows "(sys_step s)\<^sup>*\<^sup>* st st'" "sys_phase st' w = Idle"
proof -
  have claim1: "sys_step s st (with_phase st w d0 (Claimed job))"
    if "round_claim s r (sys_db st) = (d0, Some job)" for d0 job
    unfolding with_phase_def by (rule claim_step [OF assms(2) that])
  show "(sys_step s)\<^sup>*\<^sup>* st st'"
    using assms(1)
  proof cases
    case (unprepared d0 job st1 d' err)
    note env = env_movesD [OF unprepared(4)]
    have "sys_step s st1 (with_phase st1 w d' Idle)"
      unfolding with_phase_def by (rule unprepared_step [OF _ unprepared(5,6)]) (simp add: env(2))
    with claim1 [OF unprepared(3)] env(1) show ?thesis
      unfolding unprepared(1) by (meson converse_rtranclp_into_rtranclp rtranclp.rtrancl_into_rtrancl)
  next
    case (scanned d0 job st1 plan st2 d' err)
    note env = env_movesD [OF scanned(4)] and env' = env_movesD [OF scanned(6)]
    have "sys_step s st1 (st1\<lparr>sys_phase := (sys_phase st1)(w := Scanning job plan)\<rparr>)"
      by (rule prepare_step [OF _ scanned(5)]) (simp add: env(2))
    moreover have "st1\<lparr>sys_phase := (sys_phase st1)(w := Scanning job plan)\<rparr> = with_phase st1 w (sys_db st1) (Scanning job plan)"
      by (cases st1) (simp add: with_phase_def)
    ultimately have prep: "sys_step s st1 (with_phase st1 w (sys_db st1) (Scanning job plan))" by simp
    have "sys_step s st2 (with_phase st2 w d' Idle)"
      unfolding with_phase_def by (rule finish_step [OF _ scanned(7)]) (simp add: env'(2))
    with claim1 [OF scanned(3)] env(1) prep env'(1) show ?thesis
      unfolding scanned(1) by (meson converse_rtranclp_into_rtranclp rtranclp.rtrancl_into_rtrancl rtranclp_trans)
  qed simp_all
  show "sys_phase st' w = Idle"
    using assms by (cases rule: round_run.cases) simp_all
qed

text \<open>And it does to the database what the sequential model of the body does.\<close>

lemma round_run_body:
  assumes "round_run s w r st st'"
  shows "fst (worker_body s r (sys_db st)) = sys_db st'"
  using assms
proof cases
  case (no_job d0)
  have "d0 = sys_db st" using no_job(3) by (auto simp: claim_def Let_def split: option.splits)
  then show ?thesis using no_job by (simp add: worker_body_def run_once_def)
next
  case (unprepared d0 job st1 d' err)
  have db: "sys_db st1 = wr_after_claim r d0" using env_movesD(3) [OF unprepared(4)] by simp
  have "execute (wr_env r) s (wr_times r) (wr_between r) job (sys_db st1) = (d', err)"
    using unprepared(5,6) by (auto simp: execute_def split: sum.splits option.splits)
  with unprepared db show ?thesis
    by (simp add: worker_body_def run_once_def split: option.split)
next
  case (scanned d0 job st1 plan st2 d' err)
  have db: "sys_db st1 = wr_after_claim r d0" using env_movesD(3) [OF scanned(4)] by simp
  have "sys_db st2 = wr_between r (sys_db st1)" using env_movesD(3) [OF scanned(6)] by simp
  then have "execute (wr_env r) s (wr_times r) (wr_between r) job (sys_db st1) = (d', err)"
    using scanned(5,7) by (simp add: execute_def)
  with scanned db show ?thesis
    by (simp add: worker_body_def run_once_def split: option.split)
qed (simp add: worker_body_def)

text \<open>C5. A worker process refines the step relation. A run of its main loop over any rounds up to the
  first signal (it works, finds nothing, fails to reach the database), with whatever the other
  processes do between its transactions and between its rounds (other workers claim and finish
  jobs, the scheduler ticks, images are seeded, scans requested), is a run of the system that
  gives the worker back idle; its database is the one the sequential model of the loop
  computes, and it is consistent when the run started in a reachable state.\<close>

theorem worker_process_refines_steps:
  assumes "process_run s w rs st st'" and "sys_phase st w = Idle"
    and "\<forall>r \<in> set (butlast rs). \<not> wr_signal r"
  shows "(sys_step s)\<^sup>*\<^sup>* st st' \<and> sys_phase st' w = Idle \<and>
    fst (snd (worker_loop s False rs (sys_db st))) = sys_db st' \<and> (reachable s st \<longrightarrow> consistent (sys_db st'))"
proof -
  have run: "(sys_step s)\<^sup>*\<^sup>* st st' \<and> sys_phase st' w = Idle \<and> fst (snd (worker_loop s False rs (sys_db st))) = sys_db st'"
    using assms
  proof (induction rule: process_run.induct)
    case (over st)
    then show ?case by simp
  next
    case (more r st st1 st2 rs st3)
    note one = round_run_steps [OF more.hyps(1) more.prems(1)] and env = env_movesD [OF more.hyps(2)]
    have rest: "(sys_step s)\<^sup>*\<^sup>* st2 st3 \<and> sys_phase st3 w = Idle \<and>
        fst (snd (worker_loop s False rs (sys_db st2))) = sys_db st3"
      using more.IH more.prems(2) one(2) env(2) by (cases rs) auto
    obtain did where body: "worker_body s r (sys_db st) = (sys_db st1, did)"
      using round_run_body [OF more.hyps(1)] by (metis prod.collapse)
    have "fst (snd (worker_loop s (wr_signal r) rs (sys_db st2))) = sys_db st3"
      using rest more.prems(2) by (cases rs) (auto split: if_splits)
    then have "fst (snd (worker_loop s False (r # rs) (sys_db st))) = sys_db st3"
      using body env(3) by (auto split: prod.splits)
    with one(1) env(1) rest show ?case by (meson rtranclp_trans)
  qed
  then show ?thesis using sys_invD(1) [OF reachable_inv [OF reachable_steps]] by blast
qed

text \<open>Two workers and two jobs: the second worker claims while the first is between its claim and its
  scan, and still holds its job when the first is done.\<close>

lemma env_moves_id: "env_moves s w id st st"
  by (simp add: env_moves_def)

definition busy_round :: worker_round where
  "busy_round = last_round\<lparr>wr_after_claim := \<lambda>d. fst (claim [] 0 0 (lease_seconds default_settings) d)\<rparr>"

definition two_workers :: system where
  "two_workers = \<lparr>sys_db = sample_db, sys_phase = \<lambda>_. Idle\<rparr>"

lemma busy_round_exists:
  "\<exists>st' job. round_run default_settings 1 busy_round two_workers st' \<and> sys_phase st' 2 = Claimed job"
proof -
  let ?s = default_settings and ?r = busy_round
  obtain d0 j where c: "round_claim ?s ?r (sys_db two_workers) = (d0, j)" by (cases "round_claim ?s ?r (sys_db two_workers)")
  obtain d1 k where c': "claim [] 0 0 (lease_seconds ?s) d0 = (d1, k)" by (cases "claim [] 0 0 (lease_seconds ?s) d0")
  have both: "case claim [] 0 0 (lease_seconds ?s) sample_db of (d, j) \<Rightarrow>
      j \<noteq> None \<and> snd (claim [] 0 0 (lease_seconds ?s) d) \<noteq> None" by code_simp
  obtain job job2 where jobs: "j = Some job" "k = Some job2"
    using both c c' by (auto simp: busy_round_def last_round_def zero_times_def two_workers_def)
  let ?c = "with_phase two_workers 1 d0 (Claimed job)"
  let ?st1 = "with_phase ?c 2 d1 (Claimed job2)"
  have free: "sys_phase ?c 2 = Idle" by (simp add: with_phase_def two_workers_def)
  have step: "sys_step ?s ?c ?st1"
    unfolding with_phase_def [of ?c] by (rule claim_step [OF free]) (use c' jobs(2) in simp)
  have env: "env_moves ?s 1 (wr_after_claim ?r) ?c ?st1"
    using r_into_rtranclp [of "sys_step ?s", OF step] c' by (simp add: env_moves_def busy_round_def) (simp add: with_phase_def)
  have up: "\<not> wr_down ?r" and bt: "wr_between ?r = id" by (simp_all add: busy_round_def last_round_def)
  show ?thesis
  proof (cases "\<exists>plan. prepare (wr_env ?r) ?s (wr_times ?r) job (sys_db ?st1) = Inr (Some plan)")
    case True
    then obtain plan where plan: "prepare (wr_env ?r) ?s (wr_times ?r) job (sys_db ?st1) = Inr (Some plan)" by blast
    let ?st2 = "with_phase ?st1 1 (sys_db ?st1) (Scanning job plan)"
    obtain d' err where fin: "finish_job (wr_env ?r) ?s (wr_times ?r) job plan (sys_db ?st2) = (d', err)" by (meson surj_pair)
    have "round_run ?s 1 ?r two_workers (with_phase ?st2 1 d' Idle)"
      by (rule scanned [OF up c [unfolded jobs] env plan _ fin]) (simp add: bt env_moves_id)
    then show ?thesis by (auto simp: with_phase_def)
  next
    case False
    obtain d' err where ex: "execute (wr_env ?r) ?s (wr_times ?r) id job (sys_db ?st1) = (d', err)" by (meson surj_pair)
    have "round_run ?s 1 ?r two_workers (with_phase ?st1 1 d' Idle)"
      by (rule unprepared [OF up c [unfolded jobs] env _ ex]) (use False in blast)
    then show ?thesis by (auto simp: with_phase_def)
  qed
qed

theorem worker_process_refines_steps_witness:
  "\<exists>st' job. (sys_step default_settings)\<^sup>*\<^sup>* two_workers st' \<and> sys_phase st' 1 = Idle \<and> sys_phase st' 2 = Claimed job \<and>
     sys_db st' = fst (snd (worker_loop default_settings False [busy_round] sample_db))"
proof -
  obtain st' job where r: "round_run default_settings 1 busy_round two_workers st'" "sys_phase st' 2 = Claimed job"
    using busy_round_exists by blast
  have "env_moves default_settings 1 (wr_others busy_round) st' st'"
    using env_moves_id by (simp add: busy_round_def last_round_def)
  then have run: "process_run default_settings 1 [busy_round] two_workers st'"
    by (rule more [OF r(1) _ over])
  from worker_process_refines_steps [OF run] r(2) show ?thesis
    by (auto simp: two_workers_def simp del: worker_loop.simps)
qed

section \<open>The scheduler among others\<close>

text \<open>The rounds of the scheduler, each pass finding the leases of the jobs that are held live (how long
  that is, is \<open>Lease_Timing.lease_outlives_job\<close>), with moves of the others in between.\<close>

inductive scheduler_run ::
    "settings \<Rightarrow> scheduler_world list \<Rightarrow> scheduler_state \<Rightarrow> system \<Rightarrow> scheduler_state \<Rightarrow> system \<Rightarrow> bool" for s where
  no_round: "scheduler_run s [] sc st sc st"
| a_round: "live_leases (sw_stmt w) st \<Longrightarrow>
    (sys_step s)\<^sup>*\<^sup>* (st\<lparr>sys_db := store (scheduler_round s w sc)\<rparr>) st1 \<Longrightarrow>
    sys_db st1 = store (others w (scheduler_round s w sc)) \<Longrightarrow>
    scheduler_run s ws (others w (scheduler_round s w sc)) st1 sc' st' \<Longrightarrow>
    scheduler_run s (w # ws) sc st sc' st'"

lemma guarded_tick_steps:
  assumes "guarded_tick s w (sys_db st) = Some d'" and "live_leases (sw_stmt w) st"
  shows "sys_step s st (st\<lparr>sys_db := d'\<rparr>)"
  using assms tick_step [OF assms(2)]
  by (auto simp: guarded_tick_def split: if_splits sum.splits)

lemma scheduler_round_steps:
  assumes "store sc = sys_db st" and "live_leases (sw_stmt w) st"
  shows "(sys_step s)\<^sup>*\<^sup>* st (st\<lparr>sys_db := store (scheduler_round s w sc)\<rparr>)"
proof -
  have same: "st\<lparr>sys_db := sys_db st\<rparr> = st" by (cases st) simp
  have step: "sys_step s st (st\<lparr>sys_db := d'\<rparr>)" if "guarded_tick s w (store sc) = Some d'" for d'
    using guarded_tick_steps [OF that [unfolded assms(1)] assms(2)] .
  show ?thesis
    using step by (auto simp: scheduler_round_def Let_def assms(1) same split: prod.split option.split)
qed

theorem scheduler_process_refines_steps:
  assumes "scheduler_run s ws sc st sc' st'" and "store sc = sys_db st" and "\<forall>w \<in> set (butlast ws). \<not> sw_signal w"
  shows "(sys_step s)\<^sup>*\<^sup>* st st' \<and> snd (scheduler_loop s False ws sc) = sc' \<and> store sc' = sys_db st' \<and>
    (reachable s st \<longrightarrow> consistent (sys_db st'))"
proof -
  have run: "(sys_step s)\<^sup>*\<^sup>* st st' \<and> snd (scheduler_loop s False ws sc) = sc' \<and> store sc' = sys_db st'"
    using assms
  proof (induction rule: scheduler_run.induct)
    case (a_round w st sc st1 ws sc' st')
    have rest: "(sys_step s)\<^sup>*\<^sup>* st1 st' \<and> snd (scheduler_loop s False ws (others w (scheduler_round s w sc))) = sc' \<and>
        store sc' = sys_db st'"
      using a_round by (cases ws) auto
    have "snd (scheduler_loop s (sw_signal w) ws (others w (scheduler_round s w sc))) = sc'"
      using rest a_round.prems(2) by (cases ws) (auto split: if_splits)
    with rest scheduler_round_steps [OF a_round.prems(1) a_round.hyps(1)] a_round.hyps(2) show ?case
      by simp (meson rtranclp_trans)
  qed simp
  then show ?thesis using sys_invD(1) [OF reachable_inv [OF reachable_steps]] by blast
qed

end
