(* ===== verification/Routes.thy ===== *)
theory Routes
  imports Requirements
begin

text \<open>
  The assembly of the application (src/app/api/main.py): the routes the four routers declare
  with their decorators, in the order they are included, and which endpoint answers a request.
  How a path is read against a pattern is the framework's and a parameter (\<open>reader\<close>); what is
  used of it is documented: a plain parameter stands for a non-empty text without a slash, a
  \<open>path\<close> parameter for any text, and a path that has a reading is matched.
\<close>

section \<open>The route table\<close>

datatype segment =
    Lit string
  | Str_param string
  | Path_param string

datatype endpoint =
    Health
  | List_images
  | Request_scan
  | Image_cves
  | List_cves
  | Cve_images
  | Stats

record route =
  rt_method :: string
  rt_pattern :: "segment list"
  rt_status :: int
  rt_endpoint :: endpoint

text \<open>\<open>APIRouter(prefix="/api")\<close>.\<close>

definition with_prefix :: "string \<Rightarrow> route list \<Rightarrow> route list" where
  "with_prefix prefix = map (\<lambda>r. r\<lparr>rt_pattern := Lit prefix # rt_pattern r\<rparr>)"

definition health_router :: "route list" where
  "health_router =
     [\<lparr>rt_method = ''GET'', rt_pattern = [Lit ''/health''], rt_status = 200, rt_endpoint = Health\<rparr>]"

definition list_images_route :: route where
  "list_images_route =
     \<lparr>rt_method = ''GET'', rt_pattern = [Lit ''/images''], rt_status = 200, rt_endpoint = List_images\<rparr>"

definition request_scan_route :: route where
  "request_scan_route =
     \<lparr>rt_method = ''POST'',
      rt_pattern = [Lit ''/images/'', Path_param ''image_name'', Lit ''/'', Str_param ''tag'', Lit ''/scan''],
      rt_status = 202, rt_endpoint = Request_scan\<rparr>"

definition image_cves_route :: route where
  "image_cves_route =
     \<lparr>rt_method = ''GET'',
      rt_pattern = [Lit ''/images/'', Path_param ''image_name'', Lit ''/'', Str_param ''tag'', Lit ''/cves''],
      rt_status = 200, rt_endpoint = Image_cves\<rparr>"

definition images_router :: "route list" where
  "images_router = with_prefix ''/api'' [list_images_route, request_scan_route, image_cves_route]"

definition list_cves_route :: route where
  "list_cves_route =
     \<lparr>rt_method = ''GET'', rt_pattern = [Lit ''/cves''], rt_status = 200, rt_endpoint = List_cves\<rparr>"

definition cve_images_route :: route where
  "cve_images_route =
     \<lparr>rt_method = ''GET'', rt_pattern = [Lit ''/cves/'', Str_param ''cve_id'', Lit ''/images''],
      rt_status = 200, rt_endpoint = Cve_images\<rparr>"

definition cves_router :: "route list" where
  "cves_router = with_prefix ''/api'' [list_cves_route, cve_images_route]"

definition stats_route :: route where
  "stats_route =
     \<lparr>rt_method = ''GET'', rt_pattern = [Lit ''/stats''], rt_status = 200, rt_endpoint = Stats\<rparr>"

definition stats_router :: "route list" where
  "stats_router = with_prefix ''/api'' [stats_route]"

text \<open>The routers in the order of \<open>include_router\<close>.\<close>

definition app_routes :: "route list" where
  "app_routes = health_router @ images_router @ cves_router @ stats_router"

section \<open>Reading a path\<close>

text \<open>The path that a pattern makes of values for its parameters, None when a value does not fit.\<close>

fun render :: "segment list \<Rightarrow> string list \<Rightarrow> string option" where
  "render [] [] = Some []"
| "render (Lit l # p) vs = map_option ((@) l) (render p vs)"
| "render (Str_param n # p) (v # vs) =
     (if v = [] \<or> CHR ''/'' \<in> set v then None else map_option ((@) v) (render p vs))"
| "render (Path_param n # p) (v # vs) = map_option ((@) v) (render p vs)"
| "render _ _ = None"

type_synonym reader = "segment list \<Rightarrow> string \<Rightarrow> string list option"

definition lawful_reader :: "reader \<Rightarrow> bool" where
  "lawful_reader reader \<longleftrightarrow> (\<forall>p s.
     case reader p s of Some vs \<Rightarrow> render p vs = Some s | None \<Rightarrow> \<nexists>vs. render p vs = Some s)"

text \<open>The first route that matches path and method; a path that is matched with other methods only is
  a 405, one that is not matched a 404.\<close>

datatype dispatched =
    Not_found
  | Method_not_allowed
  | To endpoint "string list"

definition dispatch :: "reader \<Rightarrow> route list \<Rightarrow> string \<Rightarrow> string \<Rightarrow> dispatched" where
  "dispatch reader routes meth path =
     (let matching = filter (\<lambda>r. reader (rt_pattern r) path \<noteq> None) routes
      in case filter (\<lambda>r. rt_method r = meth) matching of
           r # _ \<Rightarrow> To (rt_endpoint r) (the (reader (rt_pattern r) path))
         | [] \<Rightarrow> if matching = [] then Not_found else Method_not_allowed)"

section \<open>The table is unambiguous\<close>

definition image_path :: "string \<Rightarrow> string \<Rightarrow> string \<Rightarrow> string" where
  "image_path name tag what = ''/api/images/'' @ name @ ''/'' @ tag @ ''/'' @ what"

definition cve_path :: "string \<Rightarrow> string" where
  "cve_path cid = ''/api/cves/'' @ cid @ ''/images''"

definition segment_text :: "string \<Rightarrow> bool" where
  "segment_text v \<longleftrightarrow> v \<noteq> [] \<and> CHR ''/'' \<notin> set v"

lemma last_slash_unique:
  assumes "a @ ''/'' @ b = a' @ ''/'' @ b'" "CHR ''/'' \<notin> set b" "CHR ''/'' \<notin> set b'"
  shows "a = a' \<and> b = b'"
proof -
  have "rev b @ CHR ''/'' # rev a = rev b' @ CHR ''/'' # rev a'"
    using arg_cong [OF assms(1), of rev] by simp
  moreover have "takeWhile (\<lambda>c. c \<noteq> CHR ''/'') (rev x @ CHR ''/'' # y) = rev x" if "CHR ''/'' \<notin> set x" for x y
    using that by (subst takeWhile_append2) auto
  ultimately have "rev b = rev b'" using assms(2,3) by metis
  with assms(1) show ?thesis by simp
qed

lemma image_path_unique:
  assumes "image_path n t w = image_path n' t' w'" "CHR ''/'' \<notin> set t" "CHR ''/'' \<notin> set t'" "CHR ''/'' \<notin> set w" "CHR ''/'' \<notin> set w'"
  shows "n = n' \<and> t = t' \<and> w = w'"
proof -
  have "(n @ ''/'' @ t) @ ''/'' @ w = (n' @ ''/'' @ t') @ ''/'' @ w'" using assms(1) by (simp add: image_path_def)
  from last_slash_unique [OF this assms(4,5)] have "n @ ''/'' @ t = n' @ ''/'' @ t'" "w = w'" by blast+
  with last_slash_unique [OF this(1) assms(2,3)] show ?thesis by blast
qed

text \<open>The readings of each pattern.\<close>

lemmas router_defs = app_routes_def health_router_def images_router_def cves_router_def stats_router_def with_prefix_def
  list_images_route_def request_scan_route_def image_cves_route_def list_cves_route_def cve_images_route_def stats_route_def

lemma render_Lit_Cons: "render (Lit l # p) vs = Some s \<longleftrightarrow> (\<exists>r. render p vs = Some r \<and> s = l @ r)"
  by auto

lemma render_Nil_iff: "render [] vs = Some s \<longleftrightarrow> vs = [] \<and> s = []"
  by (cases vs) auto

lemma render_Str_iff:
  "render (Str_param n # p) vs = Some s \<longleftrightarrow> (\<exists>v us r. vs = v # us \<and> segment_text v \<and> render p us = Some r \<and> s = v @ r)"
  by (cases vs) (auto simp: segment_text_def)

lemma render_Path_iff:
  "render (Path_param n # p) vs = Some s \<longleftrightarrow> (\<exists>v us r. vs = v # us \<and> render p us = Some r \<and> s = v @ r)"
  by (cases vs) auto

lemmas render_iff = render_Lit_Cons render_Nil_iff render_Str_iff render_Path_iff

text \<open>Which requests each endpoint is meant for.\<close>

fun serves :: "string \<Rightarrow> string \<Rightarrow> endpoint \<Rightarrow> string list \<Rightarrow> bool" where
  "serves meth path Health vs \<longleftrightarrow> meth = ''GET'' \<and> path = ''/health'' \<and> vs = []"
| "serves meth path List_images vs \<longleftrightarrow> meth = ''GET'' \<and> path = ''/api/images'' \<and> vs = []"
| "serves meth path Request_scan vs \<longleftrightarrow>
     meth = ''POST'' \<and> (\<exists>n t. vs = [n, t] \<and> segment_text t \<and> path = image_path n t ''scan'')"
| "serves meth path Image_cves vs \<longleftrightarrow>
     meth = ''GET'' \<and> (\<exists>n t. vs = [n, t] \<and> segment_text t \<and> path = image_path n t ''cves'')"
| "serves meth path List_cves vs \<longleftrightarrow> meth = ''GET'' \<and> path = ''/api/cves'' \<and> vs = []"
| "serves meth path Cve_images vs \<longleftrightarrow>
     meth = ''GET'' \<and> (\<exists>c. vs = [c] \<and> segment_text c \<and> path = cve_path c)"
| "serves meth path Stats vs \<longleftrightarrow> meth = ''GET'' \<and> path = ''/api/stats'' \<and> vs = []"

lemma image_path_eq:
  "segment_text t \<Longrightarrow> segment_text t' \<Longrightarrow> CHR ''/'' \<notin> set w \<Longrightarrow> CHR ''/'' \<notin> set w' \<Longrightarrow>
   image_path n t w = image_path n' t' w' \<longleftrightarrow> n = n' \<and> t = t' \<and> w = w'"
  using image_path_unique [of n t w n' t' w'] by (auto simp: segment_text_def)

lemma cve_path_eq: "cve_path c = cve_path c' \<longleftrightarrow> c = c'"
  by (simp add: cve_path_def)

lemma path_differs:
  "image_path n t w \<noteq> cve_path c" "cve_path c \<noteq> image_path n t w"
  "image_path n t w \<noteq> ''/health''" "image_path n t w \<noteq> ''/api/images''" "image_path n t w \<noteq> ''/api/cves''"
  "image_path n t w \<noteq> ''/api/stats''" "cve_path c \<noteq> ''/health''" "cve_path c \<noteq> ''/api/images''"
  "cve_path c \<noteq> ''/api/cves''" "cve_path c \<noteq> ''/api/stats''"
  by (simp_all add: image_path_def cve_path_def)

lemma serves_unique:
  assumes "serves meth path e vs" "serves meth path e' vs'"
  shows "e = e' \<and> vs = vs'"
  using assms by (cases e; cases e') (auto simp: image_path_eq cve_path_eq path_differs path_differs [symmetric])

lemma serves_iff_render:
  "serves meth path e vs \<longleftrightarrow>
     (\<exists>r \<in> set app_routes. rt_method r = meth \<and> rt_endpoint r = e \<and> render (rt_pattern r) vs = Some path)"
  unfolding router_defs
  by (cases e) (simp_all add: render_iff image_path_def cve_path_def, auto)

lemma dispatch_iff:
  assumes "lawful_reader reader" and "set routes = set app_routes"
  shows "dispatch reader routes meth path = To e vs \<longleftrightarrow> serves meth path e vs"
proof -
  let ?ms = "filter (\<lambda>r. rt_method r = meth) (filter (\<lambda>r. reader (rt_pattern r) path \<noteq> None) routes)"
  have sound: "serves meth path e vs" if "dispatch reader routes meth path = To e vs" for e vs
  proof -
    from that obtain r rs where r: "?ms = r # rs" "e = rt_endpoint r" "vs = the (reader (rt_pattern r) path)"
      by (auto simp: dispatch_def Let_def split: list.splits if_splits)
    then have "r \<in> set ?ms" by simp
    moreover from this obtain us where us: "reader (rt_pattern r) path = Some us" by auto
    moreover have "render (rt_pattern r) us = Some path"
      using assms(1) us by (auto simp: lawful_reader_def split: option.splits)
    ultimately show ?thesis using r(2,3) assms(2) by (auto simp: serves_iff_render)
  qed
  have "\<exists>e' vs'. dispatch reader routes meth path = To e' vs'" if req: "serves meth path e vs" for e vs
  proof -
    from req obtain r where r: "r \<in> set routes" "rt_method r = meth" "render (rt_pattern r) vs = Some path"
      using assms(2) by (auto simp: serves_iff_render)
    have "reader (rt_pattern r) path \<noteq> None"
      using assms(1) r(3) by (auto simp: lawful_reader_def split: option.splits)
    with r have "?ms \<noteq> []" by (auto simp: filter_empty_conv)
    then show ?thesis by (cases ?ms) (simp_all add: dispatch_def Let_def del: filter_filter)
  qed
  with sound serves_unique show ?thesis by blast
qed

lemma dispatch_Not_found:
  "dispatch reader routes meth path = Not_found \<longleftrightarrow> (\<forall>r \<in> set routes. reader (rt_pattern r) path = None)"
  by (auto simp: dispatch_def Let_def filter_empty_conv split: list.split)

text \<open>C32. Every request has one reading. Whatever the framework's way of reading a path, as long as
  it keeps to the documented meaning of its parameters, a request reaches an endpoint exactly
  when it has the method and the form the endpoint is meant for, with the parts of the path as
  its parameters: an image name may hold slashes, and a name, tag or CVE put into a path comes
  back as it was put in. No two routes compete, so the order of the routers does not matter.\<close>

theorem requests_reach_their_endpoint:
  assumes "lawful_reader reader" and "set routes = set app_routes"
  shows "(dispatch reader app_routes meth path = To e vs \<longleftrightarrow> serves meth path e vs) \<and>
    dispatch reader routes meth path = dispatch reader app_routes meth path"
proof
  show "dispatch reader app_routes meth path = To e vs \<longleftrightarrow> serves meth path e vs"
    by (rule dispatch_iff [OF assms(1) refl])
  have "dispatch reader routes meth path = Not_found \<longleftrightarrow> dispatch reader app_routes meth path = Not_found"
    using assms(2) by (simp add: dispatch_Not_found)
  moreover have "dispatch reader routes meth path = To e vs \<longleftrightarrow> dispatch reader app_routes meth path = To e vs" for e vs
    using dispatch_iff [OF assms] dispatch_iff [OF assms(1) refl] by simp
  ultimately show "dispatch reader routes meth path = dispatch reader app_routes meth path"
    by (metis dispatched.exhaust)
qed

section \<open>A reader\<close>

text \<open>All readings of a path, and the one a greedy regular expression finds.\<close>

fun readings :: "segment list \<Rightarrow> string \<Rightarrow> string list list" where
  "readings [] s = (if s = [] then [[]] else [])"
| "readings (Lit l # p) s = (if starts_with l s then readings p (drop (length l) s) else [])"
| "readings (Str_param n # p) s =
     concat (map (\<lambda>k. if segment_text (take k s) then map ((#) (take k s)) (readings p (drop k s)) else [])
       [0..<Suc (length s)])"
| "readings (Path_param n # p) s =
     concat (map (\<lambda>k. map ((#) (take k s)) (readings p (drop k s))) [0..<Suc (length s)])"

definition greedy_reader :: reader where
  "greedy_reader p s = (case readings p s of [] \<Rightarrow> None | r # rs \<Rightarrow> Some (last (r # rs)))"

lemma splits_at: "(\<exists>k \<in> {0..<Suc (length s)}. P (take k s) (drop k s)) \<longleftrightarrow> (\<exists>a b. s = a @ b \<and> P a b)"
proof
  assume "\<exists>a b. s = a @ b \<and> P a b"
  then obtain a b where "s = a @ b" "P a b" by blast
  then show "\<exists>k \<in> {0..<Suc (length s)}. P (take k s) (drop k s)"
    by (intro bexI [of _ "length a"]) auto
qed (metis append_take_drop_id)

lemma readings_iff: "vs \<in> set (readings p s) \<longleftrightarrow> render p vs = Some s"
proof (induction p s arbitrary: vs rule: readings.induct)
  case (1 s)
  then show ?case by (cases vs) auto
next
  case (2 l p s)
  then show ?case by (auto simp: starts_with_iff render_Lit_Cons)
next
  case (3 n p s)
  have "vs \<in> set (readings (Str_param n # p) s) \<longleftrightarrow>
      (\<exists>k \<in> {0..<Suc (length s)}. segment_text (take k s) \<and> (\<exists>us. vs = take k s # us \<and> us \<in> set (readings p (drop k s))))"
    by (auto simp del: upt_Suc split: if_splits)
  also have "\<dots> \<longleftrightarrow> (\<exists>k \<in> {0..<Suc (length s)}. segment_text (take k s) \<and>
      (\<exists>us. vs = take k s # us \<and> render p us = Some (drop k s)))"
    using 3 by (intro bex_cong) (auto simp del: upt_Suc)
  also have "\<dots> \<longleftrightarrow> render (Str_param n # p) vs = Some s"
    unfolding splits_at [of s "\<lambda>a b. segment_text a \<and> (\<exists>us. vs = a # us \<and> render p us = Some b)"] render_Str_iff
    by auto
  finally show ?case .
next
  case (4 n p s)
  have "vs \<in> set (readings (Path_param n # p) s) \<longleftrightarrow>
      (\<exists>k \<in> {0..<Suc (length s)}. \<exists>us. vs = take k s # us \<and> us \<in> set (readings p (drop k s)))"
    by (auto simp del: upt_Suc)
  also have "\<dots> \<longleftrightarrow> (\<exists>k \<in> {0..<Suc (length s)}. \<exists>us. vs = take k s # us \<and> render p us = Some (drop k s))"
    using 4 by (intro bex_cong) (auto simp del: upt_Suc)
  also have "\<dots> \<longleftrightarrow> render (Path_param n # p) vs = Some s"
    unfolding splits_at [of s "\<lambda>a b. \<exists>us. vs = a # us \<and> render p us = Some b"] render_Path_iff
    by auto
  finally show ?case .
qed

lemma greedy_lawful: "lawful_reader greedy_reader"
proof -
  have "last (r # rs) \<in> set (readings p s)" if "readings p s = r # rs" for p s r rs
    unfolding that by (rule last_in_set) simp
  then show ?thesis
    by (auto simp: lawful_reader_def greedy_reader_def readings_iff [symmetric] simp del: last.simps split: list.split)
qed

theorem requests_reach_their_endpoint_witness:
  "dispatch greedy_reader app_routes ''GET'' ''/api/images/ghcr.io/org/app/1.19/cves'' = To Image_cves [''ghcr.io/org/app'', ''1.19''] \<and>
   dispatch greedy_reader (rev app_routes) ''GET'' ''/api/images/nginx/1.19/scan''
     = dispatch greedy_reader app_routes ''GET'' ''/api/images/nginx/1.19/scan''"
proof
  have "''/api/images/ghcr.io/org/app/1.19/cves'' = image_path ''ghcr.io/org/app'' ''1.19'' ''cves''" by (simp add: image_path_def)
  then have "serves ''GET'' ''/api/images/ghcr.io/org/app/1.19/cves'' Image_cves [''ghcr.io/org/app'', ''1.19'']"
    by (simp add: segment_text_def)
  then show "dispatch greedy_reader app_routes ''GET'' ''/api/images/ghcr.io/org/app/1.19/cves'' = To Image_cves [''ghcr.io/org/app'', ''1.19'']"
    using requests_reach_their_endpoint [OF greedy_lawful refl] by blast
  show "dispatch greedy_reader (rev app_routes) ''GET'' ''/api/images/nginx/1.19/scan''
     = dispatch greedy_reader app_routes ''GET'' ''/api/images/nginx/1.19/scan''"
    using requests_reach_their_endpoint [OF greedy_lawful, of "rev app_routes"] by simp
qed

section \<open>The requests of the acceptance script\<close>

text \<open>The answers to a GET, by the endpoint that gives them.\<close>

datatype api_reply =
    R_health health_report
  | R_images "image_summary page reply"
  | R_image_cves "cve_in_image page reply"
  | R_cves "cve_summary page reply"
  | R_cve_images "affected_image page reply"
  | R_other dispatched

definition api_get :: "reader \<Rightarrow> client \<Rightarrow> string \<Rightarrow> string option \<Rightarrow> int option \<Rightarrow> api_reply" where
  "api_get reader c path sev limit =
     (case dispatch reader app_routes ''GET'' path of
        To Health [] \<Rightarrow> R_health (cl_health c)
      | To List_images [] \<Rightarrow> R_images (cl_images c limit)
      | To Image_cves [name, tag] \<Rightarrow> R_image_cves (cl_image_cves c name tag sev limit)
      | To List_cves [] \<Rightarrow> R_cves (cl_cves c sev limit)
      | To Cve_images [cid] \<Rightarrow> R_cve_images (cl_cve_images c cid limit)
      | x \<Rightarrow> R_other x)"

text \<open>The script addresses the endpoints by paths it puts together from names, tags and CVE ids; each
  is answered by the function of the client record it is modelled with.\<close>

theorem script_requests_are_answered:
  assumes "lawful_reader reader"
  shows "api_get reader c ''/health'' None None = R_health (cl_health c)"
    and "api_get reader c ''/api/images'' None limit = R_images (cl_images c limit)"
    and "segment_text tag \<Longrightarrow> api_get reader c (image_path name tag ''cves'') sev limit
      = R_image_cves (cl_image_cves c name tag sev limit)"
    and "api_get reader c ''/api/cves'' sev limit = R_cves (cl_cves c sev limit)"
    and "segment_text cid \<Longrightarrow> api_get reader c (cve_path cid) None limit = R_cve_images (cl_cve_images c cid limit)"
proof -
  have to: "dispatch reader app_routes ''GET'' path = To e vs" if "serves ''GET'' path e vs" for path e vs
    using that dispatch_iff [OF assms refl] by simp
  show "api_get reader c ''/health'' None None = R_health (cl_health c)"
    using to [of _ Health] by (simp add: api_get_def)
  show "api_get reader c ''/api/images'' None limit = R_images (cl_images c limit)"
    using to [of _ List_images] by (simp add: api_get_def)
  show "api_get reader c (image_path name tag ''cves'') sev limit = R_image_cves (cl_image_cves c name tag sev limit)"
    if "segment_text tag"
    using to [of "image_path name tag ''cves''" Image_cves "[name, tag]"] that by (simp add: api_get_def)
  show "api_get reader c ''/api/cves'' sev limit = R_cves (cl_cves c sev limit)"
    using to [of _ List_cves] by (simp add: api_get_def)
  show "api_get reader c (cve_path cid) None limit = R_cve_images (cl_cve_images c cid limit)" if "segment_text cid"
    using to [of "cve_path cid" Cve_images "[cid]"] that by (simp add: api_get_def)
qed

end
