(* ===== verification/Spec2Isabelle.thy ===== *)
theory Spec2Isabelle
  imports Queue_Props Registry_Props Report_Props Persist_Props Scheduler_Props Worker_Props
    Api_Props Stats_Props Seed System_Props Logs_Props Schema_Props
    Requirements_Props Job_Logs Ephemeral_Props Migration_Env Lease_Timing
    Process_Runs Routes
begin

text \<open>
  A verification development for the echo security scanner: a service that keeps a watch list of
  container images, scans each of them periodically with Trivy, and serves the CVEs found over
  an HTTP API. The program is Python (src/app and src/scripts) on PostgreSQL.

  \<^bold>\<open>The program and its processes.\<close> All state that outlives a process is in six tables: \<open>image\<close>,
  \<open>scan_job\<close> (the queue), \<open>scan_run\<close>, \<open>package\<close>, \<open>cve\<close> and \<open>finding\<close>. The seed script fills the
  watch list. The scheduler, guarded by an advisory lock, reaps the jobs of dead workers and
  enqueues the images that are due. Workers claim jobs with row locks and leases, resolve the
  image's tag to a digest, skip the scan when nothing can have changed, otherwise run Trivy and
  record its report. The API reads the tables, and can enqueue or promote a job on demand.

  \<^bold>\<open>Theories, in the order of their dependencies.\<close>
  \<^item> Prelude: time in microseconds, tables as lists of rows, UPDATE and INSERT ... ON CONFLICT as
    functions on them, the collection \<open>row_simps\<close>. Pystring, Json, Pyfloat, Json_Encode: what the
    code uses of Python's \<open>str\<close>, \<open>json\<close>, double division and \<open>json.dumps\<close>.
  \<^item> Severity, Models, Config: src/app/domain/severity.py, src/app/domain/models.py and
    src/app/config.py. Models also states \<open>consistent\<close>, the invariant of the database: keys and
    sequences, one active job per image, foreign keys, run pointers, ranks, and the derived
    columns (a CVE's worst severity and image count, a run's counts) equal to what the current
    findings say.
  \<^item> Queue, Queue_Props: src/app/jobs/queue.py. The locale \<open>queue_step\<close> is what every statement
    of the queue promises the rest (the database stays consistent, other tables are the same),
    \<open>job_exit\<close> what every way out of the running state promises; both are interpreted on each
    operation. The properties refine the queue to a map from images to active jobs.
  \<^item> Errors, Registry, Registry_Props: the exceptions and src/app/registry/digest.py.
  \<^item> Report_Parser, Trivy, Report_Props: src/app/scanner/parser.py and src/app/scanner/trivy.py.
  \<^item> Persist, Persist_Lemmas, Persist_Specs, Persist_Props: src/app/scanner/persist.py; the upserts
    row by row, the image's view (\<open>image_view\<close>) as the abstract state, and the recording of a scan
    as one update of it. The locale \<open>quiet_recorder\<close> is the contract of skips and failures.
  \<^item> Scheduler, Scheduler_Props: src/app/scheduler/scheduler.py, from the due time of an image to
    the main loop with its shutdown flag and the advisory lock it gives back.
  \<^item> Worker, Worker_Props: src/app/scanner/worker.py, a job as its three transactions, and the main
    loop, which a signal stops after the round under way. Lease_Timing: the calls a job waits for
    (\<open>job_calls\<close>), with the proof that no other answer matters to it, and how long a lease has to be.
  \<^item> Api, Api_Specs, Api_Props, Stats_Props: src/app/api/deps.py, src/app/api/schemas.py and the routes. The locale
    \<open>paged_listing\<close> is what a paged endpoint promises a client that walks its pages, interpreted
    on all four listings; \<open>keyed_listing\<close> is what is left of it when rows that tie may come in
    another order on every page, interpreted on the two listings of findings. Routes: src/app/api/main.py, the routes of all the routers and which endpoint a
    request reaches.
  \<^item> Seed: src/app/db/seed.py.
  \<^item> System, System_Props: all processes together as a step relation, one rule per transaction,
    with the locale \<open>system_op\<close> as the contract of each; the invariant of every reachable state
    and the refinement of the whole to a map of published
    reports (\<open>published\<close>).
  \<^item> Process_Runs: the main loops of a worker and of the scheduler with whatever the other processes
    do between their transactions (\<open>process_run\<close>, \<open>scheduler_run\<close>) as runs of the system.
  \<^item> Logs, Logs_Props: src/app/obs/logging.py and src/app/api/middleware.py. Job_Logs: the log
    lines of the worker and the scheduler, composed with what they do to the database.
  \<^item> Schema, Schema_Props: the schema the models declare, migration 0001 as operations on a
    catalogue, and src/scripts/check_schema_drift.py. Migration_Env: src/app/db/migrations/env.py, the
    URL the migrations are run on.
  \<^item> Requirements, Requirements_Props: the checks src/scripts/verify_requirements.py makes over HTTP,
    run against the modelled API, and its wait for the first scans. Ephemeral, Ephemeral_Props: its
    checks behind \<open>--with-db\<close>, with the image it registers and deletes with all its rows.

  \<^bold>\<open>How effects are modelled.\<close> A transaction is a function of the database; a statement or flush the
  database refuses is \<open>Inl\<close> of a \<open>sql_error\<close> and leaves the state as it was. A flush writes only
  the columns of an object that differ from the value loaded (\<open>merge_job\<close>, \<open>merge_image\<close>), and a
  rollback expires the objects only when a transaction was open, as the ORM does. Sequences
  advance on a conflict too. The process clock (\<open>now\<close>), \<open>statement_timestamp()\<close> (\<open>stmt_ts\<close>) and
  \<open>now()\<close> of the transaction (\<open>txn_ts\<close>) are separate arguments. Row locks of other sessions are
  the list \<open>locked\<close> the claim skips.

  \<^bold>\<open>Parameters.\<close> Code outside the repository is an argument: the HTTP client (\<open>http_client\<close>), the
  standard library's date parsers, number texts and SHA-256 (\<open>stdlib\<close>), how a process ends
  (\<open>spawn\<close>), the file system, the collation of the database (\<open>coll\<close>, a sort key), floating-point
  aggregation of the statistics, the order PostgreSQL gives rows that tie in the query for a page (\<open>ties\<close>), the HTTP date format, the framework's reading of a path (\<open>reader\<close>), the formatter of a log line. What a
  property assumes of one is a hypothesis of it, and its witness instantiates it.

  \<^bold>\<open>Fuel and termination.\<close> The JSON decoder runs on fuel of twice the length of its input and two;
  \<open>Json.scan_value_fuel\<close> shows that more never changes the result. The wait of the acceptance script has fuel too;
  the last property of Requirements_Props gives the bound that is enough, and the 36 polls of the
  failure path need fuel of 37, as the property of Ephemeral_Props shows. All other
  recursion is structural or has a measure. The main loops of the scheduler and of the worker run
  until a signal comes; they recurse over the rounds the world offers (\<open>scheduler_loop\<close>,
  \<open>worker_loop\<close>), and the two liveness properties on them say that the first signal ends them.

  \<^bold>\<open>What is assumed of the interleaving.\<close> In System each transaction is one atomic step: claims,
  scheduler passes, requests and the writing of an outcome come one after another in any order,
  while the probing, resolving and scanning of the workers go on between them. The sessions of the
  program set no isolation level (src/app/db/session.py), so they run at PostgreSQL's READ COMMITTED,
  which promises less: a statement does not see what another open transaction has written. The row
  locks make claims, promotions and upserts of the same row wait for each other, but the rollup of a
  CVE reads the findings of other images: \<open>Persist_Props.concurrent_rollups_strand\<close> models that
  statement on its snapshot (\<open>recompute_cve_rollup_at\<close>) and shows two workers leave a CVE with a
  wrong rollup that no serial order gives. The invariant of System, and what rests on it, is
  about serial orders. Furthermore a scheduler pass does not find the lease of a
  live worker expired, which the lease validator of the settings is meant to ensure; a worker may
  die at any point. \<open>Lease_Timing.lease_outlives_job\<close> says which settings make the assumption true (the
  default ones leave 120 seconds), and \<open>Lease_Timing.validated_lease_may_expire\<close> that the validator
  accepts some that do not. Without it the invariant fails:
  \<open>Persist_Props.stale_image_strands_rollup\<close> is the counterexample.

  \<^bold>\<open>Not modelled.\<close> Strings are lists of code points below 256; the NUL character PostgreSQL refuses
  in text, the overflow of a bounded string by trailing spaces (which PostgreSQL cuts off instead of
  refusing it; \<open>varchar\<close> refuses), the range of its integer columns, and the recursion limit and the digit limit of
  \<open>json.loads\<close> are left out. The overflow of a datetime is modelled for the deferral of a job, where
  a registry chooses the delay; in the other sums the settings do. The database can fail the
  statements of a scheduler round and the claim of a worker; a worker that loses the database in
  the middle of a job is a worker that dies (\<open>crash_step\<close>). The length of the sleeps, the start and
  stop lines of the processes, the environment variables behind the settings, the serialisation
  of the response models by pydantic, engine and session construction (src/app/db/session.py)
  are library calls without logic of their own; so are the routes FastAPI adds by itself (its
  documentation, redirects of a trailing slash). What
  src/scripts/verify_requirements.py prints is left out, docker and psql are assumed to run the
  statement they are given (a psql that fails or hangs ends the script with an error after at
  most 60 seconds), all its requests are answered from one state of the database, and the names
  it puts into a URL, unquoted, are taken to reach the endpoint as they are: a name with a
  question mark, a hash or a percent sign would not (Routes begins with the path as decoded).
\<close>

end
